(* ===== verification/Prelude.thy ===== *)
theory Prelude
  imports Main "HOL-Library.Word" "HOL-Library.AList" "HOL-Library.Multiset"
begin

text \<open>
  What every component of the development shares: Go's fixed-width integers, run-time
  panics as values of a sum type, slice indexing and slicing, Go maps as association
  lists, and the lemmas on words and lists that the component proofs use.
\<close>

section \<open>Go's integers\<close>

text \<open>\<open>uint64\<close> is \<open>64 word\<close>, so \<open>+\<close> and \<open>-\<close> wrap around.
  Signed \<open>int\<close>, \<open>int64\<close> and \<open>int32\<close> are \<open>int\<close> with the wrap-around written out.\<close>

type_synonym u64 = "64 word"
type_synonym byte = "8 word"

definition wrap_int64 :: "int \<Rightarrow> int" where
  "wrap_int64 x = (x + 2 ^ 63) mod 2 ^ 64 - 2 ^ 63"

definition wrap_int32 :: "int \<Rightarrow> int" where
  "wrap_int32 x = (x + 2 ^ 31) mod 2 ^ 32 - 2 ^ 31"

definition in_int64 :: "int \<Rightarrow> bool" where
  "in_int64 x \<longleftrightarrow> - (2 ^ 63) \<le> x \<and> x < 2 ^ 63"

definition in_int32 :: "int \<Rightarrow> bool" where
  "in_int32 x \<longleftrightarrow> - (2 ^ 31) \<le> x \<and> x < 2 ^ 31"

section \<open>Panics\<close>

text \<open>A run-time panic is a value of type \<open>fault\<close>; a computation that may panic
  returns \<open>fault + 'a\<close>. \<open>PanicCall\<close> stands for an explicit \<open>panic(...)\<close> or
  \<open>logger.Panicf(...)\<close> of the source.\<close>

datatype fault = IndexOutOfRange | SliceOutOfRange | NilDereference | DivideByZero | TypeAssertion | PanicCall

type_synonym 'a go = "fault + 'a"

fun go_bind :: "'a go \<Rightarrow> ('a \<Rightarrow> 'b go) \<Rightarrow> 'b go" where
  "go_bind (Inl e) f = Inl e"
| "go_bind (Inr x) f = f x"

lemma go_bind_eq_Inr [simp]:
  "go_bind m f = Inr y \<longleftrightarrow> (\<exists>x. m = Inr x \<and> f x = Inr y)"
  by (cases m) auto

lemma go_bind_eq_Inl:
  "go_bind m f = Inl e \<longleftrightarrow> m = Inl e \<or> (\<exists>x. m = Inr x \<and> f x = Inl e)"
  by (cases m) auto

lemma go_bind_assoc: "go_bind (go_bind m f) g = go_bind m (\<lambda>x. go_bind (f x) g)"
  by (cases m) auto

lemma go_bind_cong [fundef_cong]:
  "m = m' \<Longrightarrow> (\<And>x. m' = Inr x \<Longrightarrow> f x = f' x) \<Longrightarrow> go_bind m f = go_bind m' f'"
  by (cases m') auto

section \<open>Slices\<close>

text \<open>Indexing \<open>xs[i]\<close> and slicing \<open>xs[lo:hi]\<close>, which panic out of range. Go checks the
  upper bound of a slice expression against the capacity of the backing array; the model
  checks it against the length, the stricter bound.\<close>

definition slice_get :: "'a list \<Rightarrow> nat \<Rightarrow> 'a go" where
  "slice_get xs i = (if i < length xs then Inr (xs ! i) else Inl IndexOutOfRange)"

definition slice_range :: "'a list \<Rightarrow> nat \<Rightarrow> nat \<Rightarrow> 'a list go" where
  "slice_range xs lo hi =
     (if lo \<le> hi \<and> hi \<le> length xs then Inr (take (hi - lo) (drop lo xs)) else Inl SliceOutOfRange)"

definition ulen :: "'a list \<Rightarrow> u64" where
  "ulen xs = of_nat (length xs)"

lemma slice_get_ok [simp]: "i < length xs \<Longrightarrow> slice_get xs i = Inr (xs ! i)"
  by (simp add: slice_get_def)

lemma slice_get_eq_Inr: "slice_get xs i = Inr x \<longleftrightarrow> i < length xs \<and> x = xs ! i"
  by (auto simp: slice_get_def)

lemma slice_range_ok [simp]:
  "lo \<le> hi \<Longrightarrow> hi \<le> length xs \<Longrightarrow> slice_range xs lo hi = Inr (take (hi - lo) (drop lo xs))"
  by (simp add: slice_range_def)

lemma slice_range_eq_Inr:
  "slice_range xs lo hi = Inr ys \<longleftrightarrow> lo \<le> hi \<and> hi \<le> length xs \<and> ys = take (hi - lo) (drop lo xs)"
  by (auto simp: slice_range_def)

section \<open>Word arithmetic without wrap-around\<close>

named_theorems u64_nat \<open>comparisons of uint64 values read as natural numbers\<close>

lemmas [u64_nat] = word_less_nat_alt word_le_nat_alt

lemma u64_bound [simp]: "unat (x :: u64) < 18446744073709551616"
  using unsigned_less [of x, where 'a = nat] by simp

lemma unat_plus_u64: "unat x + unat y < 2 ^ 64 \<Longrightarrow> unat (x + y :: u64) = unat x + unat y"
  by (simp add: unat_word_ariths)

lemma unat_Suc_u64: "unat x + 1 < 2 ^ 64 \<Longrightarrow> unat (x + 1 :: u64) = unat x + 1"
  using unat_plus_u64 [of x 1] by simp

lemma unat_minus_u64: "unat y \<le> unat x \<Longrightarrow> unat (x - y :: u64) = unat x - unat y"
  by (simp add: unat_sub word_le_nat_alt)

lemma unat_pred_u64: "0 < unat x \<Longrightarrow> unat (x - 1 :: u64) = unat x - 1"
  using unat_minus_u64 [of 1 x] by simp

lemma unat_ulen [simp]: "length xs < 2 ^ 64 \<Longrightarrow> unat (ulen xs) = length xs"
  by (simp add: ulen_def unat_of_nat)

lemma u64_eq_iff: "x = y \<longleftrightarrow> unat x = unat (y :: u64)"
  by (simp add: word_unat_eq_iff)

lemma unat_min_u64: "unat (min x y :: u64) = min (unat x) (unat y)"
  by (simp add: min_def word_le_nat_alt)

lemma unat_max_u64: "unat (max x y :: u64) = max (unat x) (unat y)"
  by (simp add: max_def word_le_nat_alt)

lemma wrap_int64_id [simp]: "in_int64 x \<Longrightarrow> wrap_int64 x = x"
  by (simp add: wrap_int64_def in_int64_def)

lemma wrap_int32_id [simp]: "in_int32 x \<Longrightarrow> wrap_int32 x = x"
  by (simp add: wrap_int32_def in_int32_def)

section \<open>Lists\<close>

lemma take_drop_split: "n \<le> m \<Longrightarrow> take n xs @ take (m - n) (drop n xs) = take m xs"
  by (metis le_add_diff_inverse take_add)

section \<open>Go maps as association lists\<close>

text \<open>A Go map is an association list with distinct keys. \<open>range m\<close> visits the keys
  in an order the language leaves open: here the order of the list, and the lemmas that
  depend on it are stated up to permutation.\<close>

definition keys :: "('k \<times> 'v) list \<Rightarrow> 'k list" where
  "keys m = map fst m"

lemma keys_simps [simp]:
  "keys [] = []" "keys (p # m) = fst p # keys m" "keys (m @ m') = keys m @ keys m'"
  by (simp_all add: keys_def)

lemma length_keys [simp]: "length (keys m) = length m"
  by (simp add: keys_def)

lemma map_of_in_keys: "map_of m k = Some v \<Longrightarrow> k \<in> set (keys m)"
  by (force simp: keys_def dest: map_of_SomeD)

lemma map_of_None_keys: "map_of m k = None \<longleftrightarrow> k \<notin> set (keys m)"
  by (simp add: keys_def map_of_eq_None_iff)

lemma keys_update: "set (keys (AList.update k v m)) = insert k (set (keys m))"
  by (auto simp: keys_def update_keys)

lemma keys_update_in: "k \<in> set (keys m) \<Longrightarrow> keys (AList.update k v m) = keys m"
  by (simp add: keys_def update_keys)

lemma distinct_keys_update: "distinct (keys m) \<Longrightarrow> distinct (keys (AList.update k v m))"
  by (simp add: keys_def distinct_update)

lemma keys_delete: "set (keys (AList.delete k m)) = set (keys m) - {k}"
  by (induction m) auto

lemma distinct_keys_delete: "distinct (keys m) \<Longrightarrow> distinct (keys (AList.delete k m))"
  by (simp add: keys_def distinct_delete)

end
