(* ===== verification/RaftPb.thy ===== *)
theory RaftPb
  imports Prelude
begin

text \<open>
  The messages of \<open>src/rafts/pb/raft.proto\<close> and \<open>src/globalpb/data.proto\<close> as records and
  datatypes. A field of message type, a pointer in the generated Go code, is an \<open>option\<close>;
  \<open>bytes\<close> are lists of \<open>8 word\<close>. The zero values are those of a Go composite literal
  that sets no field.
\<close>

datatype MessageState = StateOk | StateRaftNotExist | StateRaftStopped | StateFailed

record NodeMeta =
  node_Id :: u64
  node_Host :: string
  node_Port :: string

record Response =
  resp_State :: MessageState
  resp_Container :: "NodeMeta option"

record RaftMeta =
  meta_Term :: u64
  meta_Vote :: u64
  meta_Commit :: u64

datatype ConfChangeType = ConfChangeAddNode | ConfChangeRemoveNode

record ConfChange =
  cc_Type :: ConfChangeType
  cc_Node :: u64

record Configuration =
  conf_Nodes :: "u64 list"

record Snapshot =
  snap_Conf :: "Configuration option"
  snap_Index :: u64
  snap_Term :: u64
  snap_Data :: "byte list"

datatype EntryType = EntryNormal | EntryConfChange

record Entry =
  ent_Type :: EntryType
  ent_Index :: u64
  ent_Term :: u64
  ent_Data :: "byte list"

datatype MessageType =
  MsgApp | MsgAppResp | MsgProp | MsgSnap | MsgHeartbeat | MsgHeartbeatResp | MsgVote | MsgVoteResp

record Message =
  msg_Type :: MessageType
  msg_From :: u64
  msg_To :: u64
  msg_Term :: u64
  msg_PrevTerm :: u64
  msg_PrevIndex :: u64
  msg_Commit :: u64
  msg_Entries :: "Entry list"
  msg_Reject :: bool
  msg_Snap :: "Snapshot option"

definition zero_Entry :: Entry where
  "zero_Entry = \<lparr>ent_Type = EntryNormal, ent_Index = 0, ent_Term = 0, ent_Data = []\<rparr>"

definition zero_Snapshot :: Snapshot where
  "zero_Snapshot = \<lparr>snap_Conf = None, snap_Index = 0, snap_Term = 0, snap_Data = []\<rparr>"

definition zero_RaftMeta :: RaftMeta where
  "zero_RaftMeta = \<lparr>meta_Term = 0, meta_Vote = 0, meta_Commit = 0\<rparr>"

definition zero_Message :: Message where
  "zero_Message = \<lparr>msg_Type = MsgApp, msg_From = 0, msg_To = 0, msg_Term = 0, msg_PrevTerm = 0,
     msg_PrevIndex = 0, msg_Commit = 0, msg_Entries = [], msg_Reject = False, msg_Snap = None\<rparr>"

lemma zero_Entry_sel [simp]:
  "ent_Type zero_Entry = EntryNormal" "ent_Index zero_Entry = 0" "ent_Term zero_Entry = 0"
  "ent_Data zero_Entry = []"
  by (simp_all add: zero_Entry_def)

lemma zero_Message_sel [simp]:
  "msg_Type zero_Message = MsgApp" "msg_Reject zero_Message = False"
  "msg_Entries zero_Message = []" "msg_Snap zero_Message = None"
  by (simp_all add: zero_Message_def)

lemma zero_Snapshot_sel [simp]:
  "snap_Conf zero_Snapshot = None" "snap_Index zero_Snapshot = 0" "snap_Term zero_Snapshot = 0"
  by (simp_all add: zero_Snapshot_def)

end
