(* ===== verification/RaftUtil.thy ===== *)
theory RaftUtil
  imports RaftPb "HOL-Library.Sublist"
begin

text \<open>
  \<open>src/rafts/util.go\<close>. \<open>Entry.Size()\<close> is generated by the protobuf compiler and is not in
  the repository: \<open>limitSize\<close> takes it as its parameter \<open>sz\<close>. The running total of the source
  is an \<open>int\<close> compared after a conversion to \<open>uint64\<close>, which is addition in \<open>64 word\<close>.
\<close>

definition noLimit :: u64 where
  "noLimit = 0"

definition util_min :: "u64 \<Rightarrow> u64 \<Rightarrow> u64" where
  "util_min a b = (if a < b then a else b)"

definition util_max :: "u64 \<Rightarrow> u64 \<Rightarrow> u64" where
  "util_max a b = (if a < b then b else a)"

text \<open>The loop of \<open>limitSize\<close>: \<open>rest\<close> is \<open>ents[bound:]\<close>, and the result is the final \<open>bound\<close>.\<close>

fun limitSize_loop :: "(Entry \<Rightarrow> u64) \<Rightarrow> u64 \<Rightarrow> u64 \<Rightarrow> Entry list \<Rightarrow> nat \<Rightarrow> nat" where
  "limitSize_loop sz maxsize cur [] bound = bound"
| "limitSize_loop sz maxsize cur (e # rest) bound =
     (let cur' = cur + sz e in
      if maxsize \<le> cur' then bound else limitSize_loop sz maxsize cur' rest (Suc bound))"

definition limitSize :: "(Entry \<Rightarrow> u64) \<Rightarrow> Entry list \<Rightarrow> u64 \<Rightarrow> Entry list" where
  "limitSize sz ents maxsize =
     (if ents = [] \<or> maxsize = noLimit then ents
      else take (limitSize_loop sz maxsize (sz (hd ents)) (tl ents) 1) ents)"

fun oneOf :: "MessageType \<Rightarrow> MessageType list \<Rightarrow> bool" where
  "oneOf mt [] = False"
| "oneOf mt (t # types) = (if t = mt then True else oneOf mt types)"

text \<open>The loop of \<open>iconcat\<close>: it returns the final factor \<open>r\<close>.\<close>

function iconcat_loop :: "u64 \<Rightarrow> u64 \<Rightarrow> u64" where
  "iconcat_loop r c = (if c div 10 > 0 then iconcat_loop (r * 10) (c mod 10) else r)"
  by pat_completeness auto
termination
proof (relation "measure (\<lambda>(r, c). unat c)")
  fix r c :: u64
  assume "c div 10 > 0"
  then have "0 < unat (c div 10)" by (simp add: word_less_nat_alt)
  then have "10 \<le> unat c" by (simp add: unat_div div_greater_zero_iff)
  then show "((r * 10, c mod 10), r, c) \<in> measure (\<lambda>(r, c). unat c)"
    by (simp add: unat_mod)
qed simp

declare iconcat_loop.simps [simp del]

definition iconcat :: "u64 \<Rightarrow> u64 \<Rightarrow> u64" where
  "iconcat a b = a * iconcat_loop 10 b + b"

section \<open>Lemmas\<close>

lemma util_min_eq [simp]: "util_min a b = min a b"
  by (auto simp: util_min_def min_def)

lemma util_max_eq [simp]: "util_max a b = max a b"
  by (auto simp: util_max_def max_def)

lemma oneOf_iff [simp]: "oneOf mt ts \<longleftrightarrow> mt \<in> set ts"
  by (induction ts) auto

lemma limitSize_loop_ge: "bound \<le> limitSize_loop sz m s rest bound"
  by (induction rest arbitrary: s bound) (auto simp: Let_def dest: Suc_leD)

lemma limitSize_loop_le: "limitSize_loop sz m s rest bound \<le> bound + length rest"
  by (induction rest arbitrary: s bound) (simp_all add: Let_def, metis add_Suc)

lemma limitSize_Nil [simp]: "limitSize sz [] m = []"
  by (simp add: limitSize_def)

lemma limitSize_noLimit [simp]: "limitSize sz ents noLimit = ents"
  by (simp add: limitSize_def)

lemma limitSize_prefix: "prefix (limitSize sz ents m) ents"
  by (auto simp: limitSize_def take_is_prefix)

lemma limitSize_eq_Nil [simp]: "limitSize sz ents m = [] \<longleftrightarrow> ents = []"
  using limitSize_loop_ge [of 1 sz m "sz (hd ents)" "tl ents"] by (auto simp: limitSize_def)

definition total_size :: "(Entry \<Rightarrow> u64) \<Rightarrow> Entry list \<Rightarrow> nat" where
  "total_size sz ents = (\<Sum>e\<leftarrow>ents. unat (sz e))"

lemma total_size_simps [simp]:
  "total_size sz [] = 0" "total_size sz (e # es) = unat (sz e) + total_size sz es"
  by (simp_all add: total_size_def)

text \<open>What the loop computes when the sizes do not overflow: the entries it keeps stay below
  the limit, and one more would reach it.\<close>

lemma limitSize_loop_spec:
  assumes "unat s + total_size sz rest < 2 ^ 64" "n = limitSize_loop sz m s rest b - b"
  shows "(n = 0 \<or> unat s + total_size sz (take n rest) < unat m) \<and>
         (n < length rest \<longrightarrow> unat m \<le> unat s + total_size sz (take (Suc n) rest))"
  using assms
proof (induction rest arbitrary: s b n)
  case Nil
  then show ?case by simp
next
  case (Cons e rest)
  have s': "unat (s + sz e) = unat s + unat (sz e)"
    using Cons.prems(1) by (intro unat_plus_u64) simp
  show ?case
  proof (cases "m \<le> s + sz e")
    case True
    then show ?thesis using Cons.prems s' by (simp add: word_le_nat_alt)
  next
    case False
    let ?k = "limitSize_loop sz m (s + sz e) rest (Suc b)"
    have n: "n = Suc (?k - Suc b)"
      using Cons.prems(2) False limitSize_loop_ge [of "Suc b" sz m "s + sz e" rest] by simp
    have "unat (s + sz e) + total_size sz rest < 2 ^ 64"
      using Cons.prems(1) s' by simp
    from Cons.IH [OF this refl, of "Suc b"] show ?thesis
      using False s' n by (auto simp: word_le_nat_alt)
  qed
qed

lemma iconcat_loop_eq: "iconcat_loop r c = (if c < 10 then r else r * 10)"
proof (cases "c < 10")
  case True
  then have "unat c div 10 = 0" by (simp add: word_less_nat_alt)
  then have "\<not> c div 10 > 0" by (simp add: word_less_nat_alt unat_div)
  then show ?thesis using True by (simp add: iconcat_loop.simps [of r c])
next
  case False
  have "unat (c mod 10) < 10" by (simp add: unat_mod)
  then have "\<not> (c mod 10) div 10 > 0" by (simp add: word_less_nat_alt unat_div)
  then have 1: "iconcat_loop (r * 10) (c mod 10) = r * 10"
    by (simp add: iconcat_loop.simps [of "r * 10"])
  have "0 < unat c div 10"
    using False by (simp add: word_less_nat_alt div_greater_zero_iff)
  then have "c div 10 > 0" by (simp add: word_less_nat_alt unat_div)
  then show ?thesis using False 1 by (simp add: iconcat_loop.simps [of r c])
qed

end
