(* ===== verification/LogSpec.thy ===== *)
theory LogSpec
  imports RaftUtil
begin

text \<open>
  The abstract specification of a raft log, and the interface contracts over it. An abstract
  log is a non-empty list of entries whose indices are consecutive: its head stands for the
  last entry covered by a snapshot (index and term only; index 0 and term 0 when there is
  none), the rest are the entries after it. \<open>indexed_log\<close> is the reading interface that both the
  stable storage and the raft log offer; \<open>log_storage\<close> adds the writing operations of
  \<open>Storage\<close> in \<open>src/rafts/storage.go\<close> that the raft log calls.
\<close>

section \<open>Abstract logs\<close>

fun chain_from :: "nat \<Rightarrow> Entry list \<Rightarrow> bool" where
  "chain_from n [] = True"
| "chain_from n (e # es) = (unat (ent_Index e) = n \<and> chain_from (Suc n) es)"

definition log_base :: "Entry list \<Rightarrow> nat" where
  "log_base L = unat (ent_Index (hd L))"

definition log_last :: "Entry list \<Rightarrow> nat" where
  "log_last L = log_base L + length L - 1"

definition log_ok :: "Entry list \<Rightarrow> bool" where
  "log_ok L \<longleftrightarrow> L \<noteq> [] \<and> chain_from (log_base L) L \<and> log_base L + length L < 2 ^ 64"

definition log_term :: "Entry list \<Rightarrow> nat \<Rightarrow> u64" where
  "log_term L i = (if log_base L \<le> i \<and> i \<le> log_last L then ent_Term (L ! (i - log_base L)) else 0)"

text \<open>Overwriting a log from index \<open>k\<close> on, and the entries with index in \<open>[lo, hi)\<close>.\<close>

definition log_append :: "Entry list \<Rightarrow> nat \<Rightarrow> Entry list \<Rightarrow> Entry list" where
  "log_append L k ents = take (k - log_base L) L @ ents"

definition log_slice :: "Entry list \<Rightarrow> nat \<Rightarrow> nat \<Rightarrow> Entry list" where
  "log_slice L lo hi = take (hi - lo) (drop (lo - log_base L) L)"

definition snap_entry :: "Snapshot \<Rightarrow> Entry" where
  "snap_entry s = zero_Entry\<lparr>ent_Index := snap_Index s, ent_Term := snap_Term s\<rparr>"

lemma snap_entry_sel [simp]:
  "ent_Index (snap_entry s) = snap_Index s" "ent_Term (snap_entry s) = snap_Term s"
  by (simp_all add: snap_entry_def)

lemma chain_from_append [simp]:
  "chain_from n (xs @ ys) \<longleftrightarrow> chain_from n xs \<and> chain_from (n + length xs) ys"
  by (induction xs arbitrary: n) auto

lemma chain_from_take: "chain_from n xs \<Longrightarrow> chain_from n (take k xs)"
  by (metis append_take_drop_id chain_from_append)

lemma chain_from_drop: "chain_from n xs \<Longrightarrow> k \<le> length xs \<Longrightarrow> chain_from (n + k) (drop k xs)"
  by (metis append_take_drop_id chain_from_append length_take min.absorb2)

lemma chain_from_nth: "chain_from n xs \<Longrightarrow> i < length xs \<Longrightarrow> unat (ent_Index (xs ! i)) = n + i"
  by (induction xs arbitrary: n i) (auto simp: nth_Cons split: nat.splits)

lemma chain_from_hd: "chain_from n xs \<Longrightarrow> xs \<noteq> [] \<Longrightarrow> unat (ent_Index (hd xs)) = n"
  by (cases xs) auto

lemma log_base_append [simp]: "L \<noteq> [] \<Longrightarrow> log_base (L @ M) = log_base L"
  by (simp add: log_base_def)

lemma log_base_Cons [simp]: "log_base (e # es) = unat (ent_Index e)"
  by (simp add: log_base_def)

lemma log_base_take [simp]: "0 < n \<Longrightarrow> log_base (take n L) = log_base L"
  by (cases L; cases n) (auto simp: log_base_def)

lemma log_base_lt: "log_base L < 2 ^ 64"
  by (simp add: log_base_def)

lemma log_okD:
  assumes "log_ok L"
  shows "L \<noteq> []" "chain_from (log_base L) L" "log_base L + length L < 2 ^ 64" "0 < length L"
    "log_base L \<le> log_last L" "log_last L + 1 < 2 ^ 64" "log_last L + 1 = log_base L + length L"
  using assms by (cases L; simp add: log_ok_def log_last_def)+

lemma log_last_nth: "log_ok L \<Longrightarrow> unat (ent_Index (last L)) = log_last L"
  using chain_from_nth [of "log_base L" L "length L - 1"]
  by (cases "length L") (auto simp: log_ok_def log_last_def last_conv_nth)

lemma log_ok_append:
  assumes "log_ok L" "log_base L < k" "k \<le> log_last L + 1" "chain_from k ents" "k + length ents < 2 ^ 64"
  shows "log_ok (log_append L k ents)" "log_base (log_append L k ents) = log_base L"
    "log_last (log_append L k ents) + 1 = k + length ents"
proof -
  have k: "k - log_base L \<le> length L" "0 < k - log_base L"
    using assms(1-3) by (auto simp: log_ok_def log_last_def)
  show base: "log_base (log_append L k ents) = log_base L"
    using k assms(1) by (simp add: log_append_def log_ok_def)
  show "log_ok (log_append L k ents)"
    using assms k base by (auto simp: log_ok_def log_append_def chain_from_take)
  show "log_last (log_append L k ents) + 1 = k + length ents"
    unfolding log_last_def base using k assms(2) by (simp add: log_append_def)
qed

lemma log_append_take: "j \<le> k - log_base L \<Longrightarrow> k - log_base L \<le> length L \<Longrightarrow>
    take j (log_append L k ents) = take j (take (k - log_base L) L)"
  by (simp add: log_append_def)

text \<open>The term at an index of an overwritten log: the old term below \<open>k\<close>, the new entry's from \<open>k\<close> on.\<close>

lemma log_term_append_below:
  assumes "log_ok L" "log_base L < k" "k \<le> log_last L + 1" "i < k"
  shows "log_term (log_append L k ents) i = log_term L i"
proof -
  have k: "k - log_base L \<le> length L" "0 < k - log_base L"
    using assms(1-3) by (auto simp: log_ok_def log_last_def)
  have base: "log_base (log_append L k ents) = log_base L"
    using k assms(1) by (simp add: log_append_def log_ok_def)
  have "log_last (log_append L k ents) + 1 = k + length ents"
    unfolding log_last_def base using k assms(2) by (simp add: log_append_def)
  then show ?thesis
    using assms k base by (auto simp: log_term_def log_append_def nth_append log_last_def)
qed

lemma log_term_append_above:
  assumes "log_ok L" "log_base L < k" "k \<le> log_last L + 1" "j < length ents"
  shows "log_term (log_append L k ents) (k + j) = ent_Term (ents ! j)"
proof -
  have k: "k - log_base L \<le> length L" "0 < k - log_base L"
    using assms(1-3) by (auto simp: log_ok_def log_last_def)
  have base: "log_base (log_append L k ents) = log_base L"
    using k assms(1) by (simp add: log_append_def log_ok_def)
  have "log_last (log_append L k ents) + 1 = k + length ents"
    unfolding log_last_def base using k assms(2) by (simp add: log_append_def)
  then show ?thesis
    using assms k base by (auto simp: log_term_def log_append_def nth_append)
qed

section \<open>The interfaces\<close>

datatype goerr = ErrOutOfBound | ErrCompacted | ErrMissIndex

locale indexed_log =
  fixes inv :: "'s \<Rightarrow> bool"
    and view :: "'s \<Rightarrow> Entry list"
    and firstIdx :: "'s \<Rightarrow> u64 go"
    and lastIdx :: "'s \<Rightarrow> u64 go"
    and termAt :: "'s \<Rightarrow> u64 \<Rightarrow> (goerr + u64) go"
  assumes view_ok: "inv s \<Longrightarrow> log_ok (view s)"
    and firstIdx_law: "inv s \<Longrightarrow> \<exists>f. firstIdx s = Inr f \<and> unat f = log_base (view s) + 1"
    and lastIdx_law: "inv s \<Longrightarrow> \<exists>l. lastIdx s = Inr l \<and> unat l = log_last (view s)"
    and termAt_law: "inv s \<Longrightarrow> log_base (view s) \<le> unat i \<Longrightarrow> unat i \<le> log_last (view s) \<Longrightarrow>
      termAt s i = Inr (Inr (log_term (view s) (unat i)))"
begin

text \<open>The first index never passes the last one by more than one, and neither read panics.\<close>

lemma first_le_last:
  assumes "inv s" "firstIdx s = Inr f" "lastIdx s = Inr l"
  shows "f \<le> l + 1"
proof -
  note V = log_okD [OF view_ok [OF assms(1)]]
  have f: "unat f = log_base (view s) + 1"
    using firstIdx_law [OF assms(1)] assms(2) by auto
  have l: "unat l = log_last (view s)"
    using lastIdx_law [OF assms(1)] assms(3) by auto
  have "unat (l + 1) = log_last (view s) + 1"
    using unat_Suc_u64 [of l] l V(6) by simp
  then show ?thesis using f V(5) by (simp add: word_le_nat_alt)
qed

end

text \<open>What \<open>raftLog\<close> relies on beyond reading: a slice of the log, overwriting it from an index
  inside it or just past it, and replacing it by a snapshot.\<close>

locale log_storage = indexed_log inv view firstIdx lastIdx termAt
  for inv :: "'s \<Rightarrow> bool"
    and view :: "'s \<Rightarrow> Entry list"
    and firstIdx :: "'s \<Rightarrow> u64 go"
    and lastIdx :: "'s \<Rightarrow> u64 go"
    and termAt :: "'s \<Rightarrow> u64 \<Rightarrow> (goerr + u64) go" +
  fixes entriesIn :: "(Entry \<Rightarrow> u64) \<Rightarrow> 's \<Rightarrow> u64 \<Rightarrow> u64 \<Rightarrow> u64 \<Rightarrow> (goerr + Entry list) go"
    and appendAll :: "'s \<Rightarrow> Entry list \<Rightarrow> (goerr option \<times> 's) go"
    and applySnap :: "'s \<Rightarrow> Snapshot \<Rightarrow> 's"
  assumes entries_law: "inv s \<Longrightarrow> log_base (view s) < unat lo \<Longrightarrow> lo \<le> hi \<Longrightarrow>
      unat hi \<le> log_last (view s) + 1 \<Longrightarrow>
      entriesIn sz s lo hi m = Inr (Inr (limitSize sz (log_slice (view s) (unat lo) (unat hi)) m))"
    and append_law: "inv s \<Longrightarrow> ents \<noteq> [] \<Longrightarrow> chain_from k ents \<Longrightarrow> log_base (view s) < k \<Longrightarrow>
      k \<le> log_last (view s) + 1 \<Longrightarrow> k + length ents < 2 ^ 64 \<Longrightarrow>
      \<exists>s'. appendAll s ents = Inr (None, s') \<and> inv s' \<and> view s' = log_append (view s) k ents"
    and snap_law: "unat (snap_Index sn) + 1 < 2 ^ 64 \<Longrightarrow>
      inv (applySnap s sn) \<and> view (applySnap s sn) = [snap_entry sn]"
begin

text \<open>Restoring a snapshot and appending what follows it gives the log they describe together.\<close>

lemma snapshot_then_append:
  assumes "unat (snap_Index sn) + 1 + length ents < 2 ^ 64" "ents \<noteq> []"
    "chain_from (unat (snap_Index sn) + 1) ents"
  shows "\<exists>s'. appendAll (applySnap s sn) ents = Inr (None, s') \<and> inv s' \<and> view s' = snap_entry sn # ents"
proof -
  have S: "inv (applySnap s sn)" "view (applySnap s sn) = [snap_entry sn]"
    using snap_law [of sn s] assms(1) by auto
  show ?thesis
    using append_law [OF S(1) assms(2,3)] assms(1) S(2)
    by (auto simp: log_append_def log_last_def)
qed

end

end
