(* ===== verification/RaftStorage.thy ===== *)
theory RaftStorage
  imports LogSpec
begin

text \<open>
  \<open>InMemStorage\<close> of \<open>src/rafts/storage.go\<close>, the repository's implementation of the \<open>Storage\<close>
  interface: \<open>logs[0]\<close> is a dummy entry that holds the index and term of the last snapshot.
  Every operation of the interface is here; a Go \<open>(value, error)\<close> pair is \<open>goerr + value\<close>.
  The logger field has no effect on the state and is left out.
\<close>

record InMemStorage =
  ms_snapshot :: Snapshot
  ms_meta :: RaftMeta
  ms_logs :: "Entry list"

definition NewInMemStorage :: InMemStorage where
  "NewInMemStorage = \<lparr>ms_snapshot = zero_Snapshot, ms_meta = zero_RaftMeta, ms_logs = [zero_Entry]\<rparr>"

definition InMemStorage_InitialState :: "InMemStorage \<Rightarrow> goerr + (RaftMeta \<times> Configuration option)" where
  "InMemStorage_InitialState ms = Inr (ms_meta ms, snap_Conf (ms_snapshot ms))"

definition InMemStorage_SetMeta :: "InMemStorage \<Rightarrow> RaftMeta \<Rightarrow> InMemStorage" where
  "InMemStorage_SetMeta ms st = ms\<lparr>ms_meta := st\<rparr>"

definition InMemStorage_firstIndex :: "InMemStorage \<Rightarrow> u64 go" where
  "InMemStorage_firstIndex ms = go_bind (slice_get (ms_logs ms) 0) (\<lambda>d. Inr (ent_Index d + 1))"

definition InMemStorage_FirstIndex :: "InMemStorage \<Rightarrow> (goerr + u64) go" where
  "InMemStorage_FirstIndex ms = go_bind (InMemStorage_firstIndex ms) (\<lambda>i. Inr (Inr i))"

definition InMemStorage_lastIndex :: "InMemStorage \<Rightarrow> u64 go" where
  "InMemStorage_lastIndex ms =
     go_bind (slice_get (ms_logs ms) 0) (\<lambda>d. Inr (ent_Index d + ulen (ms_logs ms) - 1))"

definition InMemStorage_LastIndex :: "InMemStorage \<Rightarrow> (goerr + u64) go" where
  "InMemStorage_LastIndex ms = go_bind (InMemStorage_lastIndex ms) (\<lambda>i. Inr (Inr i))"

definition InMemStorage_Term :: "InMemStorage \<Rightarrow> u64 \<Rightarrow> (goerr + u64) go" where
  "InMemStorage_Term ms idx =
     go_bind (slice_get (ms_logs ms) 0) (\<lambda>d.
       let off = ent_Index d in
       if idx < off then Inr (Inl ErrCompacted)
       else go_bind (slice_get (ms_logs ms) (unat (idx - off))) (\<lambda>e. Inr (Inr (ent_Term e))))"

definition InMemStorage_Entries ::
  "(Entry \<Rightarrow> u64) \<Rightarrow> InMemStorage \<Rightarrow> u64 \<Rightarrow> u64 \<Rightarrow> u64 \<Rightarrow> (goerr + Entry list) go" where
  "InMemStorage_Entries sz ms lo hi maxsize =
     go_bind (InMemStorage_firstIndex ms) (\<lambda>first.
     go_bind (InMemStorage_lastIndex ms) (\<lambda>last.
       if lo < first \<or> hi > last + 1 then Inr (Inl ErrOutOfBound)
       else go_bind (slice_get (ms_logs ms) 0) (\<lambda>d.
         let off = ent_Index d in
         go_bind (slice_range (ms_logs ms) (unat (lo - off)) (unat (hi - off))) (\<lambda>es.
           Inr (Inr (limitSize sz es maxsize))))))"

definition InMemStorage_Snapshot :: "InMemStorage \<Rightarrow> goerr + Snapshot" where
  "InMemStorage_Snapshot ms = Inr (ms_snapshot ms)"

definition InMemStorage_CreateSnapshot ::
  "InMemStorage \<Rightarrow> Configuration option \<Rightarrow> byte list \<Rightarrow> (goerr option \<times> InMemStorage) go" where
  "InMemStorage_CreateSnapshot ms cfg data =
     go_bind (InMemStorage_lastIndex ms) (\<lambda>last.
     go_bind (InMemStorage_Term ms last) (\<lambda>t.
       case t of
         Inl err \<Rightarrow> Inr (Some err, ms)
       | Inr tm \<Rightarrow> Inr (None, ms\<lparr>ms_snapshot :=
           \<lparr>snap_Conf = cfg, snap_Index = last, snap_Term = tm, snap_Data = data\<rparr>\<rparr>)))"

definition InMemStorage_ApplySnapshot :: "InMemStorage \<Rightarrow> Snapshot \<Rightarrow> InMemStorage" where
  "InMemStorage_ApplySnapshot ms s =
     ms\<lparr>ms_snapshot := s,
        ms_logs := [zero_Entry\<lparr>ent_Index := snap_Index s, ent_Term := snap_Term s\<rparr>]\<rparr>"

definition InMemStorage_Append :: "InMemStorage \<Rightarrow> Entry list \<Rightarrow> (goerr option \<times> InMemStorage) go" where
  "InMemStorage_Append ms ents =
     (if ents = [] then Inr (None, ms)
      else go_bind (slice_get (ms_logs ms) 0) (\<lambda>d.
        let first = ent_Index d;
            last = ent_Index (hd ents) + ulen ents - 1 in
        if first > last then Inr (None, ms)
        else
          let off = ent_Index (hd ents) - ent_Index d in
          if off < ulen (ms_logs ms) then
            go_bind (slice_range (ms_logs ms) 0 (unat off)) (\<lambda>pre.
              Inr (None, ms\<lparr>ms_logs := pre @ ents\<rparr>))
          else if off = ulen (ms_logs ms) then Inr (None, ms\<lparr>ms_logs := ms_logs ms @ ents\<rparr>)
          else Inr (Some ErrMissIndex, ms)))"

section \<open>The storage keeps an abstract log\<close>

definition storage_inv :: "InMemStorage \<Rightarrow> bool" where
  "storage_inv ms \<longleftrightarrow> log_ok (ms_logs ms)"

lemma ms_head: "storage_inv ms \<Longrightarrow> slice_get (ms_logs ms) 0 = Inr (hd (ms_logs ms))"
  by (auto simp: storage_inv_def log_ok_def hd_conv_nth)

lemma ms_first:
  assumes "storage_inv ms"
  shows "\<exists>f. InMemStorage_firstIndex ms = Inr f \<and> unat f = log_base (ms_logs ms) + 1"
proof -
  note L = log_okD [OF assms [unfolded storage_inv_def]]
  have "unat (ent_Index (hd (ms_logs ms)) + 1) = log_base (ms_logs ms) + 1"
    using unat_Suc_u64 [of "ent_Index (hd (ms_logs ms))"] L(5,6) by (simp add: log_base_def)
  then show ?thesis using assms by (simp add: InMemStorage_firstIndex_def ms_head)
qed

lemma ms_last:
  assumes "storage_inv ms"
  shows "\<exists>l. InMemStorage_lastIndex ms = Inr l \<and> unat l = log_last (ms_logs ms)"
proof -
  let ?L = "ms_logs ms" and ?d = "ent_Index (hd (ms_logs ms))"
  note L = log_okD [OF assms [unfolded storage_inv_def]]
  have "unat (?d + ulen ?L) = log_base ?L + length ?L"
    using unat_plus_u64 [of ?d "ulen ?L"] L(3) by (simp add: log_base_def)
  then have "unat (?d + ulen ?L - 1) = log_last ?L"
    using L(4) unat_pred_u64 [of "?d + ulen ?L"] by (simp add: log_last_def)
  then show ?thesis using assms by (simp add: InMemStorage_lastIndex_def ms_head)
qed

lemma ms_term:
  assumes "storage_inv ms" "log_base (ms_logs ms) \<le> unat i" "unat i \<le> log_last (ms_logs ms)"
  shows "InMemStorage_Term ms i = Inr (Inr (log_term (ms_logs ms) (unat i)))"
proof -
  have "unat (i - ent_Index (hd (ms_logs ms))) = unat i - log_base (ms_logs ms)"
    using assms(2) by (simp add: unat_minus_u64 log_base_def)
  moreover have "unat i - log_base (ms_logs ms) < length (ms_logs ms)"
    using assms log_okD(7) [of "ms_logs ms"] unfolding storage_inv_def by linarith
  ultimately show ?thesis
    using assms by (simp add: InMemStorage_Term_def ms_head Let_def log_term_def word_less_nat_alt
        log_base_def)
qed

lemma ms_entries:
  assumes "storage_inv ms" "log_base (ms_logs ms) < unat lo" "lo \<le> hi"
    "unat hi \<le> log_last (ms_logs ms) + 1"
  shows "InMemStorage_Entries sz ms lo hi m =
    Inr (Inr (limitSize sz (log_slice (ms_logs ms) (unat lo) (unat hi)) m))"
proof -
  let ?L = "ms_logs ms"
  note L = log_okD [OF assms(1) [unfolded storage_inv_def]]
  obtain f where f: "InMemStorage_firstIndex ms = Inr f" "unat f = log_base ?L + 1"
    using ms_first [OF assms(1)] by blast
  obtain l where l: "InMemStorage_lastIndex ms = Inr l" "unat l = log_last ?L"
    using ms_last [OF assms(1)] by blast
  have l1: "unat (l + 1) = log_last ?L + 1"
    using unat_Suc_u64 [of l] l(2) L(6) by simp
  have g: "\<not> (lo < f \<or> hi > l + 1)"
    using assms(2,4) f(2) l1 by (simp add: word_less_nat_alt)
  have lo: "unat (lo - ent_Index (hd ?L)) = unat lo - log_base ?L"
    and hi: "unat (hi - ent_Index (hd ?L)) = unat hi - log_base ?L"
    using assms(2,3) by (simp_all add: unat_minus_u64 log_base_def word_le_nat_alt)
  have "unat hi - log_base ?L \<le> length ?L" "unat lo - log_base ?L \<le> unat hi - log_base ?L"
    using assms(3,4) L(7) by (simp_all add: word_le_nat_alt)
  then show ?thesis
    using assms(1,2) f l g lo hi
    by (simp add: InMemStorage_Entries_def ms_head Let_def log_slice_def)
qed

lemma ms_append:
  assumes "storage_inv ms" "ents \<noteq> []" "chain_from k ents" "log_base (ms_logs ms) < k"
    "k \<le> log_last (ms_logs ms) + 1" "k + length ents < 2 ^ 64"
  shows "InMemStorage_Append ms ents = Inr (None, ms\<lparr>ms_logs := log_append (ms_logs ms) k ents\<rparr>)"
proof -
  let ?L = "ms_logs ms"
  note L = log_okD [OF assms(1) [unfolded storage_inv_def]]
  have hd: "unat (ent_Index (hd ents)) = k"
    using assms(2,3) by (rule chain_from_hd [rotated])
  have len: "unat (ulen ents) = length ents" "unat (ulen ?L) = length ?L"
    using assms(6) L(3) by simp_all
  have "unat (ent_Index (hd ents) + ulen ents) = k + length ents"
    using unat_plus_u64 [of "ent_Index (hd ents)" "ulen ents"] hd len assms(6) by simp
  then have "unat (ent_Index (hd ents) + ulen ents - 1) = k + length ents - 1"
    using assms(2) unat_pred_u64 by simp
  then have g: "\<not> ent_Index (hd ?L) > ent_Index (hd ents) + ulen ents - 1"
    using assms(2,4) by (cases ents) (auto simp: word_less_nat_alt log_base_def)
  have off: "unat (ent_Index (hd ents) - ent_Index (hd ?L)) = k - log_base ?L"
    using unat_minus_u64 [of "ent_Index (hd ?L)" "ent_Index (hd ents)"] hd assms(4)
    by (simp add: log_base_def)
  have le: "k - log_base ?L \<le> length ?L"
    using assms(5) L(7) by linarith
  show ?thesis
    using assms(1,2) g off len le
    by (auto simp: InMemStorage_Append_def ms_head Let_def log_append_def word_less_nat_alt u64_eq_iff)
qed

interpretation ms: log_storage storage_inv ms_logs InMemStorage_firstIndex InMemStorage_lastIndex
  InMemStorage_Term InMemStorage_Entries InMemStorage_Append InMemStorage_ApplySnapshot
proof unfold_locales
  fix s :: InMemStorage and ents :: "Entry list" and k :: nat
  assume "storage_inv s" "ents \<noteq> []" "chain_from k ents" "log_base (ms_logs s) < k"
    "k \<le> log_last (ms_logs s) + 1" "k + length ents < 2 ^ 64"
  then show "\<exists>s'. InMemStorage_Append s ents = Inr (None, s') \<and> storage_inv s' \<and>
      ms_logs s' = log_append (ms_logs s) k ents"
    using ms_append log_ok_append(1) by (auto simp: storage_inv_def)
next
  fix s :: InMemStorage and sn :: Snapshot
  assume "unat (snap_Index sn) + 1 < 2 ^ 64"
  then show "storage_inv (InMemStorage_ApplySnapshot s sn) \<and>
      ms_logs (InMemStorage_ApplySnapshot s sn) = [snap_entry sn]"
    by (simp add: storage_inv_def InMemStorage_ApplySnapshot_def log_ok_def snap_entry_def)
qed (use ms_first ms_last ms_term ms_entries in \<open>simp_all add: storage_inv_def\<close>)

end
