(* ===== verification/RaftLog.thy ===== *)
theory RaftLog
  imports RaftStorage
begin

text \<open>
  \<open>src/rafts/raftlog.go\<close>: the \<open>unstable\<close> part of a raft log (a pending snapshot and entries not
  yet persisted) and \<open>raftLog\<close>, which layers it over the stable storage. Logging calls have no
  effect on the state and are left out, except \<open>Panicf\<close>, which panics. The storage is the
  repository's \<open>InMemStorage\<close>.
\<close>

record unstable =
  u_snapshot :: "Snapshot option"
  u_ents :: "Entry list"
  u_offset :: u64

record raftLog =
  rl_storage :: InMemStorage
  rl_unstable :: unstable
  rl_committed :: u64
  rl_applied :: u64

text \<open>\<open>if err != nil { panic(err) }\<close>.\<close>

definition must :: "(goerr + 'a) go \<Rightarrow> 'a go" where
  "must m = go_bind m (\<lambda>r. case r of Inl err \<Rightarrow> Inl PanicCall | Inr x \<Rightarrow> Inr x)"

section \<open>unstable\<close>

definition unstable_maybeFirstIndex :: "unstable \<Rightarrow> u64 option" where
  "unstable_maybeFirstIndex u =
     (case u_snapshot u of Some _ \<Rightarrow> Some (u_offset u) | None \<Rightarrow> None)"

definition unstable_maybeLastIndex :: "unstable \<Rightarrow> u64 option" where
  "unstable_maybeLastIndex u =
     (if length (u_ents u) > 0 then Some (u_offset u + ulen (u_ents u) - 1)
      else case u_snapshot u of Some s \<Rightarrow> Some (snap_Index s) | None \<Rightarrow> None)"

definition unstable_maybeTerm :: "unstable \<Rightarrow> u64 \<Rightarrow> u64 option go" where
  "unstable_maybeTerm u i =
     (if i < u_offset u then
        Inr (case u_snapshot u of
               Some s \<Rightarrow> if i = snap_Index s then Some (snap_Term s) else None
             | None \<Rightarrow> None)
      else
        let padding = i - u_offset u in
        case unstable_maybeLastIndex u of
          None \<Rightarrow> Inr None
        | Some lasti \<Rightarrow>
            if lasti < padding then Inr None
            else go_bind (slice_get (u_ents u) (unat padding)) (\<lambda>e. Inr (Some (ent_Term e))))"

definition unstable_entries :: "unstable \<Rightarrow> u64 \<Rightarrow> u64 \<Rightarrow> u64 \<Rightarrow> Entry list go" where
  "unstable_entries u lo hi maxSize =
     (if lo \<ge> hi then Inr []
      else
        let lo' = (if lo - u_offset u < 0 then u_offset u else lo);
            hi' = (if hi - u_offset u > ulen (u_ents u) then u_offset u + ulen (u_ents u) else hi) in
        slice_range (u_ents u) (unat (lo' - u_offset u)) (unat (hi' - u_offset u)))"

definition unstable_append :: "unstable \<Rightarrow> Entry list \<Rightarrow> unstable go" where
  "unstable_append u ents =
     go_bind (slice_get ents 0) (\<lambda>e0.
       let first = ent_Index e0 - 1; tip = u_offset u + ulen (u_ents u) - 1 in
       if first = tip then Inr (u\<lparr>u_ents := u_ents u @ ents\<rparr>)
       else if first > tip then Inl PanicCall
       else if first < u_offset u then Inr (u\<lparr>u_ents := ents, u_offset := first + 1\<rparr>)
       else
         go_bind (slice_range (u_ents u) 0 (unat (first - u_offset u + 1))) (\<lambda>pre.
           Inr (u\<lparr>u_ents := pre @ ents\<rparr>)))"

definition unstable_restore :: "unstable \<Rightarrow> Snapshot \<Rightarrow> unstable" where
  "unstable_restore u s = u\<lparr>u_snapshot := Some s, u_offset := snap_Index s + 1, u_ents := []\<rparr>"

definition unstable_stableTo :: "unstable \<Rightarrow> u64 \<Rightarrow> (Snapshot option \<times> Entry list \<times> unstable) go" where
  "unstable_stableTo u i =
     (let (snap, u1) =
        (case u_snapshot u of
           Some s \<Rightarrow> if i \<ge> snap_Index s then (Some s, u\<lparr>u_snapshot := None\<rparr>) else (None, u)
         | None \<Rightarrow> (None, u)) in
      if i \<ge> u_offset u1 then
        let n = unat (i - u_offset u1 + 1) in
        go_bind (slice_range (u_ents u1) 0 n) (\<lambda>ents.
        go_bind (slice_range (u_ents u1) n (length (u_ents u1))) (\<lambda>rest.
          Inr (snap, ents, u1\<lparr>u_ents := rest, u_offset := i + 1\<rparr>)))
      else Inr (snap, [], u1))"

section \<open>raftLog\<close>

definition newRaftLog :: "InMemStorage \<Rightarrow> raftLog go" where
  "newRaftLog st =
     go_bind (must (InMemStorage_FirstIndex st)) (\<lambda>firstIndex.
     go_bind (must (InMemStorage_LastIndex st)) (\<lambda>lastIndex.
       Inr \<lparr>rl_storage = st,
            rl_unstable = \<lparr>u_snapshot = None, u_ents = [], u_offset = lastIndex + 1\<rparr>,
            rl_committed = firstIndex - 1,
            rl_applied = firstIndex - 1\<rparr>))"

definition raftLog_firstIndex :: "raftLog \<Rightarrow> u64 go" where
  "raftLog_firstIndex rl =
     (case unstable_maybeFirstIndex (rl_unstable rl) of
        Some idx \<Rightarrow> Inr idx
      | None \<Rightarrow> must (InMemStorage_FirstIndex (rl_storage rl)))"

definition raftLog_lastIndex :: "raftLog \<Rightarrow> u64 go" where
  "raftLog_lastIndex rl =
     (case unstable_maybeLastIndex (rl_unstable rl) of
        Some idx \<Rightarrow> Inr idx
      | None \<Rightarrow> must (InMemStorage_LastIndex (rl_storage rl)))"

definition raftLog_term :: "raftLog \<Rightarrow> u64 \<Rightarrow> (goerr + u64) go" where
  "raftLog_term rl idx =
     go_bind (raftLog_firstIndex rl) (\<lambda>first.
       if idx < first - 1 then Inr (Inr 0)
       else go_bind (raftLog_lastIndex rl) (\<lambda>last.
         if idx > last then Inr (Inr 0)
         else go_bind (unstable_maybeTerm (rl_unstable rl) idx) (\<lambda>t.
           case t of
             Some tm \<Rightarrow> Inr (Inr tm)
           | None \<Rightarrow> InMemStorage_Term (rl_storage rl) idx)))"

definition raftLog_matchTerm :: "raftLog \<Rightarrow> u64 \<Rightarrow> u64 \<Rightarrow> bool go" where
  "raftLog_matchTerm rl idx tm =
     go_bind (raftLog_term rl idx) (\<lambda>r. Inr (case r of Inl err \<Rightarrow> False | Inr t \<Rightarrow> t = tm))"

definition raftLog_maybeCommit :: "raftLog \<Rightarrow> u64 \<Rightarrow> (bool \<times> raftLog) go" where
  "raftLog_maybeCommit rl to =
     (if to > rl_committed rl then
        go_bind (raftLog_lastIndex rl) (\<lambda>last.
          let c = util_min to last in
          go_bind (unstable_stableTo (rl_unstable rl) c) (\<lambda>(snap, ents, u).
            let st1 = (case snap of Some s \<Rightarrow> InMemStorage_ApplySnapshot (rl_storage rl) s
                       | None \<Rightarrow> rl_storage rl) in
            if length ents > 0 then
              go_bind (InMemStorage_Append st1 ents) (\<lambda>(err, st2).
                case err of
                  Some e \<Rightarrow> Inl PanicCall
                | None \<Rightarrow> Inr (True, rl\<lparr>rl_committed := c, rl_unstable := u, rl_storage := st2\<rparr>))
            else Inr (True, rl\<lparr>rl_committed := c, rl_unstable := u, rl_storage := st1\<rparr>)))
      else Inr (False, rl))"

text \<open>The two loops of \<open>maybeAppend\<close>: over the entries of the message, and over the indices of the
  log to find the hint that a rejection carries.\<close>

fun raftLog_maybeAppend_loop ::
  "raftLog \<Rightarrow> u64 \<Rightarrow> u64 \<Rightarrow> Entry list \<Rightarrow> (u64 \<times> bool \<times> raftLog) go" where
  "raftLog_maybeAppend_loop rl lastidx committed [] = Inr (lastidx, True, rl)"
| "raftLog_maybeAppend_loop rl lastidx committed (ent # rest) =
     go_bind (raftLog_matchTerm rl (ent_Index ent) (ent_Term ent)) (\<lambda>ok.
       if ok then raftLog_maybeAppend_loop rl lastidx committed rest
       else if ent_Index ent < rl_committed rl then Inr (ent_Index ent - 1, False, rl)
       else
         go_bind (unstable_append (rl_unstable rl) (ent # rest)) (\<lambda>u.
         go_bind (raftLog_maybeCommit (rl\<lparr>rl_unstable := u\<rparr>) (util_min lastidx committed)) (\<lambda>(_, rl').
           Inr (lastidx, True, rl'))))"

function raftLog_hint_loop :: "raftLog \<Rightarrow> u64 \<Rightarrow> u64 \<Rightarrow> u64 \<Rightarrow> u64 go" where
  "raftLog_hint_loop rl tm i hint =
     go_bind (raftLog_lastIndex rl) (\<lambda>last.
       if i < last + 1 then
         go_bind (raftLog_term rl i) (\<lambda>r.
           case r of
             Inl err \<Rightarrow> Inr i
           | Inr t \<Rightarrow> if t \<ge> tm then Inr i else raftLog_hint_loop rl tm (i + 1) i)
       else Inr hint)"
  by pat_completeness auto
termination
proof (relation "measure (\<lambda>(rl, tm, i, hint). 2 ^ 64 - unat i)", goal_cases)
  case (2 rl tm i hint last)
  then have "unat i < unat (last + 1)" by (simp add: word_less_nat_alt)
  moreover have "unat (last + 1) < 2 ^ 64" by simp
  ultimately have "unat i + 1 < 2 ^ 64" by linarith
  then show ?case using unat_Suc_u64 [of i] by simp
qed simp

declare raftLog_hint_loop.simps [simp del]

definition raftLog_maybeAppend ::
  "raftLog \<Rightarrow> u64 \<Rightarrow> u64 \<Rightarrow> u64 \<Rightarrow> Entry list \<Rightarrow> (u64 \<times> bool \<times> raftLog) go" where
  "raftLog_maybeAppend rl idx tm committed ents =
     (let lastidx = idx + ulen ents in
      go_bind (raftLog_matchTerm rl idx tm) (\<lambda>ok.
        if ok then raftLog_maybeAppend_loop rl lastidx committed ents
        else
          go_bind (raftLog_firstIndex rl) (\<lambda>first.
          go_bind (raftLog_hint_loop rl tm first 0) (\<lambda>hint.
            Inr (hint, False, rl)))))"

definition raftLog_append :: "raftLog \<Rightarrow> Entry list \<Rightarrow> raftLog go" where
  "raftLog_append rl ents =
     (if length ents = 0 then Inr rl
      else go_bind (unstable_append (rl_unstable rl) ents) (\<lambda>u. Inr (rl\<lparr>rl_unstable := u\<rparr>)))"

definition raftLog_appliedTo :: "raftLog \<Rightarrow> u64 \<Rightarrow> u64 \<times> raftLog" where
  "raftLog_appliedTo rl to =
     (if to < rl_applied rl then (rl_applied rl, rl)
      else let a = util_min (rl_committed rl) to in (a, rl\<lparr>rl_applied := a\<rparr>))"

definition raftLog_lastTerm :: "raftLog \<Rightarrow> u64 go" where
  "raftLog_lastTerm rl = go_bind (raftLog_lastIndex rl) (\<lambda>last. must (raftLog_term rl last))"

definition raftLog_isUpToDate :: "raftLog \<Rightarrow> u64 \<Rightarrow> u64 \<Rightarrow> bool go" where
  "raftLog_isUpToDate rl idx tm =
     go_bind (raftLog_lastTerm rl) (\<lambda>lt.
       if tm > lt then Inr True
       else if tm = lt then go_bind (raftLog_lastIndex rl) (\<lambda>last. Inr (idx \<ge> last))
       else Inr False)"

definition raftLog_restore :: "raftLog \<Rightarrow> Snapshot \<Rightarrow> raftLog" where
  "raftLog_restore rl s = rl\<lparr>rl_unstable := unstable_restore (rl_unstable rl) s\<rparr>"

text \<open>The value that \<open>slice\<close> returns. Its \<open>append\<close> can write into the array of the storage; what the
  storage is afterwards is \<open>raftLog_slice_store\<close> of \<open>RaftAlias\<close>, where it is shown to be unchanged when there is no size limit.\<close>

definition raftLog_slice ::
  "(Entry \<Rightarrow> u64) \<Rightarrow> raftLog \<Rightarrow> u64 \<Rightarrow> u64 \<Rightarrow> u64 \<Rightarrow> (goerr + Entry list) go" where
  "raftLog_slice sz rl from to maxSize =
     (if from \<ge> to then Inr (Inr [])
      else
        go_bind (raftLog_firstIndex rl) (\<lambda>first.
        go_bind (raftLog_lastIndex rl) (\<lambda>last.
          if from < first \<or> to > last + 1 then Inr (Inl ErrOutOfBound)
          else
            go_bind (InMemStorage_LastIndex (rl_storage rl)) (\<lambda>r.
            case r of
              Inl err \<Rightarrow> Inr (Inl err)
            | Inr slasti \<Rightarrow>
                go_bind
                  (if slasti \<ge> from
                   then InMemStorage_Entries sz (rl_storage rl) from (util_min (slasti + 1) to) maxSize
                   else Inr (Inr [])) (\<lambda>r2.
                case r2 of
                  Inl err \<Rightarrow> Inr (Inl err)
                | Inr es \<Rightarrow>
                    go_bind (unstable_entries (rl_unstable rl) (util_max (slasti + 1) from) to maxSize)
                      (\<lambda>us. Inr (Inr (limitSize sz (es @ us) maxSize))))))))"

definition raftLog_entries ::
  "(Entry \<Rightarrow> u64) \<Rightarrow> raftLog \<Rightarrow> u64 \<Rightarrow> u64 \<Rightarrow> (goerr + Entry list) go" where
  "raftLog_entries sz rl from maxSize =
     go_bind (raftLog_lastIndex rl) (\<lambda>last.
       if from > last then Inr (Inr []) else raftLog_slice sz rl from (last + 1) maxSize)"

definition raftLog_snapshot :: "raftLog \<Rightarrow> Snapshot go" where
  "raftLog_snapshot rl =
     (case u_snapshot (rl_unstable rl) of
        Some s \<Rightarrow> Inr s
      | None \<Rightarrow> must (Inr (InMemStorage_Snapshot (rl_storage rl))))"

definition raftLog_ignoreTermError :: "goerr + u64 \<Rightarrow> u64" where
  "raftLog_ignoreTermError r = (case r of Inl err \<Rightarrow> 0 | Inr t \<Rightarrow> t)"

end
