(* ===== verification/RaftProgress.thy ===== *)
theory RaftProgress
  imports RaftPb
begin

text \<open>
  \<open>Progress\<close> of \<open>src/rafts/raft.go\<close>: the leader's view of one peer, how far it is known to match
  (\<open>match\<close>), which entry to send next, and whether sending is paused.
\<close>

datatype ProgressState = StateProbe | StateReplica | StateSnapshot

record Progress =
  pr_match :: u64
  pr_next :: u64
  pr_pendingSnapshot :: u64
  pr_alive :: bool
  pr_paused :: bool
  pr_state :: ProgressState

definition zero_Progress :: Progress where
  "zero_Progress = \<lparr>pr_match = 0, pr_next = 0, pr_pendingSnapshot = 0, pr_alive = False,
     pr_paused = False, pr_state = StateProbe\<rparr>"

definition Progress_pause :: "Progress \<Rightarrow> Progress" where
  "Progress_pause p = p\<lparr>pr_paused := True\<rparr>"

definition Progress_resume :: "Progress \<Rightarrow> Progress" where
  "Progress_resume p = p\<lparr>pr_paused := False\<rparr>"

definition Progress_isPaused :: "Progress \<Rightarrow> bool" where
  "Progress_isPaused p = pr_paused p"

definition Progress_maybeUpdate :: "Progress \<Rightarrow> u64 \<Rightarrow> bool \<times> Progress" where
  "Progress_maybeUpdate p to =
     (let (ret, p1) = (if to > pr_match p then (True, Progress_resume (p\<lparr>pr_match := to\<rparr>)) else (False, p));
          p2 = (if pr_next p1 < to + 1 then p1\<lparr>pr_next := to + 1\<rparr> else p1)
      in (ret, p2))"

definition Progress_decreaseTo :: "Progress \<Rightarrow> u64 \<Rightarrow> Progress" where
  "Progress_decreaseTo p to =
     (if to < pr_match p then p
      else
        let p1 = p\<lparr>pr_next := to\<rparr>;
            p2 = (if pr_next p1 < 1 then p1\<lparr>pr_next := 1\<rparr> else p1)
        in Progress_resume p2)"

definition Progress_maybeSnapshotEnd :: "Progress \<Rightarrow> bool" where
  "Progress_maybeSnapshotEnd p \<longleftrightarrow> pr_state p = StateSnapshot \<and> pr_match p > pr_pendingSnapshot p"

definition Progress_becomeProbe :: "Progress \<Rightarrow> Progress" where
  "Progress_becomeProbe p = p\<lparr>pr_state := StateProbe\<rparr>"

definition Progress_becomeReplica :: "Progress \<Rightarrow> Progress" where
  "Progress_becomeReplica p = p\<lparr>pr_state := StateReplica\<rparr>"

definition Progress_becomeSnapshot :: "Progress \<Rightarrow> u64 \<Rightarrow> Progress" where
  "Progress_becomeSnapshot p si = p\<lparr>pr_state := StateSnapshot, pr_pendingSnapshot := si, pr_paused := True\<rparr>"

section \<open>The invariant of a peer's progress\<close>

text \<open>The next entry to send is at least 1 and not below what is known to match. (It may equal
  \<open>match\<close>: a rejection at the matched index moves \<open>next\<close> back onto it.)\<close>

definition progress_ok :: "Progress \<Rightarrow> bool" where
  "progress_ok p \<longleftrightarrow> 1 \<le> pr_next p \<and> pr_match p \<le> pr_next p"

lemma Progress_maybeUpdate_ret: "fst (Progress_maybeUpdate p to) \<longleftrightarrow> to > pr_match p"
  by (simp add: Progress_maybeUpdate_def Let_def)

lemma Progress_maybeUpdate_match:
  "pr_match (snd (Progress_maybeUpdate p to)) = max (pr_match p) to"
  by (auto simp: Progress_maybeUpdate_def Progress_resume_def Let_def max_def)

lemma Progress_maybeUpdate_ok:
  assumes "progress_ok p" "unat to + 1 < 2 ^ 64"
  shows "progress_ok (snd (Progress_maybeUpdate p to))"
    "to < pr_next (snd (Progress_maybeUpdate p to))"
proof -
  have "unat (to + 1) = unat to + 1" using unat_Suc_u64 assms(2) by simp
  then show "progress_ok (snd (Progress_maybeUpdate p to))"
    "to < pr_next (snd (Progress_maybeUpdate p to))"
    using assms(1)
    by (auto simp: Progress_maybeUpdate_def Progress_resume_def progress_ok_def Let_def u64_nat)
qed

lemma Progress_decreaseTo_ok: "progress_ok p \<Longrightarrow> progress_ok (Progress_decreaseTo p to)"
  by (auto simp: Progress_decreaseTo_def Progress_resume_def progress_ok_def Let_def u64_nat)

lemma Progress_decreaseTo_match [simp]: "pr_match (Progress_decreaseTo p to) = pr_match p"
  by (simp add: Progress_decreaseTo_def Progress_resume_def Let_def)

lemma progress_state_sel [simp]:
  "pr_match (Progress_becomeProbe p) = pr_match p" "pr_next (Progress_becomeProbe p) = pr_next p"
  "pr_match (Progress_becomeReplica p) = pr_match p" "pr_next (Progress_becomeReplica p) = pr_next p"
  "pr_match (Progress_becomeSnapshot p s) = pr_match p" "pr_next (Progress_becomeSnapshot p s) = pr_next p"
  "pr_match (Progress_pause p) = pr_match p" "pr_next (Progress_pause p) = pr_next p"
  by (simp_all add: Progress_becomeProbe_def Progress_becomeReplica_def Progress_becomeSnapshot_def
      Progress_pause_def)

end
