(* ===== verification/Raft.thy ===== *)
theory Raft
  imports RaftLog RaftProgress
begin

text \<open>
  \<open>src/rafts/raft.go\<close>: one raft instance. The record \<open>raft\<close> holds the fields of \<open>Raft\<close>
  (with the embedded \<open>RaftMeta\<close>); the function-valued fields \<open>tick\<close> and \<open>advance\<close> are the names of
  the methods they can hold, and a nil function panics when called. A channel that is only
  sent on is the list of what was sent: \<open>outc\<close> grows by one message per \<open>sendTo\<close>. Channels that
  are only tested for nil are booleans. \<open>peers\<close> and \<open>votes\<close> are Go maps. Every operation that can
  panic is in the panic monad.

  \<open>sz\<close> is the generated \<open>Entry.Size()\<close>, \<open>marshal\<close> the generated \<open>ConfChange.Marshal()\<close> (\<open>None\<close>
  is an error), and the argument \<open>rnd\<close> of a tick is what \<open>r.rand.Int()\<close> returned.
\<close>

section \<open>Data\<close>

datatype StateType = StateFollower | StateCandidate | StateLeader

datatype TickFunc = TickNil | TickElection | TickHeartbeat

datatype AdvanceFunc = AdvanceNil | AdvanceFollower | AdvanceCandidate | AdvanceLeader

datatype raft_error =
  ErrNotLeader | ErrNoneId | ErrNoInputChannel | ErrNoOutputChannel | ErrAlreadyStarted
  | ErrNilStorage | ErrMarshal

record ProposeUnit =
  pu_Type :: EntryType
  pu_Data :: "byte list"

record Committed =
  cmt_From :: u64
  cmt_Ents :: "Entry list"

record RaftConfig =
  cfg_Id :: u64
  cfg_Storage :: "InMemStorage option"
  cfg_Tickc :: bool
  cfg_Inc :: bool
  cfg_Outc :: bool
  cfg_HeartbeatTick :: int
  cfg_ElectionTick :: int
  cfg_MaxSizePerMsg :: u64

record raft =
  r_Term :: u64
  r_Vote :: u64
  r_Commit :: u64
  r_id :: u64
  r_state :: StateType
  r_maxSizePerMsg :: u64
  r_heartbeatElapsed :: int
  r_heartbeatTimeout :: int
  r_electionElapsed :: int
  r_electionTimeout :: int
  r_leader :: u64
  r_peers :: "(u64 \<times> Progress) list"
  r_votes :: "(u64 \<times> bool) list"
  r_tick :: TickFunc
  r_advance :: AdvanceFunc
  r_logs :: raftLog
  r_pendingConf :: bool
  r_outc :: "Message list"
  r_propc :: bool
  r_stoppedc :: bool

definition DefaultHeartbeatTick :: int where
  "DefaultHeartbeatTick = 1"

definition DefaultElectionTick :: int where
  "DefaultElectionTick = 10"

definition NoneId :: u64 where
  "NoneId = 0"

definition noLeadTypeSet :: "MessageType list" where
  "noLeadTypeSet = [MsgAppResp, MsgHeartbeatResp, MsgVote, MsgVoteResp]"

section \<open>Configuration and creation\<close>

definition Committed_IsEmpty :: "Committed \<Rightarrow> bool" where
  "Committed_IsEmpty cmt \<longleftrightarrow> length (cmt_Ents cmt) = 0"

definition RaftConfig_checkAndInitDefault :: "RaftConfig \<Rightarrow> raft_error option \<times> RaftConfig" where
  "RaftConfig_checkAndInitDefault c =
     (if cfg_Id c = 0 then (Some ErrNoneId, c)
      else if cfg_Storage c = None then (Some ErrNilStorage, c)
      else
        let c1 = (if \<not> cfg_Tickc c then c\<lparr>cfg_Tickc := True\<rparr> else c) in
        if \<not> cfg_Inc c1 then (Some ErrNoInputChannel, c1)
        else if \<not> cfg_Outc c1 then (Some ErrNoOutputChannel, c1)
        else
          let c2 = (if cfg_HeartbeatTick c1 = 0 then c1\<lparr>cfg_HeartbeatTick := DefaultHeartbeatTick\<rparr> else c1);
              c3 = (if cfg_ElectionTick c2 = 0 then c2\<lparr>cfg_ElectionTick := DefaultElectionTick\<rparr> else c2)
          in (None, c3))"

definition NewRaft :: "RaftConfig \<Rightarrow> (raft_error + raft) go" where
  "NewRaft config =
     (case RaftConfig_checkAndInitDefault config of
        (Some err, c) \<Rightarrow> Inr (Inl err)
      | (None, c) \<Rightarrow>
          (case cfg_Storage c of
             None \<Rightarrow> Inl NilDereference
           | Some st \<Rightarrow>
               go_bind (newRaftLog st) (\<lambda>logs. Inr (Inr
                 \<lparr>r_Term = 0, r_Vote = 0, r_Commit = rl_committed logs, r_id = cfg_Id c,
                  r_state = StateFollower, r_maxSizePerMsg = cfg_MaxSizePerMsg c,
                  r_heartbeatElapsed = 0, r_heartbeatTimeout = cfg_HeartbeatTick c,
                  r_electionElapsed = 0, r_electionTimeout = cfg_ElectionTick c,
                  r_leader = NoneId, r_peers = [], r_votes = [], r_tick = TickNil,
                  r_advance = AdvanceNil, r_logs = logs, r_pendingConf = False, r_outc = [],
                  r_propc = True, r_stoppedc = False\<rparr>))))"

definition raft_hasLeader :: "raft \<Rightarrow> bool" where
  "raft_hasLeader r \<longleftrightarrow> r_leader r \<noteq> NoneId"

definition raft_isElectionTimeout :: "raft \<Rightarrow> nat \<Rightarrow> bool go" where
  "raft_isElectionTimeout r rnd =
     (let d = wrap_int64 (r_electionElapsed r - r_electionTimeout r) in
      if d > 0 then
        if r_electionTimeout r = 0 then Inl DivideByZero
        else Inr (d > int rnd mod \<bar>r_electionTimeout r\<bar>)
      else Inr False)"

definition raft_IsLeader :: "raft \<Rightarrow> bool" where
  "raft_IsLeader r \<longleftrightarrow> r_propc r \<and> r_leader r = r_id r"

text \<open>\<open>Propose\<close> and \<open>ProposeConfChange\<close>: the unit handed to the main loop, whose reply on \<open>Ret\<close> is
  then the result, or the error.\<close>

definition raft_Propose :: "raft \<Rightarrow> byte list \<Rightarrow> raft_error + ProposeUnit" where
  "raft_Propose r data =
     (if r_stoppedc r then Inr \<lparr>pu_Type = EntryNormal, pu_Data = data\<rparr> else Inl ErrNotLeader)"

definition raft_ProposeConfChange ::
  "(ConfChange \<Rightarrow> byte list option) \<Rightarrow> raft \<Rightarrow> ConfChange \<Rightarrow> raft_error + ProposeUnit" where
  "raft_ProposeConfChange marshal r cc =
     (if r_stoppedc r then
        case marshal cc of
          None \<Rightarrow> Inl ErrMarshal
        | Some data \<Rightarrow> Inr \<lparr>pu_Type = EntryConfChange, pu_Data = data\<rparr>
      else Inl ErrNotLeader)"

definition raft_prelude :: "raft \<Rightarrow> raft_error + raft" where
  "raft_prelude r = (if r_stoppedc r then Inl ErrAlreadyStarted else Inr (r\<lparr>r_stoppedc := True\<rparr>))"

text \<open>\<open>Stop\<close>, called from outside the main loop, once the loop has acknowledged it.\<close>

definition raft_Stop :: "raft \<Rightarrow> raft" where
  "raft_Stop r = r\<lparr>r_stoppedc := False\<rparr>"

definition raft_IsStopped :: "raft \<Rightarrow> bool" where
  "raft_IsStopped r \<longleftrightarrow> \<not> r_stoppedc r"

section \<open>Membership and roles\<close>

definition raft_loadMeta :: "raft \<Rightarrow> RaftMeta \<Rightarrow> raft" where
  "raft_loadMeta r meta =
     r\<lparr>r_logs := (r_logs r)\<lparr>rl_committed := meta_Commit meta\<rparr>,
       r_Term := util_max (meta_Term meta) 1,
       r_Vote := meta_Vote meta,
       r_Commit := meta_Commit meta\<rparr>"

definition raft_addNode :: "raft \<Rightarrow> u64 \<Rightarrow> raft go" where
  "raft_addNode r nid =
     (case map_of (r_peers r) nid of
        None \<Rightarrow>
          go_bind (raftLog_lastIndex (r_logs r)) (\<lambda>last.
            Inr (r\<lparr>r_peers := AList.update nid
                     (zero_Progress\<lparr>pr_match := 0, pr_next := last + 1, pr_state := StateProbe, pr_alive := True\<rparr>)
                     (r_peers r),
                   r_pendingConf := False\<rparr>))
      | Some p \<Rightarrow> Inr (r\<lparr>r_pendingConf := False\<rparr>))"

definition raft_removeNode :: "raft \<Rightarrow> u64 \<Rightarrow> raft" where
  "raft_removeNode r nid = r\<lparr>r_peers := AList.delete nid (r_peers r), r_pendingConf := False\<rparr>"

definition raft_reset :: "raft \<Rightarrow> u64 \<Rightarrow> raft go" where
  "raft_reset r tm =
     (let r1 = (if tm > r_Term r then r\<lparr>r_Term := tm, r_Vote := NoneId\<rparr> else r);
          r2 = r1\<lparr>r_leader := NoneId, r_electionElapsed := 0, r_heartbeatTimeout := 0,
                  r_pendingConf := False, r_votes := []\<rparr> in
      if r_peers r2 = [] then Inr r2
      else
        go_bind (raftLog_lastIndex (r_logs r2)) (\<lambda>last.
          Inr (r2\<lparr>r_peers := map (\<lambda>(nid, p). (nid, zero_Progress\<lparr>
                     pr_match := (if nid = r_id r2 then last else 0),
                     pr_next := last + 1, pr_alive := True\<rparr>)) (r_peers r2)\<rparr>)))"

definition raft_becomeFollower :: "raft \<Rightarrow> u64 \<Rightarrow> u64 \<Rightarrow> raft go" where
  "raft_becomeFollower r tm leader =
     go_bind (raft_reset (r\<lparr>r_state := StateFollower\<rparr>) tm) (\<lambda>r1.
       Inr (r1\<lparr>r_leader := leader, r_tick := TickElection, r_advance := AdvanceFollower\<rparr>))"

definition raft_becomeCandidate :: "raft \<Rightarrow> raft go" where
  "raft_becomeCandidate r =
     go_bind (raft_reset (r\<lparr>r_state := StateCandidate\<rparr>) (r_Term r + 1)) (\<lambda>r1.
       Inr (r1\<lparr>r_tick := TickElection, r_advance := AdvanceCandidate, r_Vote := r_id r1,
               r_votes := AList.update (r_id r1) True (r_votes r1)\<rparr>))"

definition raft_becomeLeader :: "raft \<Rightarrow> raft go" where
  "raft_becomeLeader r =
     go_bind (raft_reset (r\<lparr>r_state := StateLeader\<rparr>) (r_Term r + 1)) (\<lambda>r1.
       Inr (r1\<lparr>r_leader := r_id r1, r_tick := TickHeartbeat, r_advance := AdvanceLeader\<rparr>))"

section \<open>Sending\<close>

definition raft_sendTo :: "raft \<Rightarrow> u64 \<Rightarrow> Message \<Rightarrow> raft" where
  "raft_sendTo r nid msg =
     (case map_of (r_peers r) nid of
        None \<Rightarrow> r
      | Some p \<Rightarrow>
          r\<lparr>r_outc := r_outc r @ [msg\<lparr>msg_From := r_id r, msg_To := nid, msg_Term := r_Term r,
              msg_Commit := util_min (pr_match p) (r_Commit r)\<rparr>]\<rparr>)"

fun raft_broadcast_loop :: "raft \<Rightarrow> Message \<Rightarrow> u64 list \<Rightarrow> raft" where
  "raft_broadcast_loop r msg [] = r"
| "raft_broadcast_loop r msg (nid # ids) =
     raft_broadcast_loop (if nid = r_id r then r else raft_sendTo r nid msg) msg ids"

definition raft_broadcast :: "raft \<Rightarrow> Message \<Rightarrow> raft" where
  "raft_broadcast r msg = raft_broadcast_loop r msg (keys (r_peers r))"

definition raft_q :: "raft \<Rightarrow> nat" where
  "raft_q r = length (r_peers r) div 2 + 1"

definition raft_poll :: "raft \<Rightarrow> u64 \<Rightarrow> bool \<Rightarrow> nat \<times> raft" where
  "raft_poll r nid vote =
     (let r1 = (case map_of (r_votes r) nid of
                  None \<Rightarrow> r\<lparr>r_votes := AList.update nid vote (r_votes r)\<rparr>
                | Some v \<Rightarrow> r)
      in (length (filter snd (r_votes r1)), r1))"

definition raft_sendAppend :: "(Entry \<Rightarrow> u64) \<Rightarrow> raft \<Rightarrow> u64 \<Rightarrow> raft go" where
  "raft_sendAppend sz r to =
     (case map_of (r_peers r) to of
        None \<Rightarrow> Inr r
      | Some p \<Rightarrow>
          if Progress_isPaused p \<or> \<not> pr_alive p then Inr r
          else
            go_bind (raftLog_term (r_logs r) (pr_next p - 1)) (\<lambda>t.
            go_bind (raftLog_entries sz (r_logs r) (pr_next p) (r_maxSizePerMsg r)) (\<lambda>es.
              case (t, es) of
                (Inr tm, Inr ents) \<Rightarrow>
                  let (ents', p') = (if pr_state p = StateProbe \<and> length ents \<noteq> 0
                                     then ([hd ents], Progress_pause p) else (ents, p)) in
                  Inr (raft_sendTo (r\<lparr>r_peers := AList.update to p' (r_peers r)\<rparr>) to
                    (zero_Message\<lparr>msg_Type := MsgApp, msg_PrevIndex := pr_next p - 1, msg_PrevTerm := tm,
                       msg_Entries := ents'\<rparr>))
              | _ \<Rightarrow>
                  go_bind (raftLog_snapshot (r_logs r)) (\<lambda>snap.
                    Inr (raft_sendTo
                      (r\<lparr>r_peers := AList.update to (Progress_becomeSnapshot p (snap_Index snap)) (r_peers r)\<rparr>) to
                      (zero_Message\<lparr>msg_Type := MsgSnap, msg_Snap := Some snap\<rparr>))))))"

fun raft_bcastAppend_loop :: "(Entry \<Rightarrow> u64) \<Rightarrow> raft \<Rightarrow> u64 list \<Rightarrow> raft go" where
  "raft_bcastAppend_loop sz r [] = Inr r"
| "raft_bcastAppend_loop sz r (nid # ids) =
     (if nid = r_id r then raft_bcastAppend_loop sz r ids
      else go_bind (raft_sendAppend sz r nid) (\<lambda>r1. raft_bcastAppend_loop sz r1 ids))"

definition raft_bcastAppend :: "(Entry \<Rightarrow> u64) \<Rightarrow> raft \<Rightarrow> raft go" where
  "raft_bcastAppend sz r = raft_bcastAppend_loop sz r (keys (r_peers r))"

section \<open>Ticks\<close>

definition raft_campaign :: "raft \<Rightarrow> raft go" where
  "raft_campaign r =
     go_bind (raft_becomeCandidate r) (\<lambda>r1.
       let q = raft_q r1; (cnt, r2) = raft_poll r1 (r_id r1) True in
       go_bind (if q \<le> cnt then raft_becomeLeader r2 else Inr r2) (\<lambda>r3.
       go_bind (raftLog_lastTerm (r_logs r3)) (\<lambda>lt.
       go_bind (raftLog_lastIndex (r_logs r3)) (\<lambda>li.
         Inr (raft_broadcast r3
           (zero_Message\<lparr>msg_Type := MsgVote, msg_PrevTerm := lt, msg_PrevIndex := li\<rparr>))))))"

definition raft_tickElection :: "raft \<Rightarrow> nat \<Rightarrow> raft go" where
  "raft_tickElection r rnd =
     (let r1 = r\<lparr>r_electionElapsed := wrap_int64 (r_electionElapsed r + 1)\<rparr> in
      go_bind (raft_isElectionTimeout r1 rnd) (\<lambda>b. if b then raft_campaign r1 else Inr r1))"

definition raft_tickHeartbeat :: "raft \<Rightarrow> raft" where
  "raft_tickHeartbeat r =
     (let r1 = r\<lparr>r_heartbeatElapsed := wrap_int64 (r_heartbeatElapsed r + 1)\<rparr> in
      if r_heartbeatElapsed r1 \<ge> r_heartbeatTimeout r1 then
        raft_broadcast
          (r1\<lparr>r_heartbeatElapsed := 0,
              r_peers := map (\<lambda>(nid, p). (nid, p\<lparr>pr_alive := False\<rparr>)) (r_peers r1)\<rparr>)
          (zero_Message\<lparr>msg_Type := MsgHeartbeat\<rparr>)
      else r1)"

definition raft_tick :: "raft \<Rightarrow> nat \<Rightarrow> raft go" where
  "raft_tick r rnd =
     (case r_tick r of
        TickNil \<Rightarrow> Inl NilDereference
      | TickElection \<Rightarrow> raft_tickElection r rnd
      | TickHeartbeat \<Rightarrow> Inr (raft_tickHeartbeat r))"

section \<open>Message handlers\<close>

definition raft_handleHeartbeat :: "raft \<Rightarrow> Message \<Rightarrow> raft go" where
  "raft_handleHeartbeat r m =
     go_bind (raftLog_maybeCommit (r_logs r) (msg_Commit m)) (\<lambda>(_, logs).
       Inr (raft_sendTo (r\<lparr>r_logs := logs\<rparr>) (msg_From m) (zero_Message\<lparr>msg_Type := MsgHeartbeatResp\<rparr>)))"

definition raft_handleAppend :: "raft \<Rightarrow> Message \<Rightarrow> raft go" where
  "raft_handleAppend r m =
     go_bind (raftLog_maybeAppend (r_logs r) (msg_PrevIndex m) (msg_PrevTerm m) (msg_Commit m) (msg_Entries m))
       (\<lambda>(idx, ok, logs).
         Inr (raft_sendTo (r\<lparr>r_logs := logs\<rparr>) (msg_From m)
           (zero_Message\<lparr>msg_Type := MsgAppResp, msg_Reject := \<not> ok, msg_PrevIndex := idx\<rparr>)))"

fun raft_restore_peers :: "u64 \<Rightarrow> u64 \<Rightarrow> (u64 \<times> Progress) list \<Rightarrow> u64 list \<Rightarrow> (u64 \<times> Progress) list" where
  "raft_restore_peers self lasti peers [] = peers"
| "raft_restore_peers self lasti peers (n # ns) =
     raft_restore_peers self lasti
       (AList.update n (zero_Progress\<lparr>pr_match := (if n = self then lasti else 0), pr_next := lasti + 1,
          pr_state := StateProbe, pr_alive := True\<rparr>) peers) ns"

definition raft_maybeRestore :: "raft \<Rightarrow> Snapshot \<Rightarrow> (bool \<times> raft) go" where
  "raft_maybeRestore r s =
     (if snap_Index s \<le> rl_committed (r_logs r) then Inr (False, r)
      else
        go_bind (raftLog_matchTerm (r_logs r) (snap_Index s) (snap_Term s)) (\<lambda>b.
          if b then
            go_bind (raftLog_maybeCommit (r_logs r) (snap_Index s)) (\<lambda>(_, logs). Inr (False, r\<lparr>r_logs := logs\<rparr>))
          else
            let logs = raftLog_restore (r_logs r) s in
            case snap_Conf s of
              None \<Rightarrow> Inl NilDereference
            | Some conf \<Rightarrow>
                if conf_Nodes conf = [] then Inr (True, r\<lparr>r_logs := logs, r_peers := []\<rparr>)
                else
                  go_bind (raftLog_lastIndex logs) (\<lambda>last.
                    Inr (True, r\<lparr>r_logs := logs,
                      r_peers := raft_restore_peers (r_id r) last [] (conf_Nodes conf)\<rparr>))))"

definition raft_handleSnapshot :: "raft \<Rightarrow> Message \<Rightarrow> raft go" where
  "raft_handleSnapshot r m =
     (case msg_Snap m of
        None \<Rightarrow> Inl NilDereference
      | Some s \<Rightarrow>
          go_bind (raft_maybeRestore r s) (\<lambda>(_, r1).
          go_bind (raftLog_lastIndex (r_logs r1)) (\<lambda>li.
          go_bind (raftLog_lastTerm (r_logs r1)) (\<lambda>lt.
            Inr (raft_sendTo r1 (msg_From m)
              (zero_Message\<lparr>msg_Type := MsgAppResp, msg_Reject := False, msg_PrevIndex := li,
                 msg_PrevTerm := lt\<rparr>))))))"

definition raft_maybeCommit :: "raft \<Rightarrow> (bool \<times> raft) go" where
  "raft_maybeCommit r =
     (let matches = rev (sort (map (\<lambda>(nid, p). pr_match p) (r_peers r))) in
      go_bind (slice_get matches (raft_q r - 1)) (\<lambda>to.
      go_bind (raftLog_maybeCommit (r_logs r) to) (\<lambda>(b, logs).
        Inr (b, r\<lparr>r_logs := logs\<rparr>))))"

definition raft_advanceLeader :: "(Entry \<Rightarrow> u64) \<Rightarrow> raft \<Rightarrow> Message \<Rightarrow> raft go" where
  "raft_advanceLeader sz r m =
     (case msg_Type m of
        MsgAppResp \<Rightarrow>
          (case map_of (r_peers r) (msg_From m) of
             None \<Rightarrow> Inl NilDereference
           | Some p \<Rightarrow>
               if msg_Reject m then
                 let p1 = Progress_decreaseTo p (msg_PrevIndex m);
                     p2 = (if pr_state p1 = StateReplica then Progress_becomeProbe p1 else p1) in
                 raft_sendAppend sz (r\<lparr>r_peers := AList.update (msg_From m) p2 (r_peers r)\<rparr>) (msg_From m)
               else
                 let (upd, p1) = Progress_maybeUpdate p (msg_PrevIndex m) in
                 if upd then
                   let p2 = (if pr_state p1 = StateProbe then Progress_becomeReplica p1
                             else if pr_state p1 = StateSnapshot \<and> Progress_maybeSnapshotEnd p1
                             then Progress_becomeProbe p1 else p1) in
                   go_bind (raft_maybeCommit (r\<lparr>r_peers := AList.update (msg_From m) p2 (r_peers r)\<rparr>)) (\<lambda>(_, r1).
                     raft_sendAppend sz r1 (msg_From m))
                 else Inr (r\<lparr>r_peers := AList.update (msg_From m) p1 (r_peers r)\<rparr>))
      | MsgHeartbeatResp \<Rightarrow>
          (case map_of (r_peers r) (msg_From m) of
             None \<Rightarrow> Inl NilDereference
           | Some p \<Rightarrow> Inr (r\<lparr>r_peers := AList.update (msg_From m) (p\<lparr>pr_alive := True\<rparr>) (r_peers r)\<rparr>))
      | MsgProp \<Rightarrow>
          (case map_of (r_peers r) (r_id r) of
             None \<Rightarrow> Inr r
           | Some p \<Rightarrow>
               go_bind (raftLog_append (r_logs r) (msg_Entries m)) (\<lambda>logs.
                 raft_bcastAppend sz (r\<lparr>r_logs := logs\<rparr>)))
      | MsgVote \<Rightarrow> Inr (raft_sendTo r (msg_From m) (zero_Message\<lparr>msg_Type := MsgVoteResp, msg_Reject := True\<rparr>))
      | _ \<Rightarrow> Inr r)"

definition raft_advanceFollower :: "raft \<Rightarrow> Message \<Rightarrow> raft go" where
  "raft_advanceFollower r m =
     (case msg_Type m of
        MsgApp \<Rightarrow> raft_handleAppend (r\<lparr>r_electionElapsed := 0\<rparr>) m
      | MsgHeartbeat \<Rightarrow> raft_handleHeartbeat (r\<lparr>r_electionElapsed := 0, r_leader := msg_From m\<rparr>) m
      | MsgSnap \<Rightarrow> raft_handleSnapshot (r\<lparr>r_electionElapsed := 0\<rparr>) m
      | MsgVote \<Rightarrow>
          go_bind (if r_Vote r = NoneId \<or> r_Vote r = msg_From m
                   then raftLog_isUpToDate (r_logs r) (msg_PrevIndex m) (msg_PrevTerm m) else Inr False) (\<lambda>grant.
            if grant then
              Inr (raft_sendTo (r\<lparr>r_electionElapsed := 0, r_Vote := msg_From m\<rparr>) (msg_From m)
                (zero_Message\<lparr>msg_Type := MsgVoteResp, msg_Reject := False\<rparr>))
            else
              Inr (raft_sendTo r (msg_From m) (zero_Message\<lparr>msg_Type := MsgVoteResp, msg_Reject := True\<rparr>)))
      | _ \<Rightarrow> Inr r)"

definition raft_advanceCandidate :: "(Entry \<Rightarrow> u64) \<Rightarrow> raft \<Rightarrow> Message \<Rightarrow> raft go" where
  "raft_advanceCandidate sz r m =
     (case msg_Type m of
        MsgApp \<Rightarrow> go_bind (raft_becomeFollower r (msg_Term m) (msg_From m)) (\<lambda>r1. raft_handleAppend r1 m)
      | MsgSnap \<Rightarrow> go_bind (raft_becomeFollower r (msg_Term m) (msg_From m)) (\<lambda>r1. raft_handleSnapshot r1 m)
      | MsgHeartbeat \<Rightarrow> go_bind (raft_becomeFollower r (msg_Term m) (msg_From m)) (\<lambda>r1. raft_handleHeartbeat r1 m)
      | MsgVote \<Rightarrow>
          let (_, r1) = raft_poll r (msg_From m) False in
          Inr (raft_sendTo r1 (msg_From m) (zero_Message\<lparr>msg_Type := MsgVoteResp, msg_Reject := True\<rparr>))
      | MsgVoteResp \<Rightarrow>
          let (gr, r1) = raft_poll r (msg_From m) (\<not> msg_Reject m) in
          if raft_q r1 = gr then go_bind (raft_becomeLeader r1) (\<lambda>r2. raft_bcastAppend sz r2)
          else if raft_q r1 = length (r_votes r1) - gr then raft_becomeFollower r1 (r_Term r1) NoneId
          else Inr r1
      | _ \<Rightarrow> Inr r)"

definition raft_advance :: "(Entry \<Rightarrow> u64) \<Rightarrow> raft \<Rightarrow> Message \<Rightarrow> raft go" where
  "raft_advance sz r m =
     (case r_advance r of
        AdvanceNil \<Rightarrow> Inl NilDereference
      | AdvanceFollower \<Rightarrow> raft_advanceFollower r m
      | AdvanceCandidate \<Rightarrow> raft_advanceCandidate sz r m
      | AdvanceLeader \<Rightarrow> raft_advanceLeader sz r m)"

section \<open>Starting\<close>

fun raft_Start_loop ::
  "(ConfChange \<Rightarrow> byte list option) \<Rightarrow> raft \<Rightarrow> raft_error option \<Rightarrow> u64 list \<Rightarrow> (raft_error option \<times> raft) go" where
  "raft_Start_loop marshal r err [] = Inr (err, r)"
| "raft_Start_loop marshal r err (p # ps) =
     (case marshal \<lparr>cc_Type = ConfChangeAddNode, cc_Node = p\<rparr> of
        None \<Rightarrow> raft_Start_loop marshal r (Some ErrMarshal) ps
      | Some d \<Rightarrow>
          go_bind (raftLog_lastIndex (r_logs r)) (\<lambda>last.
          go_bind (raftLog_append (r_logs r)
              [\<lparr>ent_Type = EntryConfChange, ent_Index = last + 1, ent_Term = 1, ent_Data = d\<rparr>]) (\<lambda>logs.
          go_bind (raft_addNode (r\<lparr>r_logs := logs\<rparr>) p) (\<lambda>r1.
            raft_Start_loop marshal r1 err ps))))"

definition raft_Start ::
  "(ConfChange \<Rightarrow> byte list option) \<Rightarrow> raft \<Rightarrow> u64 list \<Rightarrow> (raft_error option \<times> raft) go" where
  "raft_Start marshal r peers =
     (case raft_prelude r of
        Inl err \<Rightarrow> Inr (Some err, r)
      | Inr r1 \<Rightarrow>
          go_bind (raft_Start_loop marshal r1 None peers) (\<lambda>(err, r2).
          go_bind (raft_becomeFollower r2 1 NoneId) (\<lambda>r3. Inr (err, r3))))"

fun raft_addNodes :: "raft \<Rightarrow> u64 list \<Rightarrow> raft go" where
  "raft_addNodes r [] = Inr r"
| "raft_addNodes r (p # ps) = go_bind (raft_addNode r p) (\<lambda>r1. raft_addNodes r1 ps)"

definition raft_Restart :: "raft \<Rightarrow> (raft_error option \<times> raft) go" where
  "raft_Restart r =
     (case raft_prelude r of
        Inl err \<Rightarrow> Inr (Some err, r)
      | Inr r1 \<Rightarrow>
          (case InMemStorage_InitialState (rl_storage (r_logs r1)) of
             Inl err \<Rightarrow> Inl PanicCall
           | Inr (meta, cfg) \<Rightarrow>
               let r2 = raft_loadMeta r1 meta in
               go_bind (case cfg of None \<Rightarrow> Inr r2 | Some c \<Rightarrow> raft_addNodes r2 (conf_Nodes c)) (\<lambda>r3.
               go_bind (raft_becomeFollower r3 (r_Term r3) NoneId) (\<lambda>r4. Inr (None, r4)))))"

section \<open>The main loop\<close>

text \<open>One iteration of \<open>mainLoop\<close> is one event of its \<open>select\<close>. The loop's state is the instance,
  its variable \<open>cmt\<close>, what it sent on \<open>committedc\<close> and what it replied on the \<open>Ret\<close> channels.
  An iteration keeps running, stops, or blocks for ever: \<open>Stop\<close> called from the loop itself
  sends on \<open>stopc\<close>, an unbuffered channel whose only receiver is this loop.\<close>

record loop =
  lp_raft :: raft
  lp_cmt :: Committed
  lp_committedc :: "Committed list"
  lp_rets :: "bool list"

datatype event =
  EvStop | EvTick nat | EvCommitted | EvApply u64 | EvConf ConfChange | EvProp ProposeUnit | EvMsg Message

datatype outcome = Running loop | Stopped loop | Blocked loop

definition raft_onCommitted :: "(Entry \<Rightarrow> u64) \<Rightarrow> loop \<Rightarrow> loop go" where
  "raft_onCommitted sz lp =
     (let r = lp_raft lp in
      go_bind (raftLog_firstIndex (r_logs r)) (\<lambda>first.
        let from = util_max (rl_applied (r_logs r) + 1) first in
        go_bind (raftLog_slice sz (r_logs r) from (r_Commit r + 1) noLimit) (\<lambda>res.
          case res of
            Inl err \<Rightarrow> Inl PanicCall
          | Inr ents \<Rightarrow>
              Inr (lp\<lparr>lp_committedc := lp_committedc lp @ [lp_cmt lp],
                      lp_cmt := \<lparr>cmt_From = from, cmt_Ents = ents\<rparr>\<rparr>))))"

definition raft_onConf :: "loop \<Rightarrow> ConfChange \<Rightarrow> outcome go" where
  "raft_onConf lp cc =
     (let r = lp_raft lp in
      if cc_Node cc = 0 then Inr (Running (lp\<lparr>lp_raft := r\<lparr>r_pendingConf := False\<rparr>\<rparr>))
      else case cc_Type cc of
        ConfChangeAddNode \<Rightarrow> go_bind (raft_addNode r (cc_Node cc)) (\<lambda>r1. Inr (Running (lp\<lparr>lp_raft := r1\<rparr>)))
      | ConfChangeRemoveNode \<Rightarrow> Inr (Blocked (lp\<lparr>lp_raft := raft_removeNode r (cc_Node cc)\<rparr>)))"

definition raft_onProp :: "(Entry \<Rightarrow> u64) \<Rightarrow> loop \<Rightarrow> ProposeUnit \<Rightarrow> loop go" where
  "raft_onProp sz lp unit =
     (let r = lp_raft lp in
      if pu_Type unit = EntryConfChange \<and> r_pendingConf r then
        Inr (lp\<lparr>lp_rets := lp_rets lp @ [False]\<rparr>)
      else
        let r1 = (if pu_Type unit = EntryConfChange then r\<lparr>r_pendingConf := True\<rparr> else r) in
        go_bind (raftLog_lastIndex (r_logs r1)) (\<lambda>last.
        go_bind (raft_advance sz r1
            (zero_Message\<lparr>msg_Type := MsgProp, msg_From := r_id r1, msg_To := r_id r1, msg_Term := r_Term r1,
               msg_Entries := [\<lparr>ent_Type = pu_Type unit, ent_Index = last + 1, ent_Term = r_Term r1,
                  ent_Data = pu_Data unit\<rparr>]\<rparr>)) (\<lambda>r2.
          Inr (lp\<lparr>lp_raft := r2, lp_rets := lp_rets lp @ [True]\<rparr>))))"

definition raft_onMsg :: "(Entry \<Rightarrow> u64) \<Rightarrow> raft \<Rightarrow> Message \<Rightarrow> raft go" where
  "raft_onMsg sz r msg =
     (if r_Term r > msg_Term msg then Inr r
      else
        go_bind (if r_Term r < msg_Term msg
                 then raft_becomeFollower r (msg_Term msg)
                        (if oneOf (msg_Type msg) noLeadTypeSet then NoneId else msg_From msg)
                 else Inr r) (\<lambda>r1.
        go_bind (raft_advance sz r1 msg) (\<lambda>r2.
          Inr (if rl_committed (r_logs r2) > r_Commit r2 then r2\<lparr>r_Commit := rl_committed (r_logs r2)\<rparr> else r2))))"

definition mainLoop_step :: "(Entry \<Rightarrow> u64) \<Rightarrow> loop \<Rightarrow> event \<Rightarrow> outcome go" where
  "mainLoop_step sz lp ev =
     (case ev of
        EvStop \<Rightarrow> Inr (Stopped lp)
      | EvTick rnd \<Rightarrow> go_bind (raft_tick (lp_raft lp) rnd) (\<lambda>r. Inr (Running (lp\<lparr>lp_raft := r\<rparr>)))
      | EvCommitted \<Rightarrow> go_bind (raft_onCommitted sz lp) (\<lambda>lp'. Inr (Running lp'))
      | EvApply to \<Rightarrow>
          Inr (Running (lp\<lparr>lp_raft := (lp_raft lp)\<lparr>r_logs := snd (raftLog_appliedTo (r_logs (lp_raft lp)) to)\<rparr>\<rparr>))
      | EvConf cc \<Rightarrow> raft_onConf lp cc
      | EvProp unit \<Rightarrow> go_bind (raft_onProp sz lp unit) (\<lambda>lp'. Inr (Running lp'))
      | EvMsg msg \<Rightarrow> go_bind (raft_onMsg sz (lp_raft lp) msg) (\<lambda>r. Inr (Running (lp\<lparr>lp_raft := r\<rparr>))))"

definition mainLoop_init :: "raft \<Rightarrow> loop" where
  "mainLoop_init r = \<lparr>lp_raft = r, lp_cmt = \<lparr>cmt_From = 0, cmt_Ents = []\<rparr>, lp_committedc = [], lp_rets = []\<rparr>"

end
