(* ===== verification/ElectionSpec.thy ===== *)
theory ElectionSpec
  imports Raft
begin

text \<open>
  The abstract specification of leader election, with no logs and no messages: each node has
  a term, a vote, a role and the set of votes it has collected, and records what it has ever
  promised. A node of this program becomes leader in the term after the one it was elected
  in (\<open>becomeLeader\<close> resets to \<open>Term + 1\<close>), and so do the rules here. The theory proves that a
  term has at most one leader over the whole history; \<open>RaftElection\<close> and \<open>RaftCluster\<close> show
  that the code refines these rules.
\<close>

section \<open>Quorums\<close>

locale quorum_system =
  fixes quorum :: "'a set \<Rightarrow> bool"
  assumes quorums_meet: "quorum P \<Longrightarrow> quorum Q \<Longrightarrow> P \<inter> Q \<noteq> {}"
begin

text \<open>If every member of a quorum stands behind one value, and nobody stands behind two, then
  two quorums stand behind the same value.\<close>

lemma quorum_agree:
  assumes "quorum P" "quorum Q" "\<And>v. v \<in> P \<Longrightarrow> backs v x" "\<And>v. v \<in> Q \<Longrightarrow> backs v y"
    "\<And>v. backs v x \<Longrightarrow> backs v y \<Longrightarrow> x = y"
  shows "x = y"
  using quorums_meet [OF assms(1,2)] assms(3-5) by blast

end

definition majority :: "u64 set \<Rightarrow> u64 set \<Rightarrow> bool" where
  "majority N Q \<longleftrightarrow> finite N \<and> Q \<subseteq> N \<and> card N div 2 + 1 \<le> card Q"

lemma majorities_overlap:
  assumes "majority N P" "majority N Q"
  shows "P \<inter> Q \<noteq> {}"
proof
  assume "P \<inter> Q = {}"
  moreover have "finite P" "finite Q" "P \<union> Q \<subseteq> N" "finite N"
    using assms by (auto simp: majority_def intro: finite_subset)
  ultimately have "card P + card Q \<le> card N"
    by (metis card_Un_disjoint card_mono)
  then show False using assms by (auto simp: majority_def)
qed

interpretation maj: quorum_system "majority N" for N
  by unfold_locales (rule majorities_overlap)

section \<open>The protocol\<close>

datatype fact = Granted nat u64 | Asked nat | Led nat

record enode =
  e_term :: nat
  e_vote :: u64
  e_role :: StateType
  e_yes :: "u64 set"
  e_sent :: "fact set"

text \<open>One action of node \<open>n\<close>; \<open>G v t\<close> says that node \<open>v\<close> has granted \<open>n\<close> its vote for term \<open>t\<close>.\<close>

inductive enode_step :: "u64 set \<Rightarrow> (u64 \<Rightarrow> nat \<Rightarrow> bool) \<Rightarrow> u64 \<Rightarrow> enode \<Rightarrow> enode \<Rightarrow> bool"
  for N :: "u64 set" and G :: "u64 \<Rightarrow> nat \<Rightarrow> bool" and n :: u64 where
  bump: "e_term e < t \<Longrightarrow>
    enode_step N G n e (e\<lparr>e_term := t, e_vote := NoneId, e_role := StateFollower, e_yes := {}\<rparr>)"
| demote: "e_role e = StateCandidate \<Longrightarrow>
    enode_step N G n e (e\<lparr>e_role := StateFollower, e_yes := {}\<rparr>)"
| grant: "e_role e = StateFollower \<Longrightarrow> e_vote e = NoneId \<or> e_vote e = c \<Longrightarrow> c \<noteq> NoneId \<Longrightarrow>
    enode_step N G n e (e\<lparr>e_vote := c, e_sent := insert (Granted (e_term e) c) (e_sent e)\<rparr>)"
| campaign: "e_role e \<noteq> StateLeader \<Longrightarrow>
    enode_step N G n e (e\<lparr>e_term := e_term e + 1, e_vote := n, e_role := StateCandidate, e_yes := {n},
      e_sent := insert (Asked (e_term e + 1)) (e_sent e)\<rparr>)"
| collect: "e_role e = StateCandidate \<Longrightarrow> v \<in> N \<Longrightarrow> G v (e_term e) \<Longrightarrow>
    enode_step N G n e (e\<lparr>e_yes := insert v (e_yes e)\<rparr>)"
| win: "e_role e = StateCandidate \<Longrightarrow> majority N (e_yes e) \<Longrightarrow>
    enode_step N G n e (e\<lparr>e_term := e_term e + 1, e_vote := NoneId, e_role := StateLeader, e_yes := {},
      e_sent := insert (Led (e_term e + 1)) (e_sent e)\<rparr>)"

inductive_cases enode_stepE: "enode_step N G n e e'"

text \<open>A step of the group: one node acts, seeing the votes the others have granted.\<close>

inductive estep :: "u64 set \<Rightarrow> (u64 \<Rightarrow> enode) \<Rightarrow> (u64 \<Rightarrow> enode) \<Rightarrow> bool" for N :: "u64 set" where
  node: "n \<in> N \<Longrightarrow> enode_step N (\<lambda>v t. Granted t n \<in> e_sent (A v)) n (A n) e' \<Longrightarrow> estep N A (A(n := e'))"

section \<open>The invariant\<close>

definition backed :: "u64 set \<Rightarrow> (u64 \<Rightarrow> enode) \<Rightarrow> u64 \<Rightarrow> nat \<Rightarrow> u64 \<Rightarrow> bool" where
  "backed N A n t v \<longleftrightarrow> v = n \<and> Asked t \<in> e_sent (A n) \<or> Granted t n \<in> e_sent (A v)"

text \<open>What a node has promised: in each term it backs at most one candidate, and in its current
  term that one is its vote.\<close>

definition promises_ok :: "u64 \<Rightarrow> enode \<Rightarrow> bool" where
  "promises_ok n e \<longleftrightarrow>
     (\<forall>t c. Granted t c \<in> e_sent e \<longrightarrow> c \<noteq> NoneId \<and> t \<le> e_term e \<and> (t = e_term e \<longrightarrow> e_vote e = c)) \<and>
     (\<forall>t. Asked t \<in> e_sent e \<longrightarrow> t \<le> e_term e \<and> (t = e_term e \<longrightarrow> e_vote e = n)) \<and>
     (\<forall>t c c'. Granted t c \<in> e_sent e \<longrightarrow> Granted t c' \<in> e_sent e \<longrightarrow> c = c') \<and>
     (\<forall>t c. Granted t c \<in> e_sent e \<longrightarrow> Asked t \<in> e_sent e \<longrightarrow> c = n)"

definition support_ok :: "u64 set \<Rightarrow> (u64 \<Rightarrow> enode) \<Rightarrow> u64 \<Rightarrow> bool" where
  "support_ok N A n \<longleftrightarrow>
     (e_role (A n) = StateCandidate \<longrightarrow> (\<forall>v \<in> e_yes (A n). backed N A n (e_term (A n)) v)) \<and>
     (\<forall>t. Led t \<in> e_sent (A n) \<longrightarrow> 0 < t \<and> (\<exists>Q. majority N Q \<and> (\<forall>v \<in> Q. backed N A n (t - 1) v))) \<and>
     (e_role (A n) = StateLeader \<longrightarrow> Led (e_term (A n)) \<in> e_sent (A n))"

definition election_inv :: "u64 set \<Rightarrow> (u64 \<Rightarrow> enode) \<Rightarrow> bool" where
  "election_inv N A \<longleftrightarrow> (\<forall>n \<in> N. promises_ok n (A n) \<and> support_ok N A n)"

definition election_init :: "u64 set \<Rightarrow> (u64 \<Rightarrow> enode) \<Rightarrow> bool" where
  "election_init N A \<longleftrightarrow> (\<forall>n \<in> N. e_role (A n) = StateFollower \<and> e_sent (A n) = {})"

lemma election_init_inv: "election_init N A \<Longrightarrow> election_inv N A"
  by (simp add: election_init_def election_inv_def promises_ok_def support_ok_def)

lemma enode_step_promises:
  assumes "enode_step N G n e e'" "promises_ok n e" "n \<noteq> NoneId"
  shows "promises_ok n e'"
  using assms
proof (induction rule: enode_step.induct)
  case (grant e c)
  then show ?case unfolding promises_ok_def by (auto simp: NoneId_def)
next
  case (campaign e)
  have "Granted (Suc (e_term e)) c \<notin> e_sent e" for c
    using campaign(2) unfolding promises_ok_def by (metis Suc_n_not_le_n)
  with campaign show ?case unfolding promises_ok_def by (auto simp: le_Suc_eq)
qed (fastforce simp: promises_ok_def)+

lemma enode_step_sent: "enode_step N G n e e' \<Longrightarrow> e_sent e \<subseteq> e_sent e'"
  by (induction rule: enode_step.induct) auto

lemma backed_mono:
  "backed N A n t v \<Longrightarrow> (\<And>x. e_sent (A x) \<subseteq> e_sent (A' x)) \<Longrightarrow> backed N A' n t v"
  by (auto simp: backed_def)

lemma estep_support_other:
  assumes "support_ok N A m" "m \<noteq> n" "e_sent (A n) \<subseteq> e_sent e'"
  shows "support_ok N (A(n := e')) m"
proof -
  have mono: "backed N A m t v \<Longrightarrow> backed N (A(n := e')) m t v" for t v
    by (rule backed_mono) (use assms(3) in auto)
  then show ?thesis using assms(1,2) unfolding support_ok_def by (auto; metis)
qed

lemma estep_support_self:
  assumes "enode_step N (\<lambda>v t. Granted t n \<in> e_sent (A v)) n (A n) e'" "support_ok N A n"
  shows "support_ok N (A(n := e')) n"
proof -
  have mono: "backed N A n t v \<Longrightarrow> backed N (A(n := e')) n t v" for t v
    by (rule backed_mono) (use enode_step_sent [OF assms(1)] in auto)
  have led: "\<exists>Q. majority N Q \<and> (\<forall>v \<in> Q. backed N (A(n := e')) n (t - 1) v)" "0 < t"
    if "Led t \<in> e_sent (A n)" for t
    using that assms(2) mono unfolding support_ok_def by blast+
  have yes: "backed N (A(n := e')) n (e_term (A n)) v"
    if "e_role (A n) = StateCandidate" "v \<in> e_yes (A n)" for v
    using that assms(2) mono unfolding support_ok_def by blast
  have lead: "e_role (A n) = StateLeader \<Longrightarrow> Led (e_term (A n)) \<in> e_sent (A n)"
    using assms(2) unfolding support_ok_def by blast
  from assms(1) show ?thesis
  proof (cases rule: enode_step.cases)
    case (win)
    then show ?thesis using led yes unfolding support_ok_def by auto
  next
    case (collect v)
    then show ?thesis using led yes unfolding support_ok_def by (auto simp: backed_def)
  next
    case campaign
    then show ?thesis using led unfolding support_ok_def by (auto simp: backed_def)
  qed (use led yes lead in \<open>auto simp: support_ok_def\<close>)
qed

lemma estep_inv:
  assumes "estep N A A'" "election_inv N A" "NoneId \<notin> N"
  shows "election_inv N A'"
  using assms
proof (induction rule: estep.induct)
  case (node n A e')
  then have "promises_ok n e'"
    using enode_step_promises unfolding election_inv_def by metis
  moreover have "support_ok N (A(n := e')) m" if "m \<in> N" for m
    using node that estep_support_self estep_support_other enode_step_sent unfolding election_inv_def
    by metis
  ultimately show ?case using node unfolding election_inv_def by auto
qed

lemma esteps_inv:
  "(estep N)\<^sup>*\<^sup>* A A' \<Longrightarrow> election_inv N A \<Longrightarrow> NoneId \<notin> N \<Longrightarrow> election_inv N A'"
  by (induction rule: rtranclp_induct) (auto intro: estep_inv)

section \<open>At most one leader per term\<close>

lemma backed_unique:
  assumes "election_inv N A" "n \<in> N" "m \<in> N" "v \<in> N" "backed N A n t v" "backed N A m t v"
  shows "n = m"
proof -
  have "promises_ok v (A v)" using assms(1,4) by (simp add: election_inv_def)
  then show ?thesis using assms(5,6) unfolding backed_def promises_ok_def by blast
qed

lemma led_unique:
  assumes "election_inv N A" "n \<in> N" "m \<in> N" "Led t \<in> e_sent (A n)" "Led t \<in> e_sent (A m)"
  shows "n = m"
proof -
  obtain P where P: "majority N P" "\<forall>v \<in> P. backed N A n (t - 1) v"
    using assms(1,2,4) unfolding election_inv_def support_ok_def by blast
  obtain Q where Q: "majority N Q" "\<forall>v \<in> Q. backed N A m (t - 1) v"
    using assms(1,3,5) unfolding election_inv_def support_ok_def by blast
  have sub: "P \<subseteq> N" using P(1) by (simp add: majority_def)
  show ?thesis
  proof (rule maj.quorum_agree [OF P(1) Q(1), where backs = "\<lambda>v x. v \<in> N \<and> backed N A x (t - 1) v"])
    show "v \<in> P \<Longrightarrow> v \<in> N \<and> backed N A n (t - 1) v" for v using P(2) sub by blast
    show "v \<in> Q \<Longrightarrow> v \<in> N \<and> backed N A m (t - 1) v" for v using Q by (auto simp: majority_def)
    show "n = m" if "v \<in> N \<and> backed N A n (t - 1) v" "v \<in> N \<and> backed N A m (t - 1) v" for v
      using that backed_unique [OF assms(1-3)] by blast
  qed
qed

end
