(* ===== verification/RaftLogRefine.thy ===== *)
theory RaftLogRefine
  imports RaftLog
begin

text \<open>
  \<open>raftLog\<close> refines the abstract log of \<open>LogSpec\<close>. The abstraction \<open>rl_view\<close> and the invariant
  \<open>raftLog_wf\<close>, then for every operation of \<open>raftlog.go\<close> a lemma that says what it returns and
  what the abstract log is afterwards: reads agree with it and never panic, committing leaves
  it unchanged while entries move to the storage, an append overwrites it from the first
  conflict on. \<open>raftLog_synced\<close> is the extra condition under which \<open>slice\<close> returns a range
  of it.
\<close>

section \<open>The abstract log behind a raft log\<close>

text \<open>The log that \<open>raftLog\<close> stands for: the stored entries below \<open>unstable.offset\<close>, or a pending
  snapshot in their place, followed by the unstable entries.\<close>

definition rl_view :: "raftLog \<Rightarrow> Entry list" where
  "rl_view rl =
     (case u_snapshot (rl_unstable rl) of
        None \<Rightarrow> take (unat (u_offset (rl_unstable rl)) - log_base (ms_logs (rl_storage rl)))
                    (ms_logs (rl_storage rl)) @ u_ents (rl_unstable rl)
      | Some s \<Rightarrow> snap_entry s # u_ents (rl_unstable rl))"

definition raftLog_wf :: "raftLog \<Rightarrow> bool" where
  "raftLog_wf rl \<longleftrightarrow>
     storage_inv (rl_storage rl) \<and>
     chain_from (unat (u_offset (rl_unstable rl))) (u_ents (rl_unstable rl)) \<and>
     unat (u_offset (rl_unstable rl)) + length (u_ents (rl_unstable rl)) < 2 ^ 64 \<and>
     (case u_snapshot (rl_unstable rl) of
        None \<Rightarrow> log_base (ms_logs (rl_storage rl)) < unat (u_offset (rl_unstable rl)) \<and>
                unat (u_offset (rl_unstable rl)) \<le> log_last (ms_logs (rl_storage rl)) + 1 \<and>
                (u_ents (rl_unstable rl) = [] \<longrightarrow>
                   unat (u_offset (rl_unstable rl)) = log_last (ms_logs (rl_storage rl)) + 1)
      | Some s \<Rightarrow> unat (u_offset (rl_unstable rl)) = unat (snap_Index s) + 1)"

text \<open>No stored entry is shadowed by an unstable one, nor by a pending snapshot.\<close>

definition raftLog_synced :: "raftLog \<Rightarrow> bool" where
  "raftLog_synced rl \<longleftrightarrow>
     (case u_snapshot (rl_unstable rl) of
        None \<Rightarrow> unat (u_offset (rl_unstable rl)) = log_last (ms_logs (rl_storage rl)) + 1
      | Some s \<Rightarrow> log_last (ms_logs (rl_storage rl)) \<le> unat (snap_Index s))"

lemma raftLog_stored_len:
  assumes "raftLog_wf rl" "u_snapshot (rl_unstable rl) = None"
  shows "unat (u_offset (rl_unstable rl)) - log_base (ms_logs (rl_storage rl)) \<le> length (ms_logs (rl_storage rl))"
proof -
  have "log_last (ms_logs (rl_storage rl)) + 1 =
      log_base (ms_logs (rl_storage rl)) + length (ms_logs (rl_storage rl))"
    using assms(1) by (intro log_okD(7)) (simp add: raftLog_wf_def storage_inv_def)
  then show ?thesis using assms by (auto simp: raftLog_wf_def)
qed

lemma rl_view_None:
  assumes "raftLog_wf rl" "u_snapshot (rl_unstable rl) = None"
  shows "log_ok (rl_view rl)" "log_base (rl_view rl) = log_base (ms_logs (rl_storage rl))"
    "log_last (rl_view rl) + 1 = unat (u_offset (rl_unstable rl)) + length (u_ents (rl_unstable rl))"
    "log_base (rl_view rl) < unat (u_offset (rl_unstable rl))"
proof -
  let ?L = "ms_logs (rl_storage rl)" and ?k = "unat (u_offset (rl_unstable rl))"
  have view: "rl_view rl = log_append ?L ?k (u_ents (rl_unstable rl))"
    using assms(2) by (simp add: rl_view_def log_append_def)
  have "log_ok ?L" "log_base ?L < ?k" "?k \<le> log_last ?L + 1"
    "chain_from ?k (u_ents (rl_unstable rl))" "?k + length (u_ents (rl_unstable rl)) < 2 ^ 64"
    using assms by (simp_all add: raftLog_wf_def storage_inv_def)
  note * = log_ok_append [OF this] this(2)
  from * view show "log_ok (rl_view rl)" "log_base (rl_view rl) = log_base ?L"
    "log_last (rl_view rl) + 1 = ?k + length (u_ents (rl_unstable rl))"
    "log_base (rl_view rl) < ?k"
    by simp_all
qed

lemma rl_view_Some:
  assumes "raftLog_wf rl" "u_snapshot (rl_unstable rl) = Some s"
  shows "log_ok (rl_view rl)" "log_base (rl_view rl) = unat (snap_Index s)"
    "log_last (rl_view rl) + 1 = unat (u_offset (rl_unstable rl)) + length (u_ents (rl_unstable rl))"
    "unat (u_offset (rl_unstable rl)) = unat (snap_Index s) + 1"
  using assms by (auto simp: raftLog_wf_def rl_view_def log_ok_def log_last_def)

lemma rl_view_ok: "raftLog_wf rl \<Longrightarrow> log_ok (rl_view rl)"
  using rl_view_None(1) rl_view_Some(1) by (cases "u_snapshot (rl_unstable rl)") auto

lemma rl_view_last:
  "raftLog_wf rl \<Longrightarrow>
   log_last (rl_view rl) + 1 = unat (u_offset (rl_unstable rl)) + length (u_ents (rl_unstable rl))"
  using rl_view_None(3) rl_view_Some(3) by (cases "u_snapshot (rl_unstable rl)") auto

lemma rl_view_base: "raftLog_wf rl \<Longrightarrow> log_base (rl_view rl) < unat (u_offset (rl_unstable rl))"
  using rl_view_None(4) rl_view_Some(2,4) by (cases "u_snapshot (rl_unstable rl)") auto

lemma rl_view_split:
  assumes "raftLog_wf rl"
  shows "take (unat (u_offset (rl_unstable rl)) - log_base (rl_view rl)) (rl_view rl) =
      (case u_snapshot (rl_unstable rl) of
         None \<Rightarrow> take (unat (u_offset (rl_unstable rl)) - log_base (ms_logs (rl_storage rl)))
                     (ms_logs (rl_storage rl))
       | Some s \<Rightarrow> [snap_entry s])"
    "drop (unat (u_offset (rl_unstable rl)) - log_base (rl_view rl)) (rl_view rl) = u_ents (rl_unstable rl)"
  using assms rl_view_None(2) [OF assms] rl_view_Some(2,4) [OF assms] raftLog_stored_len [OF assms]
  by (auto simp: rl_view_def split: option.splits)

text \<open>Reading an entry of the abstract log: from the offset on it is an unstable entry.\<close>

lemma rl_view_nth_unstable:
  assumes "raftLog_wf rl" "unat (u_offset (rl_unstable rl)) \<le> i" "i \<le> log_last (rl_view rl)"
  shows "rl_view rl ! (i - log_base (rl_view rl)) =
    u_ents (rl_unstable rl) ! (i - unat (u_offset (rl_unstable rl)))"
proof (cases "u_snapshot (rl_unstable rl)")
  case None
  let ?L = "ms_logs (rl_storage rl)" and ?o = "unat (u_offset (rl_unstable rl))"
  note V = rl_view_None [OF assms(1) None]
  show ?thesis
    using V assms(2) None raftLog_stored_len [OF assms(1) None] by (simp add: rl_view_def nth_append)
next
  case (Some s)
  note V = rl_view_Some [OF assms(1) Some]
  show ?thesis using V assms(2) Some by (simp add: rl_view_def nth_Cons')
qed

lemma rl_term_stable:
  assumes "raftLog_wf rl" "u_snapshot (rl_unstable rl) = None"
    "log_base (rl_view rl) \<le> i" "i < unat (u_offset (rl_unstable rl))"
  shows "log_term (rl_view rl) i = log_term (ms_logs (rl_storage rl)) i"
proof -
  let ?L = "ms_logs (rl_storage rl)" and ?k = "unat (u_offset (rl_unstable rl))"
  have view: "rl_view rl = log_append ?L ?k (u_ents (rl_unstable rl))"
    using assms(2) by (simp add: rl_view_def log_append_def)
  show ?thesis
    unfolding view using assms
    by (intro log_term_append_below) (auto simp: raftLog_wf_def storage_inv_def)
qed

lemma must_Inr [simp]: "must (Inr (Inr x)) = Inr x"
  by (simp add: must_def)

lemma raftLog_first:
  assumes "raftLog_wf rl"
  shows "\<exists>f. raftLog_firstIndex rl = Inr f \<and> unat f = log_base (rl_view rl) + 1"
proof (cases "u_snapshot (rl_unstable rl)")
  case None
  have "storage_inv (rl_storage rl)" using assms by (simp add: raftLog_wf_def)
  from ms.firstIdx_law [OF this] show ?thesis
    using None rl_view_None(2) [OF assms None]
    by (auto simp: raftLog_firstIndex_def unstable_maybeFirstIndex_def InMemStorage_FirstIndex_def)
next
  case (Some s)
  then show ?thesis
    using rl_view_Some(2,4) [OF assms Some]
    by (simp add: raftLog_firstIndex_def unstable_maybeFirstIndex_def)
qed

lemma unstable_tip:
  assumes "raftLog_wf rl"
  shows "unat (u_offset (rl_unstable rl) + ulen (u_ents (rl_unstable rl)) - 1) = log_last (rl_view rl)"
proof -
  let ?o = "u_offset (rl_unstable rl)" and ?e = "u_ents (rl_unstable rl)"
  have "unat (?o + ulen ?e) = unat ?o + length ?e"
    using assms unat_plus_u64 [of ?o "ulen ?e"] by (simp add: raftLog_wf_def)
  then show ?thesis
    using rl_view_last [OF assms] rl_view_base [OF assms] unat_pred_u64 [of "?o + ulen ?e"] by simp
qed

lemma raftLog_last:
  assumes "raftLog_wf rl"
  shows "\<exists>l. raftLog_lastIndex rl = Inr l \<and> unat l = log_last (rl_view rl)"
proof (cases "u_ents (rl_unstable rl) = []")
  case False
  then show ?thesis
    using unstable_tip [OF assms] by (simp add: raftLog_lastIndex_def unstable_maybeLastIndex_def)
next
  case True
  show ?thesis
  proof (cases "u_snapshot (rl_unstable rl)")
    case None
    have st: "storage_inv (rl_storage rl)" using assms by (simp add: raftLog_wf_def)
    have "log_last (rl_view rl) = log_last (ms_logs (rl_storage rl))"
      using rl_view_None(3) [OF assms None] assms None True by (simp add: raftLog_wf_def)
    then show ?thesis
      using True None ms.lastIdx_law [OF st]
      by (auto simp: raftLog_lastIndex_def unstable_maybeLastIndex_def InMemStorage_LastIndex_def)
  next
    case (Some s)
    then show ?thesis
      using True rl_view_Some(3,4) [OF assms Some]
      by (simp add: raftLog_lastIndex_def unstable_maybeLastIndex_def)
  qed
qed

lemma unstable_maybeTerm_view:
  assumes "raftLog_wf rl" "log_base (rl_view rl) \<le> unat i" "unat i \<le> log_last (rl_view rl)"
  shows "unstable_maybeTerm (rl_unstable rl) i =
    Inr (if u_snapshot (rl_unstable rl) = None \<and> i < u_offset (rl_unstable rl) then None
         else Some (log_term (rl_view rl) (unat i)))"
proof (cases "i < u_offset (rl_unstable rl)")
  case True
  show ?thesis
  proof (cases "u_snapshot (rl_unstable rl)")
    case None
    with True show ?thesis by (simp add: unstable_maybeTerm_def)
  next
    case (Some s)
    have "i = snap_Index s"
      using rl_view_Some(2,4) [OF assms(1) Some] assms(2) True by (simp add: u64_eq_iff word_less_nat_alt)
    then show ?thesis
      using True Some assms(2,3) rl_view_Some(2) [OF assms(1) Some]
      by (simp add: unstable_maybeTerm_def log_term_def rl_view_def)
  qed
next
  case False
  let ?o = "u_offset (rl_unstable rl)" and ?e = "u_ents (rl_unstable rl)"
  have o: "unat ?o \<le> unat i" using False by (simp add: word_less_nat_alt)
  then have p: "unat (i - ?o) = unat i - unat ?o" by (rule unat_minus_u64)
  have lt: "unat i - unat ?o < length ?e"
    using rl_view_last [OF assms(1)] assms(3) o by linarith
  then have "?e \<noteq> []" by auto
  then have last: "unstable_maybeLastIndex (rl_unstable rl) = Some (?o + ulen ?e - 1)"
    by (simp add: unstable_maybeLastIndex_def)
  have "\<not> ?o + ulen ?e - 1 < i - ?o"
    using unstable_tip [OF assms(1)] p assms(3) by (simp add: word_less_nat_alt)
  then show ?thesis
    using False last lt p rl_view_nth_unstable [OF assms(1) o assms(3)] assms(2,3)
    by (simp add: unstable_maybeTerm_def Let_def log_term_def)
qed

lemma raftLog_term_view:
  assumes "raftLog_wf rl"
  shows "raftLog_term rl i = Inr (Inr (log_term (rl_view rl) (unat i)))"
proof -
  obtain f where f: "raftLog_firstIndex rl = Inr f" "unat f = log_base (rl_view rl) + 1"
    using raftLog_first [OF assms] by blast
  obtain l where l: "raftLog_lastIndex rl = Inr l" "unat l = log_last (rl_view rl)"
    using raftLog_last [OF assms] by blast
  have f1: "unat (f - 1) = log_base (rl_view rl)"
    using f(2) unat_pred_u64 [of f] by simp
  show ?thesis
  proof (cases "log_base (rl_view rl) \<le> unat i \<and> unat i \<le> log_last (rl_view rl)")
    case False
    then show ?thesis
      using f l f1 by (auto simp: raftLog_term_def word_less_nat_alt log_term_def)
  next
    case True
    then have g: "\<not> i < f - 1" "\<not> i > l"
      using f1 l(2) by (auto simp: word_less_nat_alt)
    have st: "storage_inv (rl_storage rl)" using assms by (simp add: raftLog_wf_def)
    have "InMemStorage_Term (rl_storage rl) i = Inr (Inr (log_term (rl_view rl) (unat i)))"
      if "u_snapshot (rl_unstable rl) = None" "i < u_offset (rl_unstable rl)"
    proof -
      have i: "unat i < unat (u_offset (rl_unstable rl))" using that by (simp add: word_less_nat_alt)
      then have "unat i \<le> log_last (ms_logs (rl_storage rl))"
        using assms that(1) by (auto simp: raftLog_wf_def)
      then show ?thesis
        using ms.termAt_law [OF st] rl_view_None(2) [OF assms that(1)] True
          rl_term_stable [OF assms that(1) _ i] by simp
    qed
    then show ?thesis
      using f l g unstable_maybeTerm_view [OF assms] True by (simp add: raftLog_term_def)
  qed
qed

interpretation rl: indexed_log raftLog_wf rl_view raftLog_firstIndex raftLog_lastIndex raftLog_term
  using rl_view_ok raftLog_first raftLog_last raftLog_term_view
  by unfold_locales simp_all

lemma raftLog_matchTerm_view:
  "raftLog_wf rl \<Longrightarrow>
   raftLog_matchTerm rl i t = Inr (log_term (rl_view rl) (unat i) = t)"
  by (simp add: raftLog_matchTerm_def raftLog_term_view)

section \<open>Appending\<close>

lemma unstable_append_view:
  assumes "raftLog_wf rl" "ents \<noteq> []" "chain_from k ents" "log_base (rl_view rl) < k"
    "k \<le> log_last (rl_view rl) + 1" "k + length ents < 2 ^ 64"
  shows "\<exists>u. unstable_append (rl_unstable rl) ents = Inr u \<and> raftLog_wf (rl\<lparr>rl_unstable := u\<rparr>) \<and>
    rl_view (rl\<lparr>rl_unstable := u\<rparr>) = log_append (rl_view rl) k ents \<and>
    u_snapshot u = u_snapshot (rl_unstable rl) \<and> unat (u_offset u) = min k (unat (u_offset (rl_unstable rl)))"
proof -
  let ?u = "rl_unstable rl"
  let ?o = "u_offset ?u" and ?e = "u_ents ?u" and ?L = "ms_logs (rl_storage rl)"
  let ?first = "ent_Index (hd ents) - 1" and ?tip = "?o + ulen ?e - 1"
  have e0: "slice_get ents 0 = Inr (hd ents)" using assms(2) by (simp add: hd_conv_nth)
  have k: "unat (ent_Index (hd ents)) = k" using assms(2,3) by (rule chain_from_hd [rotated])
  then have first: "unat ?first = k - 1" using assms(4) unat_pred_u64 by simp
  have tip: "unat ?tip = log_last (rl_view rl)" by (rule unstable_tip [OF assms(1)])
  note last = rl_view_last [OF assms(1)]
  have wf: "storage_inv (rl_storage rl)" "chain_from (unat ?o) ?e" "unat ?o + length ?e < 2 ^ 64"
    using assms(1) by (simp_all add: raftLog_wf_def)
  consider (ext) "k = log_last (rl_view rl) + 1" | (low) "k \<le> unat ?o" "k \<le> log_last (rl_view rl)"
    | (cut) "unat ?o < k" "k \<le> log_last (rl_view rl)"
    using assms(5) by linarith
  then show ?thesis
  proof cases
    case ext
    then have "?first = ?tip" using first tip by (simp add: u64_eq_iff)
    then have *: "unstable_append ?u ents = Inr (?u\<lparr>u_ents := ?e @ ents\<rparr>)"
      using e0 by (simp add: unstable_append_def Let_def)
    have "log_append (rl_view rl) k ents = rl_view rl @ ents"
      using ext log_okD(7) [OF rl_view_ok [OF assms(1)]] by (simp add: log_append_def)
    then show ?thesis
      using * ext assms(1,2,3,6) last
      by (auto simp: raftLog_wf_def rl_view_def split: option.splits)
  next
    case low
    then have ne: "?first \<noteq> ?tip" "\<not> ?first > ?tip" "?first < ?o"
      using first tip assms(4) by (auto simp: u64_eq_iff word_less_nat_alt)
    have f1: "?first + 1 = ent_Index (hd ents)" by simp
    have *: "unstable_append ?u ents = Inr (?u\<lparr>u_ents := ents, u_offset := ent_Index (hd ents)\<rparr>)"
      using e0 ne by (simp add: unstable_append_def Let_def)
    show ?thesis
    proof (cases "u_snapshot ?u")
      case None
      note V = rl_view_None [OF assms(1) None]
      have "k - log_base ?L \<le> unat ?o - log_base ?L" using low by simp
      then have "log_append (rl_view rl) k ents = take (k - log_base ?L) ?L @ ents"
        using V(2) None raftLog_stored_len [OF assms(1) None]
        by (simp add: log_append_def rl_view_def min_absorb1)
      then show ?thesis
        using * k None low assms(1-4,6) V(2)
        by (auto simp: raftLog_wf_def rl_view_def)
    next
      case (Some s)
      note V = rl_view_Some [OF assms(1) Some]
      have "k = unat ?o" using V(2,4) low(1) assms(4) by linarith
      then show ?thesis
        using * k Some V assms(1-4,6)
        by (auto simp: raftLog_wf_def rl_view_def log_append_def)
    qed
  next
    case cut
    then have ne: "?first \<noteq> ?tip" "\<not> ?first > ?tip" "\<not> ?first < ?o"
      using first tip assms(4) by (auto simp: u64_eq_iff word_less_nat_alt)
    have "unat (?first - ?o) = k - 1 - unat ?o"
      using first cut(1) unat_minus_u64 [of ?o ?first] by simp
    then have n: "unat (?first - ?o + 1) = k - unat ?o"
      using cut(1) assms(6) unat_Suc_u64 [of "?first - ?o"] by simp
    have le: "k - unat ?o \<le> length ?e" using last cut by linarith
    then have *: "unstable_append ?u ents = Inr (?u\<lparr>u_ents := take (k - unat ?o) ?e @ ents\<rparr>)"
      using e0 ne n by (simp add: unstable_append_def Let_def)
    have "k - log_base (rl_view rl) = (unat ?o - log_base (rl_view rl)) + (k - unat ?o)"
      using cut(1) rl_view_base [OF assms(1)] by linarith
    then have view: "log_append (rl_view rl) k ents =
        take (unat ?o - log_base (rl_view rl)) (rl_view rl) @ take (k - unat ?o) ?e @ ents"
      by (simp add: log_append_def take_add rl_view_split(2) [OF assms(1)])
    have "chain_from (unat ?o) (take (k - unat ?o) ?e @ ents)"
      using wf(2) le cut(1) assms(3) by (simp add: chain_from_take min_absorb2)
    then show ?thesis
      using * view rl_view_split(1) [OF assms(1)] assms(1,2,6) cut(1) le
      by (auto simp: raftLog_wf_def rl_view_def split: option.splits)
  qed
qed

lemma unstable_append_gap:
  assumes "raftLog_wf rl" "ents \<noteq> []" "log_last (rl_view rl) + 1 < unat (ent_Index (hd ents))"
  shows "unstable_append (rl_unstable rl) ents = Inl PanicCall"
proof -
  have "unat (ent_Index (hd ents) - 1) = unat (ent_Index (hd ents)) - 1"
    using assms(3) unat_pred_u64 by simp
  then have "log_last (rl_view rl) < unat (ent_Index (hd ents) - 1)" using assms(3) by linarith
  then show ?thesis
    using assms(2) unstable_tip [OF assms(1)]
    by (simp add: unstable_append_def hd_conv_nth [symmetric] Let_def u64_eq_iff word_less_nat_alt)
qed

section \<open>Committing\<close>

text \<open>What \<open>stableTo\<close> hands to the storage, and what stays unstable.\<close>

lemma unstable_stableTo_view:
  assumes "raftLog_wf rl" "unat c \<le> log_last (rl_view rl)"
  shows "unstable_stableTo (rl_unstable rl) c =
    Inr (case u_snapshot (rl_unstable rl) of None \<Rightarrow> None | Some s \<Rightarrow> if snap_Index s \<le> c then Some s else None,
         take (unat c + 1 - unat (u_offset (rl_unstable rl))) (u_ents (rl_unstable rl)),
         \<lparr>u_snapshot = (case u_snapshot (rl_unstable rl) of None \<Rightarrow> None
             | Some s \<Rightarrow> if snap_Index s \<le> c then None else Some s),
          u_ents = drop (unat c + 1 - unat (u_offset (rl_unstable rl))) (u_ents (rl_unstable rl)),
          u_offset = (if u_offset (rl_unstable rl) \<le> c then c + 1 else u_offset (rl_unstable rl))\<rparr>)"
proof -
  let ?u = "rl_unstable rl"
  let ?o = "u_offset ?u" and ?e = "u_ents ?u"
  note last = rl_view_last [OF assms(1)]
  show ?thesis
  proof (cases "?o \<le> c")
    case True
    then have oc: "unat ?o \<le> unat c" by (simp add: word_le_nat_alt)
    have "unat (c - ?o) = unat c - unat ?o" using oc by (rule unat_minus_u64)
    moreover have "unat ?o + length ?e < 2 ^ 64" using assms(1) by (simp add: raftLog_wf_def)
    ultimately have n: "unat (c - ?o + 1) = unat c + 1 - unat ?o"
      using oc assms(2) last unat_Suc_u64 [of "c - ?o"] by simp
    have "unat c + 1 - unat ?o \<le> length ?e" using assms(2) last by linarith
    then show ?thesis
      using True n by (auto simp: unstable_stableTo_def Let_def split: option.splits)
  next
    case False
    then have "unat c + 1 - unat ?o = 0" by (simp add: word_le_nat_alt)
    then show ?thesis
      using False by (auto simp: unstable_stableTo_def Let_def split: option.splits)
  qed
qed

lemma raftLog_same:
  assumes "rl_storage rl' = rl_storage rl" "rl_unstable rl' = rl_unstable rl"
  shows "raftLog_wf rl' = raftLog_wf rl" "rl_view rl' = rl_view rl" "raftLog_synced rl' = raftLog_synced rl"
  unfolding raftLog_wf_def rl_view_def raftLog_synced_def assms by (rule refl)+

text \<open>Persisting a pending snapshot, and persisting unstable entries up to \<open>c\<close>, each leave the
  abstract log as it is.\<close>

lemma raftLog_persist_snapshot:
  assumes "raftLog_wf rl" "u_snapshot (rl_unstable rl) = Some s"
    "rl_storage rl' = InMemStorage_ApplySnapshot (rl_storage rl) s"
    "rl_unstable rl' = (rl_unstable rl)\<lparr>u_snapshot := None\<rparr>"
  shows "raftLog_wf rl' \<and> rl_view rl' = rl_view rl \<and> raftLog_synced rl'"
proof -
  note V = rl_view_Some [OF assms(1,2)]
  have "unat (snap_Index s) + 1 < 2 ^ 64"
    using V(4) u64_bound [of "u_offset (rl_unstable rl)"] by simp
  then have S: "storage_inv (rl_storage rl')" "ms_logs (rl_storage rl') = [snap_entry s]"
    using ms.snap_law [of s "rl_storage rl"] assms(3) by auto
  show ?thesis
    using assms(1,2,4) S V(4)
    by (auto simp: raftLog_wf_def rl_view_def raftLog_synced_def log_last_def)
qed

lemma raftLog_persist_entries:
  assumes "raftLog_wf rl" "u_snapshot (rl_unstable rl) = None"
    "u_offset (rl_unstable rl) \<le> c" "unat c \<le> log_last (rl_view rl)"
    "n = unat c + 1 - unat (u_offset (rl_unstable rl))"
  shows "\<exists>st. InMemStorage_Append (rl_storage rl) (take n (u_ents (rl_unstable rl))) = Inr (None, st) \<and>
    (\<forall>rl'. rl_storage rl' = st \<and>
      rl_unstable rl' = \<lparr>u_snapshot = None, u_ents = drop n (u_ents (rl_unstable rl)), u_offset = c + 1\<rparr> \<longrightarrow>
      raftLog_wf rl' \<and> rl_view rl' = rl_view rl \<and> raftLog_synced rl')"
proof -
  let ?o = "u_offset (rl_unstable rl)" and ?e = "u_ents (rl_unstable rl)" and ?L = "ms_logs (rl_storage rl)"
  note V = rl_view_None [OF assms(1,2)]
  have oc: "unat ?o \<le> unat c" using assms(3) by (simp add: word_le_nat_alt)
  have n: "0 < n" "n \<le> length ?e" "unat ?o + n = unat c + 1"
    using oc assms(4,5) V(3) by linarith+
  have wf: "storage_inv (rl_storage rl)" "chain_from (unat ?o) ?e" "unat ?o + length ?e < 2 ^ 64"
    "log_base ?L < unat ?o" "unat ?o \<le> log_last ?L + 1"
    using assms(1,2) by (auto simp: raftLog_wf_def)
  then have ok: "log_ok ?L" by (simp add: storage_inv_def)
  have E: "take n ?e \<noteq> []" "chain_from (unat ?o) (take n ?e)" "unat ?o + length (take n ?e) < 2 ^ 64"
    using n wf by (auto simp: chain_from_take)
  obtain st where st: "InMemStorage_Append (rl_storage rl) (take n ?e) = Inr (None, st)"
    "storage_inv st" "ms_logs st = log_append ?L (unat ?o) (take n ?e)"
    using ms.append_law [OF wf(1) E(1,2) wf(4,5) E(3)] by blast
  note A = log_ok_append [OF ok wf(4,5) E(2,3), folded st(3)]
  have c1: "unat (c + 1) = unat c + 1" using unat_Suc_u64 [of c] n wf(3) by simp
  have len: "log_base ?L + length (ms_logs st) = unat c + 1"
    using A(2,3) log_okD(7) [OF A(1)] n by simp
  have "rl_view rl = ms_logs st @ drop n ?e"
    using assms(2) st(3) by (simp add: rl_view_def log_append_def)
  moreover have "chain_from (unat c + 1) (drop n ?e)"
    using chain_from_drop [OF wf(2) n(2)] n(3) by simp
  ultimately show ?thesis
    using st(1,2) A c1 n wf(3,4) len
    by (auto simp: raftLog_wf_def rl_view_def raftLog_synced_def)
qed

lemma raftLog_commit_stable:
  assumes "raftLog_wf rl" "unat c \<le> log_last (rl_view rl)"
    "unstable_stableTo (rl_unstable rl) c = Inr (snap, ents, u)"
    "st1 = (case snap of Some s \<Rightarrow> InMemStorage_ApplySnapshot (rl_storage rl) s | None \<Rightarrow> rl_storage rl)"
  shows "\<exists>st2. (if length ents > 0 then InMemStorage_Append st1 ents else Inr (None, st1)) = Inr (None, st2) \<and>
    (\<forall>rl'. rl_storage rl' = st2 \<and> rl_unstable rl' = u \<longrightarrow> raftLog_wf rl' \<and> rl_view rl' = rl_view rl \<and>
      (raftLog_synced rl \<longrightarrow> raftLog_synced rl'))"
proof -
  let ?o = "u_offset (rl_unstable rl)" and ?e = "u_ents (rl_unstable rl)"
  let ?n = "unat c + 1 - unat ?o"
  define rl1 where "rl1 = rl\<lparr>rl_storage := st1, rl_unstable := (rl_unstable rl)\<lparr>u_snapshot := u_snapshot u\<rparr>\<rparr>"
  note S = unstable_stableTo_view [OF assms(1,2)]
  have ents: "ents = take ?n ?e" and uu: "u_ents u = drop ?n ?e"
    "u_offset u = (if ?o \<le> c then c + 1 else ?o)"
    using S assms(3) by simp_all
  have rl1: "raftLog_wf rl1 \<and> rl_view rl1 = rl_view rl \<and> (raftLog_synced rl \<longrightarrow> raftLog_synced rl1)"
  proof (cases "snap")
    case None
    then have "u_snapshot u = u_snapshot (rl_unstable rl)"
      using S assms(3) by (auto split: option.splits if_splits)
    then have "rl1 = rl" using None assms(4) by (simp add: rl1_def)
    then show ?thesis using assms(1) by simp
  next
    case (Some s)
    then have "u_snapshot (rl_unstable rl) = Some s" "u_snapshot u = None"
      using S assms(3) by (auto split: option.splits if_splits)
    then show ?thesis
      using raftLog_persist_snapshot [OF assms(1), of s rl1] Some assms(4) by (simp add: rl1_def)
  qed
  show ?thesis
  proof (cases "?o \<le> c")
    case False
    then have "?n = 0" by (simp add: word_le_nat_alt)
    then have "ents = []" "u = rl_unstable rl1"
      using ents uu False by (simp_all add: rl1_def)
    moreover have "rl_storage rl1 = st1" by (simp add: rl1_def)
    ultimately show ?thesis using rl1 raftLog_same by (metis length_greater_0_conv)
  next
    case True
    have none: "u_snapshot u = None"
    proof (cases "u_snapshot (rl_unstable rl)")
      case (Some s)
      then have "snap_Index s \<le> c"
        using rl_view_Some(4) [OF assms(1) Some] True by (simp add: word_le_nat_alt)
      then show ?thesis using S assms(3) Some by simp
    qed (use S assms(3) in simp)
    have "0 < ?n" "?n \<le> length ?e"
      using True assms(2) rl_view_last [OF assms(1)] by (auto simp: word_le_nat_alt)
    then have "length ents > 0" using ents by simp
    moreover have "u = \<lparr>u_snapshot = None, u_ents = drop ?n ?e, u_offset = c + 1\<rparr>"
      using uu True none by simp
    ultimately show ?thesis
      using raftLog_persist_entries [of rl1 c ?n] rl1 True assms(2) none ents by (auto simp: rl1_def)
  qed
qed

lemma raftLog_maybeCommit_view:
  assumes "raftLog_wf rl"
  shows "\<exists>rl'. raftLog_maybeCommit rl to = Inr (rl_committed rl < to, rl') \<and> raftLog_wf rl' \<and>
    rl_view rl' = rl_view rl \<and> rl_applied rl' = rl_applied rl \<and>
    unat (rl_committed rl') = (if rl_committed rl < to then min (unat to) (log_last (rl_view rl))
       else unat (rl_committed rl)) \<and> (raftLog_synced rl \<longrightarrow> raftLog_synced rl')"
proof (cases "rl_committed rl < to")
  case False
  then show ?thesis using assms by (simp add: raftLog_maybeCommit_def)
next
  case True
  obtain l where l: "raftLog_lastIndex rl = Inr l" "unat l = log_last (rl_view rl)"
    using raftLog_last [OF assms] by blast
  let ?c = "min to l"
  have c: "unat ?c = min (unat to) (log_last (rl_view rl))"
    using l(2) by (simp add: unat_min_u64)
  then have cl: "unat ?c \<le> log_last (rl_view rl)" by simp
  obtain snap ents u where S: "unstable_stableTo (rl_unstable rl) ?c = Inr (snap, ents, u)"
    using unstable_stableTo_view [OF assms cl] by blast
  define st1 where "st1 = (case snap of Some s \<Rightarrow> InMemStorage_ApplySnapshot (rl_storage rl) s
      | None \<Rightarrow> rl_storage rl)"
  obtain st2 where A: "(if length ents > 0 then InMemStorage_Append st1 ents else Inr (None, st1)) = Inr (None, st2)"
    and keep: "\<And>rl'. rl_storage rl' = st2 \<Longrightarrow> rl_unstable rl' = u \<Longrightarrow> raftLog_wf rl' \<and>
      rl_view rl' = rl_view rl \<and> (raftLog_synced rl \<longrightarrow> raftLog_synced rl')"
    using raftLog_commit_stable [OF assms cl S st1_def] by blast
  let ?rl' = "rl\<lparr>rl_committed := ?c, rl_unstable := u, rl_storage := st2\<rparr>"
  have "raftLog_maybeCommit rl to = Inr (True, ?rl')"
    using True l(1) S A unfolding raftLog_maybeCommit_def
    by (auto simp: st1_def [symmetric] split: if_splits)
  then show ?thesis using True c keep [of ?rl'] by simp
qed

section \<open>Appending entries of a leader\<close>

text \<open>The first entry of a message that disagrees with the log, with its index.\<close>

fun log_conflict :: "Entry list \<Rightarrow> nat \<Rightarrow> Entry list \<Rightarrow> (nat \<times> Entry list) option" where
  "log_conflict L k [] = None"
| "log_conflict L k (e # es) =
     (if log_term L k = ent_Term e then log_conflict L (Suc k) es else Some (k, e # es))"

lemma log_conflict_None:
  "log_conflict L k ents = None \<Longrightarrow> i < length ents \<Longrightarrow> log_term L (k + i) = ent_Term (ents ! i)"
  by (induction L k ents arbitrary: i rule: log_conflict.induct)
    (auto simp: nth_Cons split: if_splits nat.splits)

lemma log_conflict_Some:
  assumes "log_conflict L k ents = Some (j, es)"
  shows "k \<le> j \<and> j < k + length ents \<and> es = drop (j - k) ents \<and> es \<noteq> [] \<and>
    (\<forall>i < j - k. log_term L (k + i) = ent_Term (ents ! i))"
  using assms
proof (induction L k ents rule: log_conflict.induct)
  case (2 L k e es')
  show ?case
  proof (cases "log_term L k = ent_Term e")
    case True
    with 2 have IH: "Suc k \<le> j" "j < Suc k + length es'" "es = drop (j - Suc k) es'" "es \<noteq> []"
      "\<forall>i < j - Suc k. log_term L (Suc k + i) = ent_Term (es' ! i)"
      by auto
    then have "j - k = Suc (j - Suc k)" by linarith
    with IH True show ?thesis by (auto simp: nth_Cons split: nat.splits)
  next
    case False
    with 2 show ?thesis by auto
  qed
qed simp

text \<open>An entry with a non-zero term that the log agrees with is inside the log, so a conflict is
  at most one past its end.\<close>

lemma log_conflict_last:
  assumes "log_conflict L k ents = Some (j, es)" "k \<le> log_last L + 1" "\<forall>e \<in> set ents. ent_Term e \<noteq> 0"
  shows "j \<le> log_last L + 1"
  using assms
proof (induction L k ents rule: log_conflict.induct)
  case (2 L k e es')
  show ?case
  proof (cases "log_term L k = ent_Term e")
    case True
    then have "k \<le> log_last L" using 2(4) by (auto simp: log_term_def split: if_splits)
    with 2 True show ?thesis by simp
  qed (use 2 in auto)
qed simp

text \<open>What the loop of \<open>maybeAppend\<close> does, in terms of the abstract log.\<close>

definition append_result :: "raftLog \<Rightarrow> u64 \<Rightarrow> u64 \<Rightarrow> nat \<Rightarrow> Entry list \<Rightarrow> u64 \<times> bool \<times> raftLog \<Rightarrow> bool" where
  "append_result rl lastidx committed k ents r \<longleftrightarrow>
     (case log_conflict (rl_view rl) k ents of
        None \<Rightarrow> r = (lastidx, True, rl)
      | Some (j, es) \<Rightarrow>
          if j < unat (rl_committed rl) then \<exists>h. r = (h, False, rl) \<and> unat h = j - 1
          else \<exists>rl'. r = (lastidx, True, rl') \<and> raftLog_wf rl' \<and>
             rl_view rl' = log_append (rl_view rl) j es \<and> rl_applied rl' = rl_applied rl \<and>
             unat (rl_committed rl') =
               (if rl_committed rl < min lastidx committed
                then min (unat (min lastidx committed)) (log_last (rl_view rl')) else unat (rl_committed rl)) \<and>
             (raftLog_synced rl \<and> unat (u_offset (rl_unstable rl)) \<le> j \<longrightarrow> raftLog_synced rl'))"

lemma raftLog_maybeAppend_loop_view:
  assumes "raftLog_wf rl" "chain_from k ents" "log_base (rl_view rl) < k" "k \<le> log_last (rl_view rl) + 1"
    "k + length ents < 2 ^ 64" "\<forall>e \<in> set ents. ent_Term e \<noteq> 0"
  shows "\<exists>r. raftLog_maybeAppend_loop rl lastidx committed ents = Inr r \<and>
    append_result rl lastidx committed k ents r"
  using assms(2-6)
proof (induction ents arbitrary: k)
  case Nil
  then show ?case by (simp add: append_result_def)
next
  case (Cons e es)
  have k: "unat (ent_Index e) = k" using Cons.prems(1) by simp
  have m: "raftLog_matchTerm rl (ent_Index e) (ent_Term e) = Inr (log_term (rl_view rl) k = ent_Term e)"
    using raftLog_matchTerm_view [OF assms(1)] k by simp
  show ?case
  proof (cases "log_term (rl_view rl) k = ent_Term e")
    case True
    then have "k \<le> log_last (rl_view rl)"
      using Cons.prems(5) by (auto simp: log_term_def split: if_splits)
    with Cons.prems have "\<exists>r. raftLog_maybeAppend_loop rl lastidx committed es = Inr r \<and>
        append_result rl lastidx committed (Suc k) es r"
      by (intro Cons.IH) auto
    then show ?thesis using True m by (simp add: append_result_def)
  next
    case False
    show ?thesis
    proof (cases "k < unat (rl_committed rl)")
      case True
      then show ?thesis
        using False m k Cons.prems(2) unat_pred_u64 [of "ent_Index e"]
        by (simp add: append_result_def word_less_nat_alt)
    next
      case nc: False
      obtain u where u: "unstable_append (rl_unstable rl) (e # es) = Inr u"
        "raftLog_wf (rl\<lparr>rl_unstable := u\<rparr>)"
        "rl_view (rl\<lparr>rl_unstable := u\<rparr>) = log_append (rl_view rl) k (e # es)"
        "u_snapshot u = u_snapshot (rl_unstable rl)"
        "unat (u_offset u) = min k (unat (u_offset (rl_unstable rl)))"
        using unstable_append_view [OF assms(1), of "e # es" k] Cons.prems by auto
      have sync: "raftLog_synced (rl\<lparr>rl_unstable := u\<rparr>)"
        if "raftLog_synced rl" "unat (u_offset (rl_unstable rl)) \<le> k"
        using that u(4,5) by (simp add: raftLog_synced_def split: option.splits)
      obtain b rl' where C: "raftLog_maybeCommit (rl\<lparr>rl_unstable := u\<rparr>) (min lastidx committed) = Inr (b, rl')"
        "raftLog_wf rl'" "rl_view rl' = log_append (rl_view rl) k (e # es)" "rl_applied rl' = rl_applied rl"
        "unat (rl_committed rl') = (if rl_committed rl < min lastidx committed
           then min (unat (min lastidx committed)) (log_last (rl_view rl')) else unat (rl_committed rl))"
        "raftLog_synced (rl\<lparr>rl_unstable := u\<rparr>) \<longrightarrow> raftLog_synced rl'"
        using raftLog_maybeCommit_view [OF u(2), of "min lastidx committed"] u(3) by auto
      have "raftLog_maybeAppend_loop rl lastidx committed (e # es) = Inr (lastidx, True, rl')"
        using False nc m u(1) C(1) k by (simp add: word_less_nat_alt)
      moreover have "append_result rl lastidx committed k (e # es) (lastidx, True, rl')"
        using C(2-6) sync False nc by (simp add: append_result_def)
      ultimately show ?thesis by blast
    qed
  qed
qed

text \<open>The hint of a rejection: the first index whose term reaches the message's, else the last one.\<close>

lemma raftLog_hint_loop_view:
  assumes "raftLog_wf rl" "log_base (rl_view rl) < unat i" "unat i \<le> log_last (rl_view rl) + 1"
    "\<forall>j. log_base (rl_view rl) < j \<and> j < unat i \<longrightarrow> log_term (rl_view rl) j < tm"
    "hint = (if unat i = log_base (rl_view rl) + 1 then 0 else i - 1)"
  shows "\<exists>h. raftLog_hint_loop rl tm i hint = Inr h \<and>
    (if log_last (rl_view rl) = log_base (rl_view rl) then h = 0
     else log_base (rl_view rl) < unat h \<and> unat h \<le> log_last (rl_view rl) \<and>
       (\<forall>j. log_base (rl_view rl) < j \<and> j < unat h \<longrightarrow> log_term (rl_view rl) j < tm) \<and>
       (tm \<le> log_term (rl_view rl) (unat h) \<or> unat h = log_last (rl_view rl)))"
  using assms(2-)
proof (induction "log_last (rl_view rl) + 1 - unat i" arbitrary: i hint)
  case 0
  obtain l where l: "raftLog_lastIndex rl = Inr l" "unat l = log_last (rl_view rl)"
    using raftLog_last [OF assms(1)] by blast
  have l1: "unat (l + 1) = log_last (rl_view rl) + 1"
    using unat_Suc_u64 [of l] l(2) log_okD(6) [OF rl_view_ok [OF assms(1)]] by simp
  have i: "unat i = log_last (rl_view rl) + 1" using 0 by linarith
  then have "raftLog_hint_loop rl tm i hint = Inr hint"
    using l(1) l1 by (simp add: raftLog_hint_loop.simps [of rl tm i hint] word_less_nat_alt)
  moreover have "unat (i - 1) = log_last (rl_view rl)" using i unat_pred_u64 by simp
  ultimately show ?case using i 0 log_okD(5) [OF rl_view_ok [OF assms(1)]] by auto
next
  case (Suc n)
  obtain l where l: "raftLog_lastIndex rl = Inr l" "unat l = log_last (rl_view rl)"
    using raftLog_last [OF assms(1)] by blast
  have l1: "unat (l + 1) = log_last (rl_view rl) + 1"
    using unat_Suc_u64 [of l] l(2) log_okD(6) [OF rl_view_ok [OF assms(1)]] by simp
  have lt: "unat i \<le> log_last (rl_view rl)" using Suc(2) by linarith
  then have i1: "unat (i + 1) = unat i + 1"
    using unat_Suc_u64 [of i] log_okD(6) [OF rl_view_ok [OF assms(1)]] by simp
  have g: "i < l + 1" using lt l1 by (simp add: word_less_nat_alt)
  show ?case
  proof (cases "tm \<le> log_term (rl_view rl) (unat i)")
    case True
    then have "raftLog_hint_loop rl tm i hint = Inr i"
      using l(1) g raftLog_term_view [OF assms(1)]
      by (simp add: raftLog_hint_loop.simps [of rl tm i hint])
    then show ?thesis using True lt Suc.prems by auto
  next
    case False
    then have "raftLog_hint_loop rl tm i hint = raftLog_hint_loop rl tm (i + 1) i"
      using l(1) g raftLog_term_view [OF assms(1)]
      by (simp add: raftLog_hint_loop.simps [of rl tm i hint])
    moreover have "\<forall>j. log_base (rl_view rl) < j \<and> j < unat (i + 1) \<longrightarrow> log_term (rl_view rl) j < tm"
      using False Suc.prems(3) i1 by (metis Suc_eq_plus1 less_antisym not_le_imp_less)
    ultimately show ?thesis
      using Suc(1) [of "i + 1" i] Suc(2) Suc.prems(1) i1 lt by simp
  qed
qed

lemma raftLog_maybeAppend_accept:
  assumes "raftLog_wf rl" "chain_from (unat idx + 1) ents" "unat idx + 1 + length ents < 2 ^ 64"
    "\<forall>e \<in> set ents. ent_Term e \<noteq> 0" "log_term (rl_view rl) (unat idx) = tm"
    "tm \<noteq> 0 \<or> log_base (rl_view rl) \<le> unat idx \<and> unat idx \<le> log_last (rl_view rl)"
  shows "\<exists>r. raftLog_maybeAppend rl idx tm committed ents = Inr r \<and>
    append_result rl (idx + ulen ents) committed (unat idx + 1) ents r"
proof -
  have "log_base (rl_view rl) \<le> unat idx" "unat idx \<le> log_last (rl_view rl)"
    using assms(5,6) by (auto simp: log_term_def split: if_splits)
  then show ?thesis
    using raftLog_maybeAppend_loop_view [OF assms(1,2), of "idx + ulen ents" committed] assms(3-5)
    by (simp add: raftLog_maybeAppend_def raftLog_matchTerm_view [OF assms(1)])
qed

lemma raftLog_maybeAppend_reject:
  assumes "raftLog_wf rl" "log_term (rl_view rl) (unat idx) \<noteq> tm"
  shows "\<exists>h. raftLog_maybeAppend rl idx tm committed ents = Inr (h, False, rl) \<and>
    (if log_last (rl_view rl) = log_base (rl_view rl) then h = 0
     else log_base (rl_view rl) < unat h \<and> unat h \<le> log_last (rl_view rl) \<and>
       (\<forall>j. log_base (rl_view rl) < j \<and> j < unat h \<longrightarrow> log_term (rl_view rl) j < tm) \<and>
       (tm \<le> log_term (rl_view rl) (unat h) \<or> unat h = log_last (rl_view rl)))"
proof -
  obtain f where f: "raftLog_firstIndex rl = Inr f" "unat f = log_base (rl_view rl) + 1"
    using raftLog_first [OF assms(1)] by blast
  have "\<exists>h. raftLog_hint_loop rl tm f 0 = Inr h \<and>
    (if log_last (rl_view rl) = log_base (rl_view rl) then h = 0
     else log_base (rl_view rl) < unat h \<and> unat h \<le> log_last (rl_view rl) \<and>
       (\<forall>j. log_base (rl_view rl) < j \<and> j < unat h \<longrightarrow> log_term (rl_view rl) j < tm) \<and>
       (tm \<le> log_term (rl_view rl) (unat h) \<or> unat h = log_last (rl_view rl)))"
    using f(2) log_okD(5) [OF rl_view_ok [OF assms(1)]]
    by (intro raftLog_hint_loop_view [OF assms(1)]) auto
  then show ?thesis
    using f(1) assms(2) by (auto simp: raftLog_maybeAppend_def raftLog_matchTerm_view [OF assms(1)])
qed

section \<open>Reading a range of the log\<close>

lemma unstable_entries_view:
  assumes "raftLog_wf rl" "u_offset (rl_unstable rl) \<le> lo" "lo < hi" "unat hi \<le> log_last (rl_view rl) + 1"
  shows "unstable_entries (rl_unstable rl) lo hi m = Inr (log_slice (rl_view rl) (unat lo) (unat hi))"
proof -
  let ?o = "u_offset (rl_unstable rl)" and ?e = "u_ents (rl_unstable rl)"
  have le: "unat ?o \<le> unat lo" "unat lo < unat hi"
    using assms(2,3) by (simp_all add: word_le_nat_alt word_less_nat_alt)
  have lo: "unat (lo - ?o) = unat lo - unat ?o" and hi: "unat (hi - ?o) = unat hi - unat ?o"
    using le by (simp_all add: unat_minus_u64)
  have len: "unat hi - unat ?o \<le> length ?e" using rl_view_last [OF assms(1)] assms(4) by linarith
  have "unat (ulen ?e) = length ?e" using assms(1) by (simp add: raftLog_wf_def)
  then have g: "\<not> hi - ?o > ulen ?e" using hi len by (simp add: word_less_nat_alt)
  have "unat lo - log_base (rl_view rl) =
      (unat lo - unat ?o) + (unat ?o - log_base (rl_view rl))"
    using le rl_view_base [OF assms(1)] by linarith
  then have "drop (unat lo - log_base (rl_view rl)) (rl_view rl) = drop (unat lo - unat ?o) ?e"
    using rl_view_split(2) [OF assms(1)] by (metis drop_drop)
  moreover have "\<not> hi \<le> lo" using assms(3) by simp
  ultimately show ?thesis
    using g lo hi len le
    by (simp add: unstable_entries_def Let_def log_slice_def)
qed

lemma log_slice_split:
  assumes "log_base L \<le> lo" "lo \<le> m" "m \<le> hi"
  shows "log_slice L lo hi = log_slice L lo m @ log_slice L m hi"
proof -
  have "hi - lo = (m - lo) + (hi - m)" "m - log_base L = (m - lo) + (lo - log_base L)"
    using assms by linarith+
  then show ?thesis by (simp add: log_slice_def take_add drop_drop)
qed

lemma raftLog_slice_view:
  assumes "raftLog_wf rl" "raftLog_synced rl" "log_base (rl_view rl) < unat from" "from < to"
    "unat to \<le> log_last (rl_view rl) + 1"
  defines "off \<equiv> unat (u_offset (rl_unstable rl))"
  shows "raftLog_slice sz rl from to m =
    Inr (Inr (limitSize sz
      (limitSize sz (log_slice (rl_view rl) (unat from) (min off (unat to))) m @
       log_slice (rl_view rl) (max off (unat from)) (unat to)) m))"
proof -
  let ?L = "ms_logs (rl_storage rl)" and ?V = "rl_view rl"
  obtain f where f: "raftLog_firstIndex rl = Inr f" "unat f = log_base ?V + 1"
    using raftLog_first [OF assms(1)] by blast
  obtain l where l: "raftLog_lastIndex rl = Inr l" "unat l = log_last ?V"
    using raftLog_last [OF assms(1)] by blast
  have l1: "unat (l + 1) = log_last ?V + 1"
    using unat_Suc_u64 [of l] l(2) log_okD(6) [OF rl_view_ok [OF assms(1)]] by simp
  have g: "\<not> (from < f \<or> to > l + 1)" "\<not> from \<ge> to"
    using assms(3,4,5) f(2) l1 by (simp_all add: word_less_nat_alt word_le_nat_alt)
  have st: "storage_inv (rl_storage rl)" using assms(1) by (simp add: raftLog_wf_def)
  then have ok: "log_ok ?L" by (simp add: storage_inv_def)
  obtain sl where sl: "InMemStorage_LastIndex (rl_storage rl) = Inr (Inr sl)" "unat sl = log_last ?L"
    using ms.lastIdx_law [OF st] by (auto simp: InMemStorage_LastIndex_def)
  have sl1: "unat (sl + 1) = log_last ?L + 1"
    using unat_Suc_u64 [of sl] sl(2) log_okD(6) [OF ok] by simp
  show ?thesis
  proof (cases "sl \<ge> from")
    case True
    then have fl: "unat from \<le> log_last ?L" using sl(2) by (simp add: word_le_nat_alt)
    have None: "u_snapshot (rl_unstable rl) = None"
      using assms(2,3) fl rl_view_Some(2) [OF assms(1)] by (auto simp: raftLog_synced_def split: option.splits)
    then have off: "off = log_last ?L + 1" using assms(2) by (simp add: raftLog_synced_def off_def)
    have L: "log_base ?V = log_base ?L" "?V = ?L @ u_ents (rl_unstable rl)"
      using rl_view_None(2) [OF assms(1) None] None off log_okD(7) [OF ok]
      by (simp_all add: rl_view_def off_def)
    have mn: "unat (min (sl + 1) to) = min off (unat to)" using sl1 off by (simp add: unat_min_u64)
    have "InMemStorage_Entries sz (rl_storage rl) from (min (sl + 1) to) m =
        Inr (Inr (limitSize sz (log_slice ?L (unat from) (min off (unat to))) m))"
      using ms.entries_law [OF st, of "from" "min (sl + 1) to" sz m] assms(3,4) L(1) fl mn off
      by (simp add: word_le_nat_alt word_less_nat_alt)
    moreover have "log_slice ?L (unat from) (min off (unat to)) = log_slice ?V (unat from) (min off (unat to))"
      using L fl off log_okD(7) [OF ok] assms(3) by (simp add: log_slice_def)
    moreover have "max (sl + 1) from = sl + 1" using sl1 fl by (simp add: max_def word_le_nat_alt)
    moreover have "unstable_entries (rl_unstable rl) (sl + 1) to m = Inr (log_slice ?V (max off (unat from)) (unat to))"
    proof (cases "sl + 1 \<ge> to")
      case True
      then show ?thesis
        using sl1 off by (simp add: unstable_entries_def log_slice_def word_le_nat_alt)
    next
      case False
      have "u_offset (rl_unstable rl) \<le> sl + 1" using off sl1 by (simp add: off_def word_le_nat_alt)
      then show ?thesis
        using unstable_entries_view [OF assms(1), of "sl + 1" to m] False assms(5) sl1 off fl
        by (simp add: not_le max_def)
    qed
    ultimately show ?thesis
      using True f l g sl(1) by (simp add: raftLog_slice_def)
  next
    case False
    then have fl: "log_last ?L < unat from" using sl(2) by (simp add: word_le_nat_alt)
    have off: "off \<le> unat from"
    proof (cases "u_snapshot (rl_unstable rl)")
      case None
      then show ?thesis using assms(2) fl by (simp add: raftLog_synced_def off_def)
    next
      case (Some s)
      then show ?thesis using rl_view_Some(2,4) [OF assms(1) Some] assms(3) by (simp add: off_def)
    qed
    have "max (sl + 1) from = from" using sl1 fl by (simp add: max_def word_le_nat_alt)
    moreover have "unstable_entries (rl_unstable rl) from to m = Inr (log_slice ?V (max off (unat from)) (unat to))"
      using unstable_entries_view [OF assms(1) _ assms(4,5), of m] off
      by (simp add: off_def word_le_nat_alt max_def)
    moreover have "log_slice ?V (unat from) (min off (unat to)) = []"
      using off by (simp add: log_slice_def)
    ultimately show ?thesis
      using False f l g sl(1) by (simp add: raftLog_slice_def)
  qed
qed

lemma raftLog_slice_noLimit:
  assumes "raftLog_wf rl" "raftLog_synced rl" "log_base (rl_view rl) < unat from"
    "unat to \<le> log_last (rl_view rl) + 1"
  shows "raftLog_slice sz rl from to noLimit = Inr (Inr (log_slice (rl_view rl) (unat from) (unat to)))"
proof (cases "from < to")
  case False
  then show ?thesis by (simp add: raftLog_slice_def log_slice_def word_less_nat_alt word_le_nat_alt)
next
  case True
  let ?o = "unat (u_offset (rl_unstable rl))"
  have ft: "unat from < unat to" using True by (simp add: word_less_nat_alt)
  have "log_slice (rl_view rl) (unat from) (min ?o (unat to)) @ log_slice (rl_view rl) (max ?o (unat from)) (unat to)
      = log_slice (rl_view rl) (unat from) (unat to)"
  proof (cases "?o \<le> unat from")
    case True
    then show ?thesis using ft by (simp add: log_slice_def max_def)
  next
    case False
    then show ?thesis
      using log_slice_split [of "rl_view rl" "unat from" "min ?o (unat to)" "unat to"] ft assms(3)
      by (cases "?o \<le> unat to") (simp_all add: log_slice_def min_def max_def)
  qed
  then show ?thesis using raftLog_slice_view [OF assms(1-3) True assms(4), of sz noLimit] by simp
qed

section \<open>Creation, restoring a snapshot, terms\<close>

text \<open>The invariant of a raft log: well-formed, \<open>applied \<le> committed \<le> lastIndex\<close>, and a snapshot that
  is still pending is ahead of \<open>committed\<close>.\<close>

definition pending_ok :: "raftLog \<Rightarrow> bool" where
  "pending_ok rl \<longleftrightarrow> (\<forall>s \<in> set_option (u_snapshot (rl_unstable rl)). rl_committed rl < snap_Index s)"

definition raftLog_inv :: "raftLog \<Rightarrow> bool" where
  "raftLog_inv rl \<longleftrightarrow> raftLog_wf rl \<and> unat (rl_committed rl) \<le> log_last (rl_view rl) \<and>
     rl_applied rl \<le> rl_committed rl \<and> pending_ok rl"

lemma newRaftLog_view:
  assumes "storage_inv st"
  shows "\<exists>rl. newRaftLog st = Inr rl \<and> raftLog_inv rl \<and> raftLog_synced rl \<and> rl_view rl = ms_logs st \<and>
    rl_storage rl = st \<and> unat (rl_committed rl) = log_base (ms_logs st) \<and> rl_applied rl = rl_committed rl"
proof -
  obtain f where f: "InMemStorage_firstIndex st = Inr f" "unat f = log_base (ms_logs st) + 1"
    using ms.firstIdx_law [OF assms] by blast
  obtain l where l: "InMemStorage_lastIndex st = Inr l" "unat l = log_last (ms_logs st)"
    using ms.lastIdx_law [OF assms] by blast
  have ok: "log_ok (ms_logs st)" using assms by (simp add: storage_inv_def)
  have l1: "unat (l + 1) = log_last (ms_logs st) + 1"
    using unat_Suc_u64 [of l] l(2) log_okD(6) [OF ok] by simp
  have f1: "unat (f - 1) = log_base (ms_logs st)" using f(2) unat_pred_u64 by simp
  show ?thesis
    using assms f l l1 f1 log_okD(5,6,7) [OF ok]
    by (auto simp: newRaftLog_def InMemStorage_FirstIndex_def InMemStorage_LastIndex_def raftLog_inv_def
        pending_ok_def raftLog_wf_def raftLog_synced_def rl_view_def)
qed

lemma raftLog_restore_view:
  assumes "raftLog_wf rl" "unat (snap_Index s) + 1 < 2 ^ 64"
  shows "raftLog_wf (raftLog_restore rl s)" "rl_view (raftLog_restore rl s) = [snap_entry s]"
    "rl_committed (raftLog_restore rl s) = rl_committed rl" "rl_applied (raftLog_restore rl s) = rl_applied rl"
  using assms unat_Suc_u64 [of "snap_Index s"]
  by (auto simp: raftLog_restore_def unstable_restore_def raftLog_wf_def rl_view_def)

lemma raftLog_lastTerm_view:
  assumes "raftLog_wf rl"
  shows "raftLog_lastTerm rl = Inr (ent_Term (last (rl_view rl)))"
proof -
  obtain l where l: "raftLog_lastIndex rl = Inr l" "unat l = log_last (rl_view rl)"
    using raftLog_last [OF assms] by blast
  note V = log_okD [OF rl_view_ok [OF assms]]
  have "log_last (rl_view rl) - log_base (rl_view rl) = length (rl_view rl) - 1"
    using V(7) by linarith
  then show ?thesis
    using l V(1,5) by (simp add: raftLog_lastTerm_def raftLog_term_view [OF assms] log_term_def last_conv_nth)
qed

lemma raftLog_isUpToDate_view:
  assumes "raftLog_wf rl"
  shows "raftLog_isUpToDate rl idx tm =
    Inr (ent_Term (last (rl_view rl)) < tm \<or>
         ent_Term (last (rl_view rl)) = tm \<and> log_last (rl_view rl) \<le> unat idx)"
  using raftLog_last [OF assms]
  by (auto simp: raftLog_isUpToDate_def raftLog_lastTerm_view [OF assms] word_le_nat_alt)

lemma raftLog_append_view:
  assumes "raftLog_wf rl" "chain_from (log_last (rl_view rl) + 1) ents"
    "log_last (rl_view rl) + 1 + length ents < 2 ^ 64"
  shows "\<exists>rl'. raftLog_append rl ents = Inr rl' \<and> raftLog_wf rl' \<and> rl_view rl' = rl_view rl @ ents \<and>
    rl_committed rl' = rl_committed rl \<and> rl_applied rl' = rl_applied rl \<and>
    (raftLog_synced rl \<longrightarrow> raftLog_synced rl')"
proof (cases "ents = []")
  case True
  then show ?thesis using assms by (simp add: raftLog_append_def)
next
  case False
  note V = log_okD [OF rl_view_ok [OF assms(1)]]
  obtain u where u: "unstable_append (rl_unstable rl) ents = Inr u" "raftLog_wf (rl\<lparr>rl_unstable := u\<rparr>)"
    "rl_view (rl\<lparr>rl_unstable := u\<rparr>) = log_append (rl_view rl) (log_last (rl_view rl) + 1) ents"
    "u_snapshot u = u_snapshot (rl_unstable rl)"
    "unat (u_offset u) = min (log_last (rl_view rl) + 1) (unat (u_offset (rl_unstable rl)))"
    using unstable_append_view [OF assms(1) False assms(2)] V(5) assms(3) by auto
  have "log_append (rl_view rl) (log_last (rl_view rl) + 1) ents = rl_view rl @ ents"
    using V(7) by (simp add: log_append_def)
  moreover have "unat (u_offset u) = unat (u_offset (rl_unstable rl))"
    using u(5) rl_view_last [OF assms(1)] by simp
  ultimately show ?thesis
    using False u by (auto simp: raftLog_append_def raftLog_synced_def split: option.splits)
qed

lemma unstable_append_snapshot: "unstable_append u ents = Inr u' \<Longrightarrow> u_snapshot u' = u_snapshot u"
  by (auto simp: unstable_append_def Let_def split: if_splits)

lemma unstable_stableTo_pending:
  "unstable_stableTo u i = Inr (snap, ents, u') \<Longrightarrow> u_snapshot u' = Some s \<Longrightarrow> i < snap_Index s"
  by (auto simp: unstable_stableTo_def Let_def split: option.splits if_splits prod.splits)

lemma raftLog_maybeCommit_pending:
  assumes "raftLog_maybeCommit rl to = Inr (b, rl')" "pending_ok rl"
  shows "pending_ok rl'"
proof (cases "to > rl_committed rl")
  case True
  then obtain snap ents u where
    "unstable_stableTo (rl_unstable rl) (rl_committed rl') = Inr (snap, ents, u)" "rl_unstable rl' = u"
    using assms(1) by (auto simp: raftLog_maybeCommit_def Let_def split: if_splits option.splits)
  then show ?thesis
    using unstable_stableTo_pending by (auto simp: pending_ok_def split: option.splits)
next
  case False
  then show ?thesis using assms by (simp add: raftLog_maybeCommit_def)
qed

lemma raftLog_maybeAppend_loop_pending:
  "raftLog_maybeAppend_loop rl l c ents = Inr (i, b, rl') \<Longrightarrow> pending_ok rl \<Longrightarrow> pending_ok rl'"
proof (induction ents)
  case (Cons e es)
  have "pending_ok (rl\<lparr>rl_unstable := u\<rparr>)" if "unstable_append (rl_unstable rl) (e # es) = Inr u" for u
    using unstable_append_snapshot [OF that] Cons.prems(2) by (simp add: pending_ok_def)
  then show ?case
    using Cons by (auto split: if_splits dest!: raftLog_maybeCommit_pending)
qed simp

lemma raftLog_maybeAppend_pending:
  "raftLog_maybeAppend rl idx tm c ents = Inr (i, b, rl') \<Longrightarrow> pending_ok rl \<Longrightarrow> pending_ok rl'"
  by (auto simp: raftLog_maybeAppend_def Let_def dest: raftLog_maybeAppend_loop_pending split: if_splits)

lemma raftLog_append_pending: "raftLog_append rl ents = Inr rl' \<Longrightarrow> pending_ok rl \<Longrightarrow> pending_ok rl'"
  by (auto simp: raftLog_append_def pending_ok_def dest!: unstable_append_snapshot split: if_splits)

end
