(* ===== verification/RaftQuiet.thy ===== *)
theory RaftQuiet
  imports ElectionSpec RaftLogRefine
begin

text \<open>
  Which handlers of \<open>raft.go\<close> leave the election alone. A step is \<open>quiet\<close> when it changes no
  election state, keeps the membership and sends only messages of the kinds the caller allows,
  from this node in its current term. \<open>RaftElection\<close> builds on these lemmas.
\<close>

section \<open>Membership and snapshots\<close>

definition snap_ok :: "u64 set \<Rightarrow> Snapshot \<Rightarrow> bool" where
  "snap_ok N s \<longleftrightarrow> snap_Index s = 0 \<or> (\<exists>c. snap_Conf s = Some c \<and> set (conf_Nodes c) = N)"

definition rl_snaps :: "raftLog \<Rightarrow> Snapshot set" where
  "rl_snaps rl = insert (ms_snapshot (rl_storage rl)) (set_option (u_snapshot (rl_unstable rl)))"

definition member_ok :: "u64 set \<Rightarrow> raft \<Rightarrow> bool" where
  "member_ok N r \<longleftrightarrow> set (keys (r_peers r)) = N \<and> distinct (keys (r_peers r)) \<and>
     (\<forall>s \<in> rl_snaps (r_logs r). snap_ok N s)"

lemma ms_Append_snapshot: "InMemStorage_Append ms ents = Inr (e, ms') \<Longrightarrow> ms_snapshot ms' = ms_snapshot ms"
  by (auto simp: InMemStorage_Append_def Let_def split: if_splits)

lemma unstable_stableTo_snapshot:
  "unstable_stableTo u i = Inr (snap, ents, u') \<Longrightarrow>
   (snap = None \<or> snap = u_snapshot u) \<and> (u_snapshot u' = None \<or> u_snapshot u' = u_snapshot u)"
  by (auto simp: unstable_stableTo_def Let_def split: option.splits if_splits prod.splits)

lemma rl_snaps_maybeCommit:
  assumes "raftLog_maybeCommit rl to = Inr (b, rl')"
  shows "rl_snaps rl' \<subseteq> rl_snaps rl"
proof (cases "to > rl_committed rl")
  case True
  then obtain last snap ents u where
    S: "unstable_stableTo (rl_unstable rl) (min to last) = Inr (snap, ents, u)"
    and R: "rl_unstable rl' = u"
      "ms_snapshot (rl_storage rl') = (case snap of Some s \<Rightarrow> s | None \<Rightarrow> ms_snapshot (rl_storage rl))"
    using assms
    by (auto simp: raftLog_maybeCommit_def InMemStorage_ApplySnapshot_def Let_def
        dest!: ms_Append_snapshot split: if_splits option.splits)
  show ?thesis
    using R unstable_stableTo_snapshot [OF S] by (auto simp: rl_snaps_def split: option.splits)
next
  case False
  then show ?thesis using assms by (simp add: raftLog_maybeCommit_def)
qed

lemma rl_snaps_unstable:
  "u_snapshot u = u_snapshot (rl_unstable rl) \<Longrightarrow> rl_snaps (rl\<lparr>rl_unstable := u\<rparr>) = rl_snaps rl"
  by (simp add: rl_snaps_def)

lemma rl_snaps_append: "raftLog_append rl ents = Inr rl' \<Longrightarrow> rl_snaps rl' = rl_snaps rl"
  by (auto simp: raftLog_append_def rl_snaps_unstable dest!: unstable_append_snapshot split: if_splits)

lemma rl_snaps_maybeAppend_loop:
  "raftLog_maybeAppend_loop rl l c ents = Inr (i, b, rl') \<Longrightarrow> rl_snaps rl' \<subseteq> rl_snaps rl"
proof (induction ents)
  case (Cons e es)
  then show ?case
    by (auto split: if_splits dest!: unstable_append_snapshot rl_snaps_maybeCommit simp: rl_snaps_unstable)
qed simp

lemma rl_snaps_maybeAppend:
  "raftLog_maybeAppend rl idx tm c ents = Inr (i, b, rl') \<Longrightarrow> rl_snaps rl' \<subseteq> rl_snaps rl"
  by (auto simp: raftLog_maybeAppend_def Let_def dest: rl_snaps_maybeAppend_loop split: if_splits)

section \<open>Quiet steps\<close>

definition quiet :: "u64 set \<Rightarrow> (MessageType \<Rightarrow> bool \<Rightarrow> bool) \<Rightarrow> raft \<Rightarrow> raft \<Rightarrow> bool" where
  "quiet N P r r' \<longleftrightarrow>
     r_id r' = r_id r \<and> r_Term r' = r_Term r \<and> r_Vote r' = r_Vote r \<and> r_state r' = r_state r \<and>
     r_votes r' = r_votes r \<and> r_tick r' = r_tick r \<and> r_advance r' = r_advance r \<and> member_ok N r' \<and>
     (\<exists>ms. r_outc r' = r_outc r @ ms \<and>
        (\<forall>m \<in> set ms. msg_From m = r_id r \<and> msg_To m \<in> N \<and> msg_Term m = r_Term r \<and>
           (\<forall>s. msg_Snap m = Some s \<longrightarrow> snap_ok N s) \<and> P (msg_Type m) (msg_Reject m)))"

lemma quiet_refl: "member_ok N r \<Longrightarrow> quiet N P r r"
  by (simp add: quiet_def)

lemma quiet_trans: "quiet N P r r' \<Longrightarrow> quiet N P r' r'' \<Longrightarrow> quiet N P r r''"
  unfolding quiet_def by (auto simp: Ball_def)

lemma quiet_member: "quiet N P r r' \<Longrightarrow> member_ok N r'"
  by (simp add: quiet_def)

lemma quiet_field [intro]:
  "quiet N P r0 r \<Longrightarrow> quiet N P r0 (r\<lparr>r_electionElapsed := x\<rparr>)"
  "quiet N P r0 r \<Longrightarrow> quiet N P r0 (r\<lparr>r_heartbeatElapsed := x\<rparr>)"
  "quiet N P r0 r \<Longrightarrow> quiet N P r0 (r\<lparr>r_leader := l\<rparr>)"
  "quiet N P r0 r \<Longrightarrow> quiet N P r0 (r\<lparr>r_pendingConf := b\<rparr>)"
  "quiet N P r0 r \<Longrightarrow> quiet N P r0 (r\<lparr>r_Commit := c\<rparr>)"
  by (auto simp: quiet_def member_ok_def)

lemma quiet_logs: "quiet N P r0 r \<Longrightarrow> rl_snaps rl \<subseteq> rl_snaps (r_logs r) \<Longrightarrow> quiet N P r0 (r\<lparr>r_logs := rl\<rparr>)"
  by (auto simp: quiet_def member_ok_def)

lemma quiet_peers: "quiet N P r0 r \<Longrightarrow> keys ps = keys (r_peers r) \<Longrightarrow> quiet N P r0 (r\<lparr>r_peers := ps\<rparr>)"
  by (auto simp: quiet_def member_ok_def)

lemma quiet_peer_update:
  "quiet N P r0 r \<Longrightarrow> map_of (r_peers r) k = Some p \<Longrightarrow>
   quiet N P r0 (r\<lparr>r_peers := AList.update k p' (r_peers r)\<rparr>)"
  by (rule quiet_peers) (auto simp: keys_update_in dest: map_of_in_keys)

lemma quiet_sendTo:
  assumes "quiet N P r0 r" "P (msg_Type m) (msg_Reject m)" "\<forall>s. msg_Snap m = Some s \<longrightarrow> snap_ok N s"
  shows "quiet N P r0 (raft_sendTo r k m)"
proof (cases "map_of (r_peers r) k")
  case None
  then show ?thesis using assms(1) by (simp add: raft_sendTo_def)
next
  case (Some p)
  have "k \<in> N" using map_of_in_keys [OF Some] assms(1) by (auto simp: quiet_def member_ok_def)
  then show ?thesis
    using assms Some by (auto simp: raft_sendTo_def quiet_def member_ok_def)
qed

lemma quiet_broadcast_loop:
  assumes "quiet N P r0 r" "P (msg_Type m) (msg_Reject m)" "\<forall>s. msg_Snap m = Some s \<longrightarrow> snap_ok N s"
  shows "quiet N P r0 (raft_broadcast_loop r m ids)"
  using assms(1)
proof (induction ids arbitrary: r)
  case (Cons k ids)
  then show ?case using quiet_sendTo [OF Cons.prems assms(2,3)] by simp
qed simp

lemma quiet_broadcast:
  "quiet N P r0 r \<Longrightarrow> P (msg_Type m) (msg_Reject m) \<Longrightarrow> \<forall>s. msg_Snap m = Some s \<longrightarrow> snap_ok N s \<Longrightarrow>
   quiet N P r0 (raft_broadcast r m)"
  unfolding raft_broadcast_def by (rule quiet_broadcast_loop)

lemma broadcast_alone: "set ids \<subseteq> {r_id r} \<Longrightarrow> raft_broadcast_loop r m ids = r"
  by (induction ids) auto

lemma quiet_sendAppend:
  assumes "quiet N P r0 r" "raft_sendAppend sz r to = Inr r'" "P MsgApp False" "P MsgSnap False"
  shows "quiet N P r0 r'"
proof (cases "map_of (r_peers r) to")
  case None
  then show ?thesis using assms by (simp add: raft_sendAppend_def)
next
  case (Some p)
  note q = quiet_peer_update [OF assms(1) Some]
  show ?thesis
  proof (cases "Progress_isPaused p \<or> \<not> pr_alive p")
    case True
    then show ?thesis using assms(1,2) Some by (simp add: raft_sendAppend_def)
  next
    case False
    have snap: "snap_ok N s" if "raftLog_snapshot (r_logs r) = Inr s" for s
      using that assms(1)
      by (auto simp: raftLog_snapshot_def InMemStorage_Snapshot_def must_def quiet_def member_ok_def rl_snaps_def
          split: option.splits)
    from assms(2) Some False obtain t es where
      te: "raftLog_term (r_logs r) (pr_next p - 1) = Inr t"
        "raftLog_entries sz (r_logs r) (pr_next p) (r_maxSizePerMsg r) = Inr es"
      by (auto simp: raft_sendAppend_def)
    show ?thesis
      using assms(2-4) Some False te q snap
      by (auto simp: raft_sendAppend_def Let_def intro!: quiet_sendTo split: sum.splits if_splits)
  qed
qed

lemma quiet_bcastAppend_loop:
  assumes "quiet N P r0 r" "raft_bcastAppend_loop sz r ids = Inr r'" "P MsgApp False" "P MsgSnap False"
  shows "quiet N P r0 r'"
  using assms(1,2)
proof (induction ids arbitrary: r)
  case (Cons k ids)
  show ?case
  proof (cases "k = r_id r")
    case True
    then show ?thesis using Cons by simp
  next
    case False
    then obtain r1 where r1: "raft_sendAppend sz r k = Inr r1" "raft_bcastAppend_loop sz r1 ids = Inr r'"
      using Cons.prems(2) by auto
    show ?thesis by (rule Cons.IH [OF quiet_sendAppend [OF Cons.prems(1) r1(1) assms(3,4)] r1(2)])
  qed
qed simp

lemma quiet_bcastAppend:
  "quiet N P r0 r \<Longrightarrow> raft_bcastAppend sz r = Inr r' \<Longrightarrow> P MsgApp False \<Longrightarrow> P MsgSnap False \<Longrightarrow> quiet N P r0 r'"
  unfolding raft_bcastAppend_def by (rule quiet_bcastAppend_loop)


lemma raft_restore_peers_keys:
  "set (keys (raft_restore_peers self l ps ns)) = set (keys ps) \<union> set ns"
  "distinct (keys ps) \<Longrightarrow> distinct (keys (raft_restore_peers self l ps ns))"
  by (induction ns arbitrary: ps) (auto simp: keys_update distinct_keys_update)

lemma quiet_maybeRestore:
  assumes "quiet N P r0 r" "raft_maybeRestore r s = Inr (b, r')" "snap_ok N s"
  shows "quiet N P r0 r'"
proof (cases "snap_Index s \<le> rl_committed (r_logs r)")
  case True
  then show ?thesis using assms by (simp add: raft_maybeRestore_def)
next
  case False
  then have "snap_Index s \<noteq> 0" by auto
  then obtain c where c: "snap_Conf s = Some c" "set (conf_Nodes c) = N"
    using assms(3) by (auto simp: snap_ok_def)
  obtain mt where mt: "raftLog_matchTerm (r_logs r) (snap_Index s) (snap_Term s) = Inr mt"
    using assms(2) False by (auto simp: raft_maybeRestore_def)
  have snaps: "rl_snaps (raftLog_restore (r_logs r) s) \<subseteq> insert s (rl_snaps (r_logs r))"
    by (auto simp: rl_snaps_def raftLog_restore_def unstable_restore_def)
  show ?thesis
  proof (cases mt)
    case True
    then show ?thesis
      using assms(1,2) False mt by (auto simp: raft_maybeRestore_def intro!: quiet_logs dest: rl_snaps_maybeCommit)
  next
    case nm: False
    have "member_ok N r'"
      using assms(1-3) False mt nm c snaps raft_restore_peers_keys [where ps = "[]"]
      by (auto simp: raft_maybeRestore_def quiet_def member_ok_def Let_def split: if_splits)
    then show ?thesis
      using assms(1,2) False mt nm c
      by (auto simp: raft_maybeRestore_def quiet_def Let_def split: if_splits)
  qed
qed

lemma quiet_handleHeartbeat:
  assumes "quiet N P r0 r" "raft_handleHeartbeat r m = Inr r'" "P MsgHeartbeatResp False"
  shows "quiet N P r0 r'"
  using assms by (auto simp: raft_handleHeartbeat_def intro!: quiet_sendTo quiet_logs dest: rl_snaps_maybeCommit)

lemma quiet_handleAppend:
  assumes "quiet N P r0 r" "raft_handleAppend r m = Inr r'" "\<And>b. P MsgAppResp b"
  shows "quiet N P r0 r'"
  using assms by (auto simp: raft_handleAppend_def intro!: quiet_sendTo quiet_logs dest: rl_snaps_maybeAppend)

lemma quiet_handleSnapshot:
  assumes "quiet N P r0 r" "raft_handleSnapshot r m = Inr r'" "P MsgAppResp False"
    "\<forall>s. msg_Snap m = Some s \<longrightarrow> snap_ok N s"
  shows "quiet N P r0 r'"
  using assms quiet_maybeRestore [OF assms(1)]
  by (auto simp: raft_handleSnapshot_def intro!: quiet_sendTo split: option.splits)

lemma quiet_maybeCommit: "quiet N P r0 r \<Longrightarrow> raft_maybeCommit r = Inr (b, r') \<Longrightarrow> quiet N P r0 r'"
  by (auto simp: raft_maybeCommit_def Let_def intro!: quiet_logs dest: rl_snaps_maybeCommit)

section \<open>Which messages a role sends without changing election state\<close>

definition reply_msg :: "MessageType \<Rightarrow> bool \<Rightarrow> bool" where
  "reply_msg t rej \<longleftrightarrow> t = MsgAppResp \<or> t = MsgHeartbeatResp \<or> t = MsgVoteResp \<and> rej"

definition lead_msg :: "MessageType \<Rightarrow> bool \<Rightarrow> bool" where
  "lead_msg t rej \<longleftrightarrow> t = MsgApp \<or> t = MsgSnap \<or> t = MsgHeartbeat \<or> reply_msg t rej"

lemmas msg_kinds = reply_msg_def lead_msg_def

lemma lead_msg_app: "lead_msg MsgApp b" "lead_msg MsgSnap b"
  by (simp_all add: msg_kinds)

lemma quiet_leader_AppResp:
  assumes "quiet N lead_msg r0 r" "raft_advanceLeader sz r m = Inr r'" "msg_Type m = MsgAppResp"
  shows "quiet N lead_msg r0 r'"
proof -
  from assms(2,3) obtain p where p: "map_of (r_peers r) (msg_From m) = Some p"
    by (auto simp: raft_advanceLeader_def split: option.splits)
  note q = quiet_peer_update [OF assms(1) p]
  show ?thesis
  proof (cases "msg_Reject m")
    case True
    then show ?thesis
      using assms(2,3) p quiet_sendAppend [OF q _ lead_msg_app]
      by (simp add: raft_advanceLeader_def Let_def)
  next
    case False
    obtain upd p1 where u: "Progress_maybeUpdate p (msg_PrevIndex m) = (upd, p1)" by fastforce
    show ?thesis
    proof (cases upd)
      case True
      then obtain p2 b r1 where
        "raft_maybeCommit (r\<lparr>r_peers := AList.update (msg_From m) p2 (r_peers r)\<rparr>) = Inr (b, r1)"
        "raft_sendAppend sz r1 (msg_From m) = Inr r'"
        using assms(2,3) p u False by (auto simp: raft_advanceLeader_def Let_def)
      then show ?thesis using quiet_sendAppend [OF quiet_maybeCommit [OF q] _ lead_msg_app] by blast
    next
      case nu: False
      then show ?thesis using assms(2,3) p u False q by (auto simp: raft_advanceLeader_def Let_def)
    qed
  qed
qed

lemma quiet_leader_Prop:
  assumes "quiet N lead_msg r0 r" "raft_advanceLeader sz r m = Inr r'" "msg_Type m = MsgProp"
  shows "quiet N lead_msg r0 r'"
proof (cases "map_of (r_peers r) (r_id r)")
  case None
  then show ?thesis using assms by (simp add: raft_advanceLeader_def)
next
  case (Some p)
  then obtain logs where l: "raftLog_append (r_logs r) (msg_Entries m) = Inr logs"
    "raft_bcastAppend sz (r\<lparr>r_logs := logs\<rparr>) = Inr r'"
    using assms(2,3) by (auto simp: raft_advanceLeader_def)
  have "quiet N lead_msg r0 (r\<lparr>r_logs := logs\<rparr>)"
    by (rule quiet_logs [OF assms(1)]) (simp add: rl_snaps_append [OF l(1)])
  then show ?thesis by (rule quiet_bcastAppend [OF _ l(2) lead_msg_app])
qed

lemma quiet_advanceLeader:
  assumes "quiet N lead_msg r0 r" "raft_advanceLeader sz r m = Inr r'"
  shows "quiet N lead_msg r0 r'"
proof (cases "msg_Type m")
  case MsgHeartbeatResp
  then obtain p where p: "map_of (r_peers r) (msg_From m) = Some p"
    using assms(2) by (simp add: raft_advanceLeader_def split: option.splits)
  show ?thesis using quiet_peer_update [OF assms(1) p] assms(2) MsgHeartbeatResp p
    by (simp add: raft_advanceLeader_def) (metis)
next
  case MsgVote
  have "quiet N lead_msg r0 (raft_sendTo r (msg_From m) (zero_Message\<lparr>msg_Type := MsgVoteResp, msg_Reject := True\<rparr>))"
    by (rule quiet_sendTo [OF assms(1)]) (simp_all add: msg_kinds zero_Message_def)
  then show ?thesis using assms(2) MsgVote by (simp add: raft_advanceLeader_def)
next
  case MsgAppResp
  then show ?thesis by (rule quiet_leader_AppResp [OF assms])
next
  case MsgProp
  then show ?thesis by (rule quiet_leader_Prop [OF assms])
qed (use assms in \<open>simp_all add: raft_advanceLeader_def\<close>)

end
