(* ===== verification/RaftElection.thy ===== *)
theory RaftElection
  imports RaftQuiet
begin

text \<open>
  One instance of \<open>raft.go\<close> refines the node of \<open>ElectionSpec\<close>: the relation \<open>erel\<close> ties the
  record \<open>raft\<close> to an abstract node, and every event of the main loop is a sequence of
  abstract actions that keeps it.
\<close>

section \<open>The simulation relation\<close>

primrec role_tick :: "StateType \<Rightarrow> TickFunc" where
  "role_tick StateFollower = TickElection"
| "role_tick StateCandidate = TickElection"
| "role_tick StateLeader = TickHeartbeat"

primrec role_advance :: "StateType \<Rightarrow> AdvanceFunc" where
  "role_advance StateFollower = AdvanceFollower"
| "role_advance StateCandidate = AdvanceCandidate"
| "role_advance StateLeader = AdvanceLeader"

definition role_ok :: "raft \<Rightarrow> bool" where
  "role_ok r \<longleftrightarrow> r_tick r = role_tick (r_state r) \<and> r_advance r = role_advance (r_state r)"

definition leader_type :: "MessageType \<Rightarrow> bool" where
  "leader_type t \<longleftrightarrow> t = MsgApp \<or> t = MsgSnap \<or> t = MsgHeartbeat"

text \<open>What a message on the network says about its sender.\<close>

definition facts_of :: "Message \<Rightarrow> fact set" where
  "facts_of m = (if leader_type (msg_Type m) then {Led (unat (msg_Term m))}
     else if msg_Type m = MsgVoteResp \<and> \<not> msg_Reject m then {Granted (unat (msg_Term m)) (msg_To m)} else {})"

definition sent_ok :: "u64 set \<Rightarrow> u64 \<Rightarrow> enode \<Rightarrow> Message \<Rightarrow> bool" where
  "sent_ok N n e m \<longleftrightarrow> msg_From m = n \<and> msg_To m \<in> N \<and> (\<forall>s. msg_Snap m = Some s \<longrightarrow> snap_ok N s) \<and>
     facts_of m \<subseteq> e_sent e"

definition votes_ok :: "u64 set \<Rightarrow> enode \<Rightarrow> (u64 \<times> bool) list \<Rightarrow> bool" where
  "votes_ok N e vs \<longleftrightarrow> distinct (keys vs) \<and> (\<forall>v. map_of vs v = Some True \<longrightarrow> v \<in> e_yes e) \<and> e_yes e \<subseteq> N"

definition erel :: "u64 set \<Rightarrow> u64 \<Rightarrow> enode \<Rightarrow> raft \<Rightarrow> bool" where
  "erel N n e r \<longleftrightarrow>
     r_id r = n \<and> member_ok N r \<and> role_ok r \<and>
     e_term e = unat (r_Term r) \<and> e_vote e = r_Vote r \<and> e_role e = r_state r \<and>
     (r_state r = StateCandidate \<longrightarrow> votes_ok N e (r_votes r)) \<and>
     (r_state r = StateLeader \<longrightarrow> Led (unat (r_Term r)) \<in> e_sent e) \<and>
     (\<forall>m \<in> set (r_outc r). sent_ok N n e m)"

lemma erelD:
  assumes "erel N n e r"
  shows "r_id r = n" "member_ok N r" "role_ok r" "e_term e = unat (r_Term r)" "e_vote e = r_Vote r"
    "e_role e = r_state r"
  using assms by (simp_all add: erel_def)

lemma sent_ok_mono: "sent_ok N n e m \<Longrightarrow> e_sent e \<subseteq> e_sent e' \<Longrightarrow> sent_ok N n e' m"
  by (auto simp: sent_ok_def)

lemma erel_member: "erel N n e r \<Longrightarrow> n \<in> N \<Longrightarrow> \<exists>p. map_of (r_peers r) n = Some p"
  by (metis erelD(2) map_of_None_keys member_ok_def not_None_eq)

lemma raft_q_card: "member_ok N r \<Longrightarrow> raft_q r = card N div 2 + 1"
  unfolding raft_q_def member_ok_def by (metis distinct_card length_keys)

lemma member_ok_finite: "member_ok N r \<Longrightarrow> finite N"
  unfolding member_ok_def by (metis List.finite_set)

lemma facts_of_reply: "reply_msg (msg_Type m) (msg_Reject m) \<Longrightarrow> facts_of m = {}"
  by (auto simp: facts_of_def leader_type_def msg_kinds)

lemma facts_of_lead: "lead_msg (msg_Type m) (msg_Reject m) \<Longrightarrow> facts_of m \<subseteq> {Led (unat (msg_Term m))}"
  by (auto simp: facts_of_def leader_type_def msg_kinds)

lemma erel_quiet_gen:
  assumes "erel N n e r" "quiet N P r r'"
    "\<And>m :: Message. P (msg_Type m) (msg_Reject m) \<Longrightarrow> msg_Term m = r_Term r \<Longrightarrow> facts_of m \<subseteq> e_sent e"
  shows "erel N n e r'"
proof -
  have "sent_ok N n e m" if m: "m \<in> set (r_outc r')" for m
  proof (cases "m \<in> set (r_outc r)")
    case True
    then show ?thesis using assms(1) by (simp add: erel_def)
  next
    case False
    then have "msg_From m = r_id r" "msg_To m \<in> N" "msg_Term m = r_Term r"
      "\<forall>s. msg_Snap m = Some s \<longrightarrow> snap_ok N s" "P (msg_Type m) (msg_Reject m)"
      using assms(2) m by (auto simp: quiet_def)
    then show ?thesis using assms(3) erelD(1) [OF assms(1)] by (simp add: sent_ok_def)
  qed
  then show ?thesis using assms(1,2) by (simp add: erel_def quiet_def role_ok_def)
qed

lemma erel_quiet: "erel N n e r \<Longrightarrow> quiet N reply_msg r r' \<Longrightarrow> erel N n e r'"
  by (erule (1) erel_quiet_gen) (simp add: facts_of_reply)

lemma erel_quiet_lead:
  assumes "erel N n e r" "quiet N lead_msg r r'" "r_state r = StateLeader"
  shows "erel N n e r'"
proof (rule erel_quiet_gen [OF assms(1,2)])
  fix m :: Message
  assume "lead_msg (msg_Type m) (msg_Reject m)" "msg_Term m = r_Term r"
  then show "facts_of m \<subseteq> e_sent e"
    using facts_of_lead [of m] assms(1,3) by (auto simp: erel_def)
qed

section \<open>Changing roles\<close>

lemma raft_reset_fields:
  assumes "raft_reset r t = Inr r'"
  shows "r_id r' = r_id r" "r_state r' = r_state r" "r_outc r' = r_outc r" "r_logs r' = r_logs r"
    "keys (r_peers r') = keys (r_peers r)" "r_votes r' = []" "r_Commit r' = r_Commit r"
    "r_Term r' = max (r_Term r) t" "r_Vote r' = (if t > r_Term r then NoneId else r_Vote r)"
  using assms by (auto simp: raft_reset_def Let_def keys_def max_def split: if_splits)

lemma member_ok_cong: "keys (r_peers r') = keys (r_peers r) \<Longrightarrow> r_logs r' = r_logs r \<Longrightarrow> member_ok N r' = member_ok N r"
  by (simp add: member_ok_def)

lemma raft_becomeFollower_fields:
  assumes "raft_becomeFollower r t l = Inr r'"
  shows "r_id r' = r_id r" "r_state r' = StateFollower" "r_outc r' = r_outc r" "r_logs r' = r_logs r"
    "r_Term r' = max (r_Term r) t" "r_Vote r' = (if t > r_Term r then NoneId else r_Vote r)"
    "role_ok r'" "member_ok N r' = member_ok N r" "r_Commit r' = r_Commit r"
  using assms by (auto simp: raft_becomeFollower_def role_ok_def raft_reset_fields intro!: member_ok_cong)

lemma raft_becomeCandidate_fields:
  assumes "raft_becomeCandidate r = Inr r'" "unat (r_Term r) + 1 < 2 ^ 64"
  shows "r_id r' = r_id r" "r_state r' = StateCandidate" "r_outc r' = r_outc r" "r_logs r' = r_logs r"
    "unat (r_Term r') = unat (r_Term r) + 1" "r_Vote r' = r_id r" "r_votes r' = [(r_id r, True)]"
    "role_ok r'" "member_ok N r' = member_ok N r"
  using assms
  by (auto simp: raft_becomeCandidate_def role_ok_def raft_reset_fields unat_max_u64 unat_Suc_u64
      intro!: member_ok_cong)

lemma raft_becomeLeader_fields:
  assumes "raft_becomeLeader r = Inr r'" "unat (r_Term r) + 1 < 2 ^ 64"
  shows "r_id r' = r_id r" "r_state r' = StateLeader" "r_outc r' = r_outc r" "r_logs r' = r_logs r"
    "unat (r_Term r') = unat (r_Term r) + 1" "r_Vote r' = NoneId"
    "role_ok r'" "member_ok N r' = member_ok N r"
  using assms
  by (auto simp: raft_becomeLeader_def role_ok_def raft_reset_fields unat_max_u64 unat_Suc_u64
      word_less_nat_alt intro!: member_ok_cong)

lemma erel_becomeFollower:
  assumes "erel N n e r" "raft_becomeFollower r t l = Inr r'" "r_Term r \<le> t"
    "t = r_Term r \<Longrightarrow> r_state r \<noteq> StateLeader"
  shows "\<exists>e'. (enode_step N G n)\<^sup>*\<^sup>* e e' \<and> erel N n e' r'"
proof -
  note F = raft_becomeFollower_fields [OF assms(2)]
  note E = erelD [OF assms(1)]
  consider "r_Term r < t" | "t = r_Term r" "r_state r = StateCandidate" | "t = r_Term r" "r_state r = StateFollower"
    using assms(3,4) by (metis StateType.exhaust order_le_less)
  then show ?thesis
  proof cases
    case 1
    define e' where "e' = e\<lparr>e_term := unat t, e_vote := NoneId, e_role := StateFollower, e_yes := {}\<rparr>"
    have "enode_step N G n e e'"
      unfolding e'_def by (rule enode_step.bump) (use 1 E(4) in \<open>simp add: word_less_nat_alt\<close>)
    moreover have "erel N n e' r'"
      using assms(1) F 1 by (simp add: erel_def e'_def sent_ok_def)
    ultimately show ?thesis by blast
  next
    case 2
    have "enode_step N G n e (e\<lparr>e_role := StateFollower, e_yes := {}\<rparr>)"
      by (rule enode_step.demote) (use 2 E(6) in simp)
    moreover have "erel N n (e\<lparr>e_role := StateFollower, e_yes := {}\<rparr>) r'"
      using assms(1) F 2 by (simp add: erel_def sent_ok_def)
    ultimately show ?thesis by blast
  next
    case 3
    then have "erel N n e r'" using assms(1) F by (simp add: erel_def)
    then show ?thesis by blast
  qed
qed

lemma erel_becomeCandidate:
  assumes "erel N n e r" "raft_becomeCandidate r = Inr r'" "r_state r \<noteq> StateLeader"
    "unat (r_Term r) + 1 < 2 ^ 64" "n \<in> N"
  shows "\<exists>e'. enode_step N G n e e' \<and> erel N n e' r'"
proof -
  note F = raft_becomeCandidate_fields [OF assms(2,4)]
  define e' where "e' = e\<lparr>e_term := e_term e + 1, e_vote := n, e_role := StateCandidate, e_yes := {n},
      e_sent := insert (Asked (e_term e + 1)) (e_sent e)\<rparr>"
  have "enode_step N G n e e'"
    unfolding e'_def by (rule enode_step.campaign) (use assms(3) erelD(6) [OF assms(1)] in simp)
  moreover have "sent_ok N n e' m" if "m \<in> set (r_outc r')" for m
    by (rule sent_ok_mono [of _ _ e]) (use that F assms(1) in \<open>auto simp: erel_def e'_def\<close>)
  then have "erel N n e' r'"
    using assms(1,5) F by (simp add: erel_def votes_ok_def e'_def)
  ultimately show ?thesis by blast
qed

lemma erel_becomeLeader:
  assumes "erel N n e r" "raft_becomeLeader r = Inr r'" "r_state r = StateCandidate"
    "unat (r_Term r) + 1 < 2 ^ 64" "majority N (e_yes e)"
  shows "\<exists>e'. enode_step N G n e e' \<and> erel N n e' r'"
proof -
  note F = raft_becomeLeader_fields [OF assms(2,4)]
  define e' where "e' = e\<lparr>e_term := e_term e + 1, e_vote := NoneId, e_role := StateLeader, e_yes := {},
      e_sent := insert (Led (e_term e + 1)) (e_sent e)\<rparr>"
  have "enode_step N G n e e'"
    unfolding e'_def by (rule enode_step.win) (use assms(3,5) erelD(6) [OF assms(1)] in simp_all)
  moreover have "sent_ok N n e' m" if "m \<in> set (r_outc r')" for m
    by (rule sent_ok_mono [of _ _ e]) (use that F assms(1) in \<open>auto simp: erel_def e'_def\<close>)
  then have "erel N n e' r'"
    using assms(1,5) F by (simp add: erel_def e'_def)
  ultimately show ?thesis by blast
qed

section \<open>Counting votes\<close>

lemma votes_count:
  assumes "distinct (keys vs)"
  shows "length (filter snd vs) = card {v. map_of vs v = Some True}"
proof -
  have "{v. map_of vs v = Some True} = fst ` set (filter snd vs)"
    using assms by (force simp: keys_def map_of_eq_Some_iff)
  moreover have "distinct (map fst (filter snd vs))"
    using assms by (simp add: keys_def distinct_map_filter)
  ultimately show ?thesis by (metis distinct_card length_map set_map)
qed

lemma votes_majority:
  assumes "votes_ok N e (r_votes r)" "member_ok N r" "raft_q r \<le> length (filter snd (r_votes r))"
  shows "majority N (e_yes e)"
proof -
  have "{v. map_of (r_votes r) v = Some True} \<subseteq> e_yes e" "finite (e_yes e)"
    using assms(1) member_ok_finite [OF assms(2)] by (auto simp: votes_ok_def intro: finite_subset)
  then have "length (filter snd (r_votes r)) \<le> card (e_yes e)"
    using votes_count card_mono assms(1) by (metis votes_ok_def)
  then show ?thesis
    using assms raft_q_card [OF assms(2)] member_ok_finite [OF assms(2)] by (simp add: majority_def votes_ok_def)
qed

lemma erel_poll:
  assumes "erel N n e r" "raft_poll r v g = (cnt, r')" "r_state r = StateCandidate" "v \<in> N"
    "g \<Longrightarrow> G v (unat (r_Term r))"
  shows "\<exists>e'. (enode_step N G n)\<^sup>*\<^sup>* e e' \<and> erel N n e' r' \<and> cnt = length (filter snd (r_votes r'))
    \<and> r_state r' = StateCandidate \<and> r_Term r' = r_Term r"
proof (cases "map_of (r_votes r) v = None")
  case False
  then have "r' = r" "cnt = length (filter snd (r_votes r'))"
    using assms(2) by (auto simp: raft_poll_def Let_def)
  then show ?thesis using assms(1,3) by blast
next
  case True
  then have r': "r' = r\<lparr>r_votes := AList.update v g (r_votes r)\<rparr>" "cnt = length (filter snd (r_votes r'))"
    using assms(2) by (auto simp: raft_poll_def Let_def)
  have vo: "votes_ok N e (r_votes r)" using assms(1,3) by (simp add: erel_def)
  define e' where "e' = (if g then e\<lparr>e_yes := insert v (e_yes e)\<rparr> else e)"
  have "enode_step N G n e (e\<lparr>e_yes := insert v (e_yes e)\<rparr>)" if g
    by (rule enode_step.collect) (use assms that erelD [OF assms(1)] in simp_all)
  then have "(enode_step N G n)\<^sup>*\<^sup>* e e'" by (auto simp: e'_def)
  moreover have "votes_ok N e' (r_votes r')"
    using vo assms(4) by (auto simp: votes_ok_def r' e'_def distinct_keys_update update_conv')
  then have "erel N n e' r'"
    using assms(1) by (simp add: erel_def r' e'_def member_ok_def role_ok_def sent_ok_def)
  ultimately show ?thesis using r' assms(3) by auto
qed

section \<open>Events\<close>

text \<open>What a node may assume of a message it receives.\<close>

definition incoming_ok :: "u64 set \<Rightarrow> (u64 \<Rightarrow> nat \<Rightarrow> bool) \<Rightarrow> Message \<Rightarrow> bool" where
  "incoming_ok N G m \<longleftrightarrow> msg_From m \<in> N \<and> msg_From m \<noteq> NoneId \<and>
     (\<forall>s. msg_Snap m = Some s \<longrightarrow> snap_ok N s) \<and>
     (msg_Type m = MsgVoteResp \<and> \<not> msg_Reject m \<longrightarrow> G (msg_From m) (unat (msg_Term m)))"

lemma erel_campaign:
  assumes "erel N n e r" "raft_campaign r = Inr r'" "r_state r \<noteq> StateLeader"
    "unat (r_Term r) + 2 < 2 ^ 64" "n \<in> N"
  shows "\<exists>e'. (enode_step N G n)\<^sup>*\<^sup>* e e' \<and> erel N n e' r'"
proof -
  from assms(2) obtain r1 cnt r2 r3 m where
    r1: "raft_becomeCandidate r = Inr r1" and p: "raft_poll r1 (r_id r1) True = (cnt, r2)" and
    r3: "(if raft_q r1 \<le> cnt then raft_becomeLeader r2 else Inr r2) = Inr r3" and
    r': "r' = raft_broadcast r3 m" "msg_Type m = MsgVote" "msg_Snap m = None"
    by (cases "raft_becomeCandidate r"; auto simp: raft_campaign_def Let_def split: prod.splits)
  have lt: "unat (r_Term r) + 1 < 2 ^ 64" using assms(4) by simp
  note F = raft_becomeCandidate_fields [OF r1 lt]
  obtain e1 where e1: "enode_step N G n e e1" "erel N n e1 r1"
    using erel_becomeCandidate [OF assms(1) r1 assms(3) lt assms(5)] by blast
  have r2: "r2 = r1" "cnt = 1" using p F by (auto simp: raft_poll_def Let_def)
  have "\<exists>e'. (enode_step N G n)\<^sup>*\<^sup>* e1 e' \<and> erel N n e' r3"
  proof (cases "raft_q r1 \<le> cnt")
    case True
    have "majority N (e_yes e1)"
      by (rule votes_majority [of _ _ r1]) (use e1(2) True r2 F in \<open>auto simp: erel_def\<close>)
    then show ?thesis
      using erel_becomeLeader [OF e1(2), of r3 G] True r3 r2 F assms(4) by (auto intro: r_into_rtranclp)
  next
    case False
    then show ?thesis using e1(2) r3 r2 by auto
  qed
  then obtain e' where e': "(enode_step N G n)\<^sup>*\<^sup>* e1 e'" "erel N n e' r3" by blast
  have "quiet N (\<lambda>t b. t = MsgVote) r3 r'"
    unfolding r'(1) by (rule quiet_broadcast [OF quiet_refl]) (use erelD(2) [OF e'(2)] r' in auto)
  then have "erel N n e' r'"
    by (rule erel_quiet_gen [OF e'(2)]) (simp add: facts_of_def leader_type_def)
  then show ?thesis using e1(1) e'(1) by (meson converse_rtranclp_into_rtranclp)
qed

lemma erel_tick:
  assumes "erel N n e r" "raft_tick r rnd = Inr r'" "unat (r_Term r) + 2 < 2 ^ 64" "n \<in> N"
  shows "\<exists>e'. (enode_step N G n)\<^sup>*\<^sup>* e e' \<and> erel N n e' r'"
proof (cases "r_state r = StateLeader")
  case True
  then have "r' = raft_tickHeartbeat r"
    using erelD(3) [OF assms(1)] assms(2) by (auto simp: role_ok_def raft_tick_def)
  moreover have "quiet N lead_msg r (raft_tickHeartbeat r)"
    using quiet_refl [OF erelD(2) [OF assms(1)], of lead_msg] unfolding raft_tickHeartbeat_def Let_def
    by (auto simp: msg_kinds keys_def intro!: quiet_broadcast quiet_peers)
  ultimately show ?thesis using erel_quiet_lead [OF assms(1)] True by blast
next
  case False
  define r1 where "r1 = r\<lparr>r_electionElapsed := wrap_int64 (r_electionElapsed r + 1)\<rparr>"
  have "quiet N reply_msg r r1"
    using quiet_refl [OF erelD(2) [OF assms(1)]] by (auto simp: r1_def)
  then have e1: "erel N n e r1" by (rule erel_quiet [OF assms(1)])
  have "raft_campaign r1 = Inr r' \<or> r' = r1"
    using False erelD(3) [OF assms(1)] assms(2)
    by (cases "r_state r") (auto simp: role_ok_def raft_tick_def raft_tickElection_def Let_def r1_def split: if_splits)
  then show ?thesis
    using erel_campaign [OF e1] e1 False assms(3,4) by (auto simp: r1_def)
qed

lemma erel_grant:
  assumes "erel N n e r" "r_state r = StateFollower" "r_Vote r = NoneId \<or> r_Vote r = c" "c \<noteq> NoneId"
    "msg_Type m = MsgVoteResp" "\<not> msg_Reject m" "msg_Snap m = None"
    "r' = raft_sendTo (r\<lparr>r_electionElapsed := 0, r_Vote := c\<rparr>) c m"
  shows "\<exists>e'. (enode_step N G n)\<^sup>*\<^sup>* e e' \<and> erel N n e' r'"
proof -
  define e' where "e' = e\<lparr>e_vote := c, e_sent := insert (Granted (e_term e) c) (e_sent e)\<rparr>"
  define r1 where "r1 = r\<lparr>r_electionElapsed := 0, r_Vote := c\<rparr>"
  have "enode_step N G n e e'"
    unfolding e'_def by (rule enode_step.grant) (use assms(2-4) erelD [OF assms(1)] in auto)
  moreover have sent: "sent_ok N n e' m" if "m \<in> set (r_outc r)" for m
    by (rule sent_ok_mono [of _ _ e]) (use that assms(1) in \<open>auto simp: erel_def e'_def\<close>)
  have e1: "erel N n e' r1"
    using assms(1,2) sent by (simp add: erel_def e'_def r1_def member_ok_def role_ok_def)
  have "erel N n e' r'"
  proof (cases "map_of (r_peers r1) c")
    case None
    then show ?thesis using e1 assms(8) by (simp add: raft_sendTo_def r1_def)
  next
    case (Some p)
    then have "c \<in> N" using e1 by (metis erelD(2) map_of_in_keys member_ok_def)
    moreover have "Granted (unat (r_Term r)) c \<in> e_sent e'"
      using erelD(4) [OF assms(1)] by (simp add: e'_def)
    ultimately show ?thesis
      using e1 assms(5-8) Some unfolding r1_def
      by (simp add: erel_def raft_sendTo_def sent_ok_def facts_of_def leader_type_def member_ok_def role_ok_def)
  qed
  ultimately show ?thesis by blast
qed

lemma quiet_replyI:
  assumes "erel N n e r" "quiet N reply_msg r r'"
  shows "\<exists>e'. (enode_step N G n)\<^sup>*\<^sup>* e e' \<and> erel N n e' r'"
  using erel_quiet [OF assms] by blast

lemma erel_advanceFollower:
  assumes "erel N n e r" "raft_advanceFollower r m = Inr r'" "r_state r = StateFollower" "incoming_ok N G m"
  shows "\<exists>e'. (enode_step N G n)\<^sup>*\<^sup>* e e' \<and> erel N n e' r'"
proof -
  note q = quiet_refl [OF erelD(2) [OF assms(1)], of reply_msg]
  show ?thesis
  proof (cases "msg_Type m")
    case MsgApp
    then have h: "raft_handleAppend (r\<lparr>r_electionElapsed := 0\<rparr>) m = Inr r'"
      using assms(2) by (simp add: raft_advanceFollower_def)
    show ?thesis
      by (rule quiet_replyI [OF assms(1) quiet_handleAppend [OF quiet_field(1) [OF q] h]]) (simp add: msg_kinds)
  next
    case MsgSnap
    then have h: "raft_handleSnapshot (r\<lparr>r_electionElapsed := 0\<rparr>) m = Inr r'"
      using assms(2) by (simp add: raft_advanceFollower_def)
    show ?thesis
      by (rule quiet_replyI [OF assms(1) quiet_handleSnapshot [OF quiet_field(1) [OF q] h]])
         (use assms(4) in \<open>simp_all add: msg_kinds incoming_ok_def\<close>)
  next
    case MsgHeartbeat
    then have h: "raft_handleHeartbeat (r\<lparr>r_electionElapsed := 0, r_leader := msg_From m\<rparr>) m = Inr r'"
      using assms(2) by (simp add: raft_advanceFollower_def)
    show ?thesis
      by (rule quiet_replyI [OF assms(1) quiet_handleHeartbeat [OF quiet_field(3) [OF quiet_field(1) [OF q]] h]])
         (simp add: msg_kinds)
  next
    case MsgVote
    then consider
      "r_Vote r = NoneId \<or> r_Vote r = msg_From m"
        "r' = raft_sendTo (r\<lparr>r_electionElapsed := 0, r_Vote := msg_From m\<rparr>) (msg_From m)
                (zero_Message\<lparr>msg_Type := MsgVoteResp, msg_Reject := False\<rparr>)"
    | "r' = raft_sendTo r (msg_From m) (zero_Message\<lparr>msg_Type := MsgVoteResp, msg_Reject := True\<rparr>)"
      using assms(2) by (auto simp: raft_advanceFollower_def split: if_splits)
    then show ?thesis
    proof cases
      case 1
      then show ?thesis
        by (intro erel_grant [OF assms(1,3) 1(1) _ _ _ _ 1(2)]) (use assms(4) in \<open>simp_all add: incoming_ok_def\<close>)
    next
      case 2
      show ?thesis
        unfolding 2 by (rule quiet_replyI [OF assms(1) quiet_sendTo [OF q]]) (simp_all add: msg_kinds)
    qed
  qed (use assms in \<open>auto simp: raft_advanceFollower_def\<close>)
qed

lemma erel_candidate_VoteResp:
  assumes "erel N n e r" "raft_advanceCandidate sz r m = Inr r'" "msg_Type m = MsgVoteResp"
    "r_state r = StateCandidate" "incoming_ok N G m" "msg_Term m = r_Term r" "unat (r_Term r) + 1 < 2 ^ 64"
  shows "\<exists>e'. (enode_step N G n)\<^sup>*\<^sup>* e e' \<and> erel N n e' r'"
proof -
  obtain gr r1 where p: "raft_poll r (msg_From m) (\<not> msg_Reject m) = (gr, r1)" by fastforce
  obtain e1 where e1: "(enode_step N G n)\<^sup>*\<^sup>* e e1" "erel N n e1 r1" "gr = length (filter snd (r_votes r1))"
    "r_state r1 = StateCandidate" "r_Term r1 = r_Term r"
    using erel_poll [OF assms(1) p assms(4), of G] assms(3,5,6) by (auto simp: incoming_ok_def)
  have "\<exists>e'. (enode_step N G n)\<^sup>*\<^sup>* e1 e' \<and> erel N n e' r'"
  proof (cases "raft_q r1 = gr")
    case True
    then obtain r2 where r2: "raft_becomeLeader r1 = Inr r2" "raft_bcastAppend sz r2 = Inr r'"
      using assms(2,3) p by (auto simp: raft_advanceCandidate_def)
    have "majority N (e_yes e1)"
      by (rule votes_majority [of _ _ r1]) (use e1 True in \<open>auto simp: erel_def\<close>)
    then obtain e2 where e2: "enode_step N G n e1 e2" "erel N n e2 r2"
      using erel_becomeLeader [OF e1(2) r2(1) e1(4)] assms(7) e1(5) by auto
    have "quiet N lead_msg r2 r'"
      by (rule quiet_bcastAppend [OF quiet_refl r2(2) lead_msg_app]) (rule erelD(2) [OF e2(2)])
    then have "erel N n e2 r'"
      by (rule erel_quiet_lead [OF e2(2)]) (use raft_becomeLeader_fields(2) [OF r2(1)] assms(7) e1(5) in simp)
    then show ?thesis using e2(1) by blast
  next
    case False
    then have "raft_becomeFollower r1 (r_Term r1) NoneId = Inr r' \<or> r' = r1"
      using assms(2,3) p by (auto simp: raft_advanceCandidate_def split: if_splits)
    then show ?thesis using erel_becomeFollower [OF e1(2)] e1(2,4) by auto
  qed
  then show ?thesis using e1(1) by (meson rtranclp_trans)
qed

lemma erel_candidate_demote:
  assumes "erel N n e r" "raft_becomeFollower r (msg_Term m) (msg_From m) = Inr r1"
    "r_state r = StateCandidate" "msg_Term m = r_Term r" "\<And>e. erel N n e r1 \<Longrightarrow> quiet N reply_msg r1 r'"
  shows "\<exists>e'. (enode_step N G n)\<^sup>*\<^sup>* e e' \<and> erel N n e' r'"
proof -
  obtain e' where "(enode_step N G n)\<^sup>*\<^sup>* e e'" "erel N n e' r1"
    using erel_becomeFollower [OF assms(1,2)] assms(3,4) by auto
  then show ?thesis using erel_quiet assms(5) by blast
qed

lemma erel_advanceCandidate:
  assumes "erel N n e r" "raft_advanceCandidate sz r m = Inr r'" "r_state r = StateCandidate"
    "incoming_ok N G m" "msg_Term m = r_Term r" "unat (r_Term r) + 1 < 2 ^ 64"
  shows "\<exists>e'. (enode_step N G n)\<^sup>*\<^sup>* e e' \<and> erel N n e' r'"
proof (cases "msg_Type m")
  case MsgApp
  then obtain r1 where r1: "raft_becomeFollower r (msg_Term m) (msg_From m) = Inr r1" "raft_handleAppend r1 m = Inr r'"
    using assms(2) by (auto simp: raft_advanceCandidate_def)
  show ?thesis
    by (rule erel_candidate_demote [OF assms(1) r1(1) assms(3,5)])
       (rule quiet_handleAppend [OF quiet_refl r1(2)], auto simp: erel_def msg_kinds)
next
  case MsgSnap
  then obtain r1 where r1: "raft_becomeFollower r (msg_Term m) (msg_From m) = Inr r1" "raft_handleSnapshot r1 m = Inr r'"
    using assms(2) by (auto simp: raft_advanceCandidate_def)
  show ?thesis
    by (rule erel_candidate_demote [OF assms(1) r1(1) assms(3,5)])
       (rule quiet_handleSnapshot [OF quiet_refl r1(2)], use assms(4) in \<open>auto simp: erel_def msg_kinds incoming_ok_def\<close>)
next
  case MsgHeartbeat
  then obtain r1 where r1: "raft_becomeFollower r (msg_Term m) (msg_From m) = Inr r1" "raft_handleHeartbeat r1 m = Inr r'"
    using assms(2) by (auto simp: raft_advanceCandidate_def)
  show ?thesis
    by (rule erel_candidate_demote [OF assms(1) r1(1) assms(3,5)])
       (rule quiet_handleHeartbeat [OF quiet_refl r1(2)], auto simp: erel_def msg_kinds)
next
  case MsgVote
  obtain cnt r1 where p: "raft_poll r (msg_From m) False = (cnt, r1)" by fastforce
  then have r': "r' = raft_sendTo r1 (msg_From m) (zero_Message\<lparr>msg_Type := MsgVoteResp, msg_Reject := True\<rparr>)"
    using assms(2) MsgVote by (simp add: raft_advanceCandidate_def)
  obtain e1 where e1: "(enode_step N G n)\<^sup>*\<^sup>* e e1" "erel N n e1 r1"
    using erel_poll [OF assms(1) p assms(3), of G] assms(4) by (auto simp: incoming_ok_def)
  have "quiet N reply_msg r1 r'"
    unfolding r' by (rule quiet_sendTo [OF quiet_refl]) (use erelD(2) [OF e1(2)] in \<open>simp_all add: msg_kinds\<close>)
  then show ?thesis using erel_quiet e1 by blast
next
  case MsgVoteResp
  then show ?thesis using erel_candidate_VoteResp [OF assms(1,2)] assms(3-6) by blast
qed (use assms in \<open>auto simp: raft_advanceCandidate_def\<close>)

lemma erel_advance:
  assumes "erel N n e r" "raft_advance sz r m = Inr r'" "incoming_ok N G m" "msg_Term m = r_Term r"
    "r_state r = StateCandidate \<Longrightarrow> unat (r_Term r) + 1 < 2 ^ 64"
  shows "\<exists>e'. (enode_step N G n)\<^sup>*\<^sup>* e e' \<and> erel N n e' r'"
proof (cases "r_state r")
  case StateFollower
  then have "raft_advanceFollower r m = Inr r'"
    using assms(2) erelD(3) [OF assms(1)] by (simp add: raft_advance_def role_ok_def)
  then show ?thesis using erel_advanceFollower [OF assms(1)] StateFollower assms(3) by blast
next
  case StateCandidate
  then have "raft_advanceCandidate sz r m = Inr r'"
    using assms(2) erelD(3) [OF assms(1)] by (simp add: raft_advance_def role_ok_def)
  then show ?thesis using erel_advanceCandidate [OF assms(1)] StateCandidate assms(3-5) by blast
next
  case StateLeader
  then have "raft_advanceLeader sz r m = Inr r'"
    using assms(2) erelD(3) [OF assms(1)] by (simp add: raft_advance_def role_ok_def)
  then have "quiet N lead_msg r r'"
    by (rule quiet_advanceLeader [OF quiet_refl [OF erelD(2) [OF assms(1)]]])
  then show ?thesis using erel_quiet_lead [OF assms(1)] StateLeader by blast
qed

lemma erel_onMsg:
  assumes "erel N n e r" "raft_onMsg sz r m = Inr r'" "incoming_ok N G m" "unat (r_Term r) + 1 < 2 ^ 64"
  shows "\<exists>e'. (enode_step N G n)\<^sup>*\<^sup>* e e' \<and> erel N n e' r'"
proof (cases "r_Term r > msg_Term m")
  case True
  then show ?thesis using assms(1,2) by (auto simp: raft_onMsg_def)
next
  case False
  then obtain r1 r2 where r1:
    "(if r_Term r < msg_Term m then raft_becomeFollower r (msg_Term m)
        (if oneOf (msg_Type m) noLeadTypeSet then NoneId else msg_From m) else Inr r) = Inr r1" and
    r2: "raft_advance sz r1 m = Inr r2" and r': "r' = r2 \<or> r' = r2\<lparr>r_Commit := rl_committed (r_logs r2)\<rparr>"
    using assms(2) by (auto simp: raft_onMsg_def)
  have "\<exists>e1. (enode_step N G n)\<^sup>*\<^sup>* e e1 \<and> erel N n e1 r1 \<and> msg_Term m = r_Term r1 \<and>
     (r_state r1 = StateCandidate \<longrightarrow> r1 = r)"
  proof (cases "r_Term r < msg_Term m")
    case True
    then show ?thesis
      using r1 erel_becomeFollower [OF assms(1), of "msg_Term m" _ r1 G] by (fastforce dest: raft_becomeFollower_fields)
  next
    case nlt: False
    then show ?thesis using r1 False assms(1) by auto
  qed
  then obtain e1 where e1: "(enode_step N G n)\<^sup>*\<^sup>* e e1" "erel N n e1 r1" "msg_Term m = r_Term r1"
    "r_state r1 = StateCandidate \<Longrightarrow> r1 = r" by blast
  obtain e2 where e2: "(enode_step N G n)\<^sup>*\<^sup>* e1 e2" "erel N n e2 r2"
    using erel_advance [OF e1(2) r2 assms(3) e1(3)] e1(4) assms(4) by blast
  have "quiet N reply_msg r2 r'"
    using r' quiet_refl [OF erelD(2) [OF e2(2)], of reply_msg] by auto
  then have "erel N n e2 r'" by (rule erel_quiet [OF e2(2)])
  then show ?thesis using e1(1) e2(1) by (meson rtranclp_trans)
qed

lemma erel_onProp:
  assumes "erel N n e (lp_raft lp)" "raft_onProp sz lp unit = Inr lp'"
  shows "erel N n e (lp_raft lp')"
proof -
  define r1 where "r1 = (if pu_Type unit = EntryConfChange then (lp_raft lp)\<lparr>r_pendingConf := True\<rparr> else lp_raft lp)"
  have "quiet N reply_msg (lp_raft lp) r1"
    using quiet_refl [OF erelD(2) [OF assms(1)]] by (auto simp: r1_def)
  then have e1: "erel N n e r1" by (rule erel_quiet [OF assms(1)])
  have "lp_raft lp' = lp_raft lp \<or> (\<exists>m. raft_advance sz r1 m = Inr (lp_raft lp') \<and> msg_Type m = MsgProp)"
    using assms(2)
    by (auto simp: raft_onProp_def Let_def r1_def split: if_splits)
  then consider "lp_raft lp' = lp_raft lp"
    | m where "raft_advance sz r1 m = Inr (lp_raft lp')" "msg_Type m = MsgProp" by blast
  then show ?thesis
  proof cases
    case 1
    then show ?thesis using assms(1) by simp
  next
    case (2 m)
    show ?thesis
    proof (cases "r_state r1 = StateLeader")
      case True
      then have "raft_advanceLeader sz r1 m = Inr (lp_raft lp')"
        using 2 erelD(3) [OF e1] by (simp add: raft_advance_def role_ok_def)
      then have "quiet N lead_msg r1 (lp_raft lp')"
        by (rule quiet_advanceLeader [OF quiet_refl [OF erelD(2) [OF e1]]])
      then show ?thesis using erel_quiet_lead [OF e1] True by blast
    next
      case False
      then have "lp_raft lp' = r1"
        using 2 erelD(3) [OF e1]
        by (cases "r_state r1") (auto simp: raft_advance_def role_ok_def raft_advanceFollower_def raft_advanceCandidate_def)
      then show ?thesis using e1 by simp
    qed
  qed
qed

text \<open>The events a node takes by itself, with the membership as it is: a configuration change only
  names a node that is already a member (the entries \<open>Start\<close> logs) or none.\<close>

fun local_event :: "u64 set \<Rightarrow> event \<Rightarrow> bool" where
  "local_event N (EvTick rnd) = True"
| "local_event N EvCommitted = True"
| "local_event N (EvApply to) = True"
| "local_event N (EvProp unit) = True"
| "local_event N (EvConf cc) = (cc_Node cc = 0 \<or> cc_Type cc = ConfChangeAddNode \<and> cc_Node cc \<in> N)"
| "local_event N EvStop = False"
| "local_event N (EvMsg m) = False"

lemma raft_onCommitted_raft: "raft_onCommitted sz lp = Inr lp' \<Longrightarrow> lp_raft lp' = lp_raft lp"
  unfolding raft_onCommitted_def Let_def go_bind_eq_Inr
  by (elim exE conjE) (split sum.split_asm; auto)

lemma erel_local:
  assumes "erel N n e (lp_raft lp)" "mainLoop_step sz lp ev = Inr (Running lp')" "local_event N ev"
    "unat (r_Term (lp_raft lp)) + 2 < 2 ^ 64" "n \<in> N"
  shows "\<exists>e'. (enode_step N G n)\<^sup>*\<^sup>* e e' \<and> erel N n e' (lp_raft lp')"
proof -
  have q: "quiet N reply_msg (lp_raft lp) (lp_raft lp)" using quiet_refl [OF erelD(2) [OF assms(1)]] .
  show ?thesis
  proof (cases ev)
    case (EvTick rnd)
    then show ?thesis
      using erel_tick [OF assms(1) _ assms(4,5)] assms(2) by (auto simp: mainLoop_step_def)
  next
    case EvCommitted
    then have "lp_raft lp' = lp_raft lp"
      using assms(2) by (auto simp: mainLoop_step_def dest: raft_onCommitted_raft)
    then show ?thesis using assms(1) by auto
  next
    case (EvApply to)
    have "quiet N reply_msg (lp_raft lp) (lp_raft lp')"
      using EvApply assms(2) q by (auto simp: mainLoop_step_def raftLog_appliedTo_def Let_def rl_snaps_def intro!: quiet_logs)
    then show ?thesis by (rule quiet_replyI [OF assms(1)])
  next
    case (EvConf cc)
    then have "lp_raft lp' = (lp_raft lp)\<lparr>r_pendingConf := False\<rparr>"
      using assms(2,3) erelD(2) [OF assms(1)]
      by (auto simp: mainLoop_step_def raft_onConf_def raft_addNode_def Let_def map_of_None_keys member_ok_def
          split: if_splits option.splits)
    then show ?thesis using quiet_replyI [OF assms(1) quiet_field(4) [OF q]] by metis
  next
    case (EvProp unit)
    then show ?thesis using erel_onProp [OF assms(1)] assms(2) by (auto simp: mainLoop_step_def)
  qed (use assms(3) in simp_all)
qed

lemma erel_deliver:
  assumes "erel N n e (lp_raft lp)" "mainLoop_step sz lp (EvMsg m) = Inr (Running lp')" "incoming_ok N G m"
    "unat (r_Term (lp_raft lp)) + 2 < 2 ^ 64"
  shows "\<exists>e'. (enode_step N G n)\<^sup>*\<^sup>* e e' \<and> erel N n e' (lp_raft lp')"
  using erel_onMsg [OF assms(1) _ assms(3)] assms(2,4) by (auto simp: mainLoop_step_def)

section \<open>Starting\<close>

lemma raft_Start_loop_err:
  "raft_Start_loop marshal r (Some err) ps = Inr (err', r') \<Longrightarrow> err' \<noteq> None"
proof (induction ps arbitrary: r err)
  case (Cons p ps)
  then show ?case by (auto split: option.splits)
qed auto

lemma raft_addNode_member:
  assumes "raft_addNode r p = Inr r'" "distinct (keys (r_peers r))"
  shows "set (keys (r_peers r')) = insert p (set (keys (r_peers r)))" "distinct (keys (r_peers r'))"
    "r_logs r' = r_logs r" "r_outc r' = r_outc r" "r_id r' = r_id r" "r_Term r' = r_Term r" "r_Vote r' = r_Vote r"
  using assms
  by (auto simp: raft_addNode_def keys_update distinct_keys_update dest: map_of_in_keys split: option.splits)

lemma raft_Start_loop_member:
  assumes "raft_Start_loop marshal r None ps = Inr (None, r')" "distinct (keys (r_peers r))"
  shows "set (keys (r_peers r')) = set (keys (r_peers r)) \<union> set ps \<and> distinct (keys (r_peers r')) \<and>
    rl_snaps (r_logs r') = rl_snaps (r_logs r) \<and> r_outc r' = r_outc r \<and> r_id r' = r_id r \<and>
    r_Term r' = r_Term r \<and> r_Vote r' = r_Vote r"
  using assms
proof (induction ps arbitrary: r)
  case (Cons p ps)
  then obtain d where "marshal \<lparr>cc_Type = ConfChangeAddNode, cc_Node = p\<rparr> = Some d"
    using raft_Start_loop_err by (fastforce split: option.splits)
  then obtain es logs r1 where l: "raftLog_append (r_logs r) es = Inr logs"
    and r1: "raft_addNode (r\<lparr>r_logs := logs\<rparr>) p = Inr r1" and rest: "raft_Start_loop marshal r1 None ps = Inr (None, r')"
    using Cons.prems(1) by auto
  have "distinct (keys (r_peers (r\<lparr>r_logs := logs\<rparr>)))" using Cons.prems(2) by simp
  note A = raft_addNode_member [OF r1 this]
  show ?case using Cons.IH [OF rest A(2)] A rl_snaps_append [OF l] by auto
qed simp

text \<open>\<open>Start\<close> on a fresh instance (term 0, no peers, nothing sent) yields a follower in term 1 that
  has not voted; its members are exactly the peers it was given.\<close>

lemma raft_Start_fields:
  assumes "raft_Start marshal r ps = Inr (None, r')" "r_peers r = []" "r_Term r = 0" "r_outc r = []"
    "\<And>s. s \<in> rl_snaps (r_logs r) \<Longrightarrow> snap_ok (set ps) s"
  shows "r_id r' = r_id r \<and> r_state r' = StateFollower \<and> role_ok r' \<and> r_Term r' = 1 \<and> r_Vote r' = NoneId \<and>
    r_outc r' = [] \<and> member_ok (set ps) r'"
proof -
  obtain r1 r2 where r1: "raft_prelude r = Inr r1" and r2: "raft_Start_loop marshal r1 None ps = Inr (None, r2)"
    and r': "raft_becomeFollower r2 1 NoneId = Inr r'"
    using assms(1) by (auto simp: raft_Start_def split: sum.splits)
  have r1': "r1 = r\<lparr>r_stoppedc := True\<rparr>" using r1 by (simp add: raft_prelude_def split: if_splits)
  have "distinct (keys (r_peers r1))" by (simp add: r1' assms(2))
  note L = raft_Start_loop_member [OF r2 this]
  note F = raft_becomeFollower_fields [OF r']
  have "member_ok (set ps) r2" using L assms(2,5) by (simp add: member_ok_def r1')
  then show ?thesis using F L assms(3,4) r1' by (simp add: max_def)
qed

definition enode_of :: "raft \<Rightarrow> enode" where
  "enode_of r = \<lparr>e_term = unat (r_Term r), e_vote = r_Vote r, e_role = r_state r, e_yes = {}, e_sent = {}\<rparr>"

lemma erel_start:
  assumes "r_id r = n" "r_state r = StateFollower" "role_ok r" "r_outc r = []" "member_ok N r"
  shows "erel N n (enode_of r) r"
  using assms by (simp add: erel_def enode_of_def)

end
