(* ===== verification/RaftNode.thy ===== *)
theory RaftNode
  imports RaftElection RaftLogRefine
begin

text \<open>
  One instance and its log. \<open>log_trans\<close> says how a message can change the log: not at all, by a
  commit, by \<open>maybeAppend\<close> or by a snapshot, so what the log lemmas show holds for every
  handler. \<open>node_ok\<close> is the invariant of an instance; every event of the main loop
  keeps it and, on well-formed input, none panics.
\<close>

section \<open>What an event does to the log\<close>

definition log_commit :: "raftLog \<Rightarrow> raftLog \<Rightarrow> bool" where
  "log_commit rl rl' \<longleftrightarrow> rl' = rl \<or> (\<exists>to b. raftLog_maybeCommit rl to = Inr (b, rl'))"

definition log_trans :: "Message \<Rightarrow> raftLog \<Rightarrow> raftLog \<Rightarrow> bool" where
  "log_trans m rl rl' \<longleftrightarrow> log_commit rl rl' \<or>
     msg_Type m = MsgApp \<and> (\<exists>i b. raftLog_maybeAppend rl (msg_PrevIndex m) (msg_PrevTerm m) (msg_Commit m)
        (msg_Entries m) = Inr (i, b, rl')) \<or>
     msg_Type m = MsgSnap \<and> (\<exists>s. msg_Snap m = Some s \<and> rl_committed rl < snap_Index s \<and> rl' = raftLog_restore rl s)"

lemma log_commit_refl [simp]: "log_commit rl rl"
  by (simp add: log_commit_def)

lemma log_commitI: "raftLog_maybeCommit rl to = Inr (b, rl') \<Longrightarrow> log_commit rl rl'"
  by (auto simp: log_commit_def)

lemma log_trans_commit: "log_commit rl rl' \<Longrightarrow> log_trans m rl rl'"
  by (simp add: log_trans_def)

lemma raft_sendTo_same [simp]:
  "r_logs (raft_sendTo r k m) = r_logs r" "r_peers (raft_sendTo r k m) = r_peers r"
  "r_Commit (raft_sendTo r k m) = r_Commit r" "r_electionTimeout (raft_sendTo r k m) = r_electionTimeout r"
  "r_state (raft_sendTo r k m) = r_state r" "r_tick (raft_sendTo r k m) = r_tick r"
  "r_advance (raft_sendTo r k m) = r_advance r" "r_id (raft_sendTo r k m) = r_id r"
  "r_Term (raft_sendTo r k m) = r_Term r" "r_Vote (raft_sendTo r k m) = r_Vote r"
  "r_maxSizePerMsg (raft_sendTo r k m) = r_maxSizePerMsg r"
  by (simp_all add: raft_sendTo_def split: option.splits)

text \<open>The fields that sending and replication leave alone.\<close>

definition same_node :: "raft \<Rightarrow> raft \<Rightarrow> bool" where
  "same_node r r' \<longleftrightarrow> r_Commit r' = r_Commit r \<and> r_electionTimeout r' = r_electionTimeout r \<and>
     r_state r' = r_state r \<and> r_tick r' = r_tick r \<and> r_advance r' = r_advance r \<and> r_id r' = r_id r \<and>
     r_Term r' = r_Term r \<and> r_Vote r' = r_Vote r \<and> r_maxSizePerMsg r' = r_maxSizePerMsg r"

lemma same_node_refl [simp]: "same_node r r"
  by (simp add: same_node_def)

lemma same_node_trans: "same_node r r' \<Longrightarrow> same_node r' r'' \<Longrightarrow> same_node r r''"
  by (simp add: same_node_def)

lemma raft_broadcast_loop_same:
  "r_logs (raft_broadcast_loop r m ids) = r_logs r \<and> r_peers (raft_broadcast_loop r m ids) = r_peers r \<and>
   same_node r (raft_broadcast_loop r m ids)"
  by (induction ids arbitrary: r) (simp_all add: same_node_def)

lemma raft_broadcast_same:
  "r_logs (raft_broadcast r m) = r_logs r" "r_peers (raft_broadcast r m) = r_peers r" "same_node r (raft_broadcast r m)"
  by (simp_all add: raft_broadcast_def raft_broadcast_loop_same)

text \<open>\<open>sendAppend\<close> changes the progress of its target, and of that neither \<open>next\<close> nor \<open>match\<close>.\<close>

definition peers_sent :: "(u64 \<times> Progress) list \<Rightarrow> (u64 \<times> Progress) list \<Rightarrow> bool" where
  "peers_sent ps ps' \<longleftrightarrow> keys ps' = keys ps \<and>
     (\<forall>k. map_option (\<lambda>p. (pr_match p, pr_next p)) (map_of ps' k) = map_option (\<lambda>p. (pr_match p, pr_next p)) (map_of ps k))"

lemma peers_sent_refl [simp]: "peers_sent ps ps"
  by (simp add: peers_sent_def)

lemma peers_sent_trans: "peers_sent ps ps' \<Longrightarrow> peers_sent ps' ps'' \<Longrightarrow> peers_sent ps ps''"
  by (simp add: peers_sent_def)

lemma peers_sent_update:
  "map_of ps k = Some p \<Longrightarrow> pr_match p' = pr_match p \<Longrightarrow> pr_next p' = pr_next p \<Longrightarrow>
   peers_sent ps (AList.update k p' ps)"
  by (simp add: peers_sent_def keys_update_in map_of_in_keys update_conv')

lemma raft_sendAppend_same:
  assumes "raft_sendAppend sz r to = Inr r'"
  shows "r_logs r' = r_logs r \<and> peers_sent (r_peers r) (r_peers r') \<and> same_node r r'"
proof (cases "map_of (r_peers r) to")
  case None
  then show ?thesis using assms by (simp add: raft_sendAppend_def)
next
  case (Some p)
  note up = peers_sent_update [OF Some]
  show ?thesis
  proof (cases "Progress_isPaused p \<or> \<not> pr_alive p")
    case True
    then show ?thesis using assms Some by (simp add: raft_sendAppend_def)
  next
    case False
    with assms Some obtain t es where
      te: "raftLog_term (r_logs r) (pr_next p - 1) = Inr t"
        "raftLog_entries sz (r_logs r) (pr_next p) (r_maxSizePerMsg r) = Inr es"
      by (auto simp: raft_sendAppend_def)
    with assms Some False up show ?thesis
      by (auto simp: raft_sendAppend_def Let_def same_node_def split: sum.splits if_splits)
  qed
qed

lemma raft_bcastAppend_loop_same:
  "raft_bcastAppend_loop sz r ids = Inr r' \<Longrightarrow>
   r_logs r' = r_logs r \<and> peers_sent (r_peers r) (r_peers r') \<and> same_node r r'"
proof (induction ids arbitrary: r)
  case (Cons k ids)
  show ?case
  proof (cases "k = r_id r")
    case True
    then show ?thesis using Cons by simp
  next
    case False
    then obtain r1 where "raft_sendAppend sz r k = Inr r1" "raft_bcastAppend_loop sz r1 ids = Inr r'"
      using Cons.prems by auto
    then show ?thesis
      using raft_sendAppend_same Cons.IH same_node_trans peers_sent_trans by metis
  qed
qed simp

lemma raft_bcastAppend_same:
  "raft_bcastAppend sz r = Inr r' \<Longrightarrow>
   r_logs r' = r_logs r \<and> peers_sent (r_peers r) (r_peers r') \<and> same_node r r'"
  unfolding raft_bcastAppend_def by (rule raft_bcastAppend_loop_same)

lemma raft_maybeCommit_same:
  "raft_maybeCommit r = Inr (b, r') \<Longrightarrow>
   log_commit (r_logs r) (r_logs r') \<and> r_peers r' = r_peers r \<and> same_node r r'"
  by (auto simp: raft_maybeCommit_def Let_def same_node_def intro: log_commitI)

lemma raft_handleHeartbeat_log:
  "raft_handleHeartbeat r m = Inr r' \<Longrightarrow> log_commit (r_logs r) (r_logs r') \<and> r_peers r' = r_peers r \<and> same_node r r'"
  by (auto simp: raft_handleHeartbeat_def same_node_def intro: log_commitI)

lemma raft_handleAppend_log:
  "raft_handleAppend r m = Inr r' \<Longrightarrow>
   (\<exists>i b. raftLog_maybeAppend (r_logs r) (msg_PrevIndex m) (msg_PrevTerm m) (msg_Commit m) (msg_Entries m)
      = Inr (i, b, r_logs r')) \<and> r_peers r' = r_peers r \<and> same_node r r'"
  by (auto simp: raft_handleAppend_def same_node_def)

lemma raft_maybeRestore_log:
  assumes "raft_maybeRestore r s = Inr (b, r')"
  shows "(log_commit (r_logs r) (r_logs r') \<and> r_peers r' = r_peers r \<or>
      rl_committed (r_logs r) < snap_Index s \<and> r_logs r' = raftLog_restore (r_logs r) s) \<and> same_node r r'"
proof (cases "snap_Index s \<le> rl_committed (r_logs r)")
  case True
  then show ?thesis using assms by (simp add: raft_maybeRestore_def)
next
  case False
  obtain mt where mt: "raftLog_matchTerm (r_logs r) (snap_Index s) (snap_Term s) = Inr mt"
    using assms False by (auto simp: raft_maybeRestore_def)
  show ?thesis
    using assms False mt
    by (cases mt) (auto simp: raft_maybeRestore_def same_node_def Let_def intro: log_commitI split: option.splits if_splits)
qed

lemma raft_handleSnapshot_log:
  assumes "raft_handleSnapshot r m = Inr r'"
  shows "(\<exists>s. msg_Snap m = Some s \<and>
      (log_commit (r_logs r) (r_logs r') \<and> r_peers r' = r_peers r \<or>
       rl_committed (r_logs r) < snap_Index s \<and> r_logs r' = raftLog_restore (r_logs r) s)) \<and> same_node r r'"
proof -
  obtain s b r1 where s: "msg_Snap m = Some s" "raft_maybeRestore r s = Inr (b, r1)"
    "r_logs r' = r_logs r1" "r_peers r' = r_peers r1" "same_node r1 r'"
    using assms by (auto simp: raft_handleSnapshot_def same_node_def split: option.splits)
  show ?thesis using raft_maybeRestore_log [OF s(2)] s same_node_trans by metis
qed

lemma raft_leader_AppResp_log:
  assumes "raft_advanceLeader sz r m = Inr r'" "msg_Type m = MsgAppResp"
  shows "log_commit (r_logs r) (r_logs r') \<and> same_node r r'"
proof -
  from assms obtain p where p: "map_of (r_peers r) (msg_From m) = Some p"
    by (auto simp: raft_advanceLeader_def split: option.splits)
  show ?thesis
  proof (cases "msg_Reject m")
    case True
    then show ?thesis
      using assms p by (auto simp: raft_advanceLeader_def Let_def same_node_def dest!: raft_sendAppend_same)
  next
    case False
    obtain upd p1 where u: "Progress_maybeUpdate p (msg_PrevIndex m) = (upd, p1)" by fastforce
    show ?thesis
    proof (cases upd)
      case True
      then obtain p2 b r1 where
        "raft_maybeCommit (r\<lparr>r_peers := AList.update (msg_From m) p2 (r_peers r)\<rparr>) = Inr (b, r1)"
        "raft_sendAppend sz r1 (msg_From m) = Inr r'"
        using assms p u False by (auto simp: raft_advanceLeader_def Let_def)
      then show ?thesis using raft_sendAppend_same raft_maybeCommit_same by (fastforce simp: same_node_def)
    next
      case nu: False
      then show ?thesis using assms p u False by (auto simp: raft_advanceLeader_def Let_def same_node_def)
    qed
  qed
qed

lemma raft_advanceLeader_log:
  assumes "raft_advanceLeader sz r m = Inr r'" "msg_Type m \<noteq> MsgProp"
  shows "log_commit (r_logs r) (r_logs r') \<and> same_node r r'"
proof (cases "msg_Type m")
  case MsgAppResp
  then show ?thesis using raft_leader_AppResp_log assms by blast
qed (use assms in \<open>auto simp: raft_advanceLeader_def same_node_def split: option.splits\<close>)

lemma raft_leader_Prop_log:
  assumes "raft_advanceLeader sz r m = Inr r'" "msg_Type m = MsgProp"
  shows "(r_logs r' = r_logs r \<or> raftLog_append (r_logs r) (msg_Entries m) = Inr (r_logs r')) \<and>
    peers_sent (r_peers r) (r_peers r') \<and> same_node r r'"
proof (cases "map_of (r_peers r) (r_id r)")
  case None
  then show ?thesis using assms by (simp add: raft_advanceLeader_def)
next
  case (Some p)
  then obtain logs where l: "raftLog_append (r_logs r) (msg_Entries m) = Inr logs"
    "raft_bcastAppend sz (r\<lparr>r_logs := logs\<rparr>) = Inr r'"
    using assms by (auto simp: raft_advanceLeader_def)
  then show ?thesis using raft_bcastAppend_same [OF l(2)] by (simp add: same_node_def)
qed

lemma raft_advanceFollower_log:
  assumes "raft_advanceFollower r m = Inr r'"
  shows "log_trans m (r_logs r) (r_logs r')"
proof (cases "msg_Type m")
  case MsgApp
  then show ?thesis using assms raft_handleAppend_log
    by (fastforce simp: raft_advanceFollower_def log_trans_def)
next
  case MsgSnap
  then show ?thesis using assms raft_handleSnapshot_log
    by (fastforce simp: raft_advanceFollower_def log_trans_def)
next
  case MsgHeartbeat
  then show ?thesis using assms raft_handleHeartbeat_log
    by (fastforce simp: raft_advanceFollower_def log_trans_def)
qed (use assms in \<open>auto simp: raft_advanceFollower_def log_trans_def split: if_splits\<close>)

lemma raft_poll_same:
  assumes "raft_poll r v g = (cnt, r')"
  shows "r_logs r' = r_logs r" "r_peers r' = r_peers r" "same_node r r'"
  using assms by (auto simp: raft_poll_def Let_def same_node_def split: option.splits)

lemma raft_becomeLeader_logs: "raft_becomeLeader r = Inr r' \<Longrightarrow> r_logs r' = r_logs r"
  by (auto simp: raft_becomeLeader_def raft_reset_fields)

lemma raft_becomeCandidate_logs: "raft_becomeCandidate r = Inr r' \<Longrightarrow> r_logs r' = r_logs r"
  by (auto simp: raft_becomeCandidate_def raft_reset_fields)

lemma raft_candidate_VoteResp_logs:
  assumes "raft_advanceCandidate sz r m = Inr r'" "msg_Type m = MsgVoteResp"
  shows "r_logs r' = r_logs r"
proof -
  obtain gr r1 where p: "raft_poll r (msg_From m) (\<not> msg_Reject m) = (gr, r1)" by fastforce
  note P = raft_poll_same [OF p]
  show ?thesis
  proof (cases "raft_q r1 = gr")
    case True
    then obtain r2 where r2: "raft_becomeLeader r1 = Inr r2" "raft_bcastAppend sz r2 = Inr r'"
      using assms p by (auto simp: raft_advanceCandidate_def)
    show ?thesis using P(1) raft_becomeLeader_logs [OF r2(1)] raft_bcastAppend_same [OF r2(2)] by simp
  next
    case False
    then have "raft_becomeFollower r1 (r_Term r1) NoneId = Inr r' \<or> r' = r1"
      using assms p by (auto simp: raft_advanceCandidate_def split: if_splits)
    then show ?thesis using P(1) raft_becomeFollower_fields(4) by auto
  qed
qed

lemma raft_advanceCandidate_log:
  assumes "raft_advanceCandidate sz r m = Inr r'"
  shows "log_trans m (r_logs r) (r_logs r')"
proof (cases "msg_Type m")
  case MsgApp
  then obtain r1 where "raft_becomeFollower r (msg_Term m) (msg_From m) = Inr r1" "raft_handleAppend r1 m = Inr r'"
    using assms by (auto simp: raft_advanceCandidate_def)
  then show ?thesis using raft_becomeFollower_fields(4) raft_handleAppend_log MsgApp by (metis log_trans_def)
next
  case MsgSnap
  then obtain r1 where "raft_becomeFollower r (msg_Term m) (msg_From m) = Inr r1" "raft_handleSnapshot r1 m = Inr r'"
    using assms by (auto simp: raft_advanceCandidate_def)
  then show ?thesis using raft_becomeFollower_fields(4) raft_handleSnapshot_log MsgSnap by (metis log_trans_def)
next
  case MsgHeartbeat
  then obtain r1 where "raft_becomeFollower r (msg_Term m) (msg_From m) = Inr r1" "raft_handleHeartbeat r1 m = Inr r'"
    using assms by (auto simp: raft_advanceCandidate_def)
  then show ?thesis using raft_becomeFollower_fields(4) raft_handleHeartbeat_log by (metis log_trans_def)
next
  case MsgVote
  obtain cnt r1 where p: "raft_poll r (msg_From m) False = (cnt, r1)" by fastforce
  then show ?thesis using assms MsgVote raft_poll_same [OF p] by (auto simp: raft_advanceCandidate_def log_trans_def)
next
  case MsgVoteResp
  then show ?thesis using raft_candidate_VoteResp_logs [OF assms] by (simp add: log_trans_def)
qed (use assms in \<open>auto simp: raft_advanceCandidate_def log_trans_def\<close>)

lemma raft_advance_log:
  assumes "raft_advance sz r m = Inr r'" "msg_Type m \<noteq> MsgProp"
  shows "log_trans m (r_logs r) (r_logs r')"
  using assms raft_advanceFollower_log raft_advanceCandidate_log raft_advanceLeader_log
  by (cases "r_advance r") (auto simp: raft_advance_def intro: log_trans_commit)

lemma raft_onMsg_log:
  assumes "raft_onMsg sz r m = Inr r'" "msg_Type m \<noteq> MsgProp"
  shows "log_trans m (r_logs r) (r_logs r')"
proof (cases "r_Term r > msg_Term m")
  case True
  then show ?thesis using assms by (auto simp: raft_onMsg_def log_trans_def)
next
  case False
  then obtain r1 r2 where r1:
    "(if r_Term r < msg_Term m then raft_becomeFollower r (msg_Term m)
        (if oneOf (msg_Type m) noLeadTypeSet then NoneId else msg_From m) else Inr r) = Inr r1" and
    r2: "raft_advance sz r1 m = Inr r2" and r': "r_logs r' = r_logs r2"
    using assms(1) by (auto simp: raft_onMsg_def)
  have "r_logs r1 = r_logs r" using r1 raft_becomeFollower_fields(4) by (auto split: if_splits)
  then show ?thesis using raft_advance_log [OF r2 assms(2)] r' by simp
qed

section \<open>The log invariant\<close>

text \<open>What a node relies on of an \<open>MsgApp\<close>: its entries follow \<open>PrevIndex\<close> without a gap, carry a
  term, and the point they attach to is a real one (out of range, \<open>term\<close> answers 0, which would
  match a \<open>PrevTerm\<close> of 0).\<close>

definition app_ok :: "raftLog \<Rightarrow> Message \<Rightarrow> bool" where
  "app_ok rl m \<longleftrightarrow> chain_from (unat (msg_PrevIndex m) + 1) (msg_Entries m) \<and>
     unat (msg_PrevIndex m) + 1 + length (msg_Entries m) < 2 ^ 64 \<and>
     (\<forall>e \<in> set (msg_Entries m). ent_Term e \<noteq> 0) \<and>
     (msg_Entries m \<noteq> [] \<and> msg_PrevTerm m = 0 \<longrightarrow>
        log_base (rl_view rl) \<le> unat (msg_PrevIndex m) \<and> unat (msg_PrevIndex m) \<le> log_last (rl_view rl))"

lemma log_last_append: "L \<noteq> [] \<Longrightarrow> log_last (L @ M) = log_last L + length M"
  by (cases L) (simp_all add: log_last_def)

text \<open>How \<open>maybeAppend\<close> changes the abstract log: it keeps it, or overwrites it with a suffix of the
  message's entries from some index on that is not below \<open>committed\<close>.\<close>

definition log_overwrite :: "raftLog \<Rightarrow> Message \<Rightarrow> Entry list \<Rightarrow> bool" where
  "log_overwrite rl m L \<longleftrightarrow> L = rl_view rl \<or>
     (\<exists>j. unat (rl_committed rl) \<le> j \<and> log_base (rl_view rl) < j \<and> j \<le> log_last (rl_view rl) + 1 \<and>
        unat (msg_PrevIndex m) < j \<and> j < unat (msg_PrevIndex m) + 1 + length (msg_Entries m) \<and>
        L = log_append (rl_view rl) j (drop (j - (unat (msg_PrevIndex m) + 1)) (msg_Entries m)))"

definition log_grows :: "raftLog \<Rightarrow> raftLog \<Rightarrow> bool" where
  "log_grows rl rl' \<longleftrightarrow> raftLog_inv rl' \<and> rl_committed rl \<le> rl_committed rl' \<and> rl_applied rl' = rl_applied rl"

lemma log_commit_inv:
  assumes "raftLog_inv rl" "log_commit rl rl'"
  shows "log_grows rl rl' \<and> rl_view rl' = rl_view rl"
proof (cases "rl' = rl")
  case True
  then show ?thesis using assms(1) by (simp add: log_grows_def)
next
  case False
  then obtain to b where to: "raftLog_maybeCommit rl to = Inr (b, rl')" using assms(2) by (auto simp: log_commit_def)
  have "pending_ok rl'" using raftLog_maybeCommit_pending [OF to] assms(1) by (simp add: raftLog_inv_def)
  then show ?thesis
    using raftLog_maybeCommit_view [of rl to] assms(1) to
    by (auto simp: raftLog_inv_def log_grows_def word_le_nat_alt word_less_nat_alt split: if_splits)
qed

lemma append_result_inv:
  assumes "raftLog_inv rl" "append_result rl li c (unat (msg_PrevIndex m) + 1) (msg_Entries m) (i, b, rl')"
    "app_ok rl m" "log_base (rl_view rl) \<le> unat (msg_PrevIndex m)" "unat (msg_PrevIndex m) \<le> log_last (rl_view rl)"
    "pending_ok rl'"
  shows "log_grows rl rl' \<and> log_overwrite rl m (rl_view rl')"
proof (cases "log_conflict (rl_view rl) (unat (msg_PrevIndex m) + 1) (msg_Entries m)")
  case None
  then show ?thesis using assms(1,2) by (simp add: append_result_def log_grows_def log_overwrite_def)
next
  case (Some je)
  obtain j es where je: "je = (j, es)" by fastforce
  note S = log_conflict_Some [OF Some [unfolded je]]
  have last: "j \<le> log_last (rl_view rl) + 1"
    using log_conflict_last [OF Some [unfolded je]] assms(3,5) by (simp add: app_ok_def)
  show ?thesis
  proof (cases "j < unat (rl_committed rl)")
    case True
    then show ?thesis
      using assms(1,2) Some je by (auto simp: append_result_def log_grows_def log_overwrite_def)
  next
    case False
    have wf: "raftLog_wf rl'" and view: "rl_view rl' = log_append (rl_view rl) j es"
      and ap: "rl_applied rl' = rl_applied rl" and
      cm: "unat (rl_committed rl') = (if rl_committed rl < min li c
         then min (unat (min li c)) (log_last (rl_view rl')) else unat (rl_committed rl))"
      using assms(2) Some je False by (auto simp: append_result_def)
    have es: "es = drop (j - (unat (msg_PrevIndex m) + 1)) (msg_Entries m)" "es \<noteq> []"
      "unat (msg_PrevIndex m) < j" "j < unat (msg_PrevIndex m) + 1 + length (msg_Entries m)"
      using S by auto
    have chain: "chain_from j es"
      using chain_from_drop [of "unat (msg_PrevIndex m) + 1" "msg_Entries m" "j - (unat (msg_PrevIndex m) + 1)"]
        es assms(3) by (simp add: app_ok_def)
    have len: "j + length es = unat (msg_PrevIndex m) + 1 + length (msg_Entries m)"
      using es by simp
    have "log_last (log_append (rl_view rl) j es) + 1 = j + length es"
      using log_ok_append(3) [OF rl_view_ok _ last chain] assms(1,3,4) es(3) len
      by (simp add: raftLog_inv_def app_ok_def)
    then have lst: "unat (rl_committed rl) \<le> log_last (rl_view rl')"
      using view False es(2) by (cases es) auto
    have "raftLog_inv rl'"
      using wf cm lst ap assms(1,6) by (auto simp: raftLog_inv_def word_le_nat_alt word_less_nat_alt split: if_splits)
    moreover have "rl_committed rl \<le> rl_committed rl'"
      using cm lst by (auto simp: word_le_nat_alt word_less_nat_alt split: if_splits)
    moreover have "log_overwrite rl m (rl_view rl')"
      unfolding log_overwrite_def using False es last assms(4) view by (intro disjI2 exI [of _ j]) auto
    ultimately show ?thesis using ap by (simp add: log_grows_def)
  qed
qed

lemma raftLog_maybeAppend_total:
  assumes "raftLog_inv rl" "app_ok rl m"
  shows "\<exists>i b rl'. raftLog_maybeAppend rl (msg_PrevIndex m) (msg_PrevTerm m) c (msg_Entries m) = Inr (i, b, rl') \<and>
    log_grows rl rl' \<and> log_overwrite rl m (rl_view rl')"
proof -
  have wf: "raftLog_wf rl" using assms(1) by (simp add: raftLog_inv_def)
  let ?i = "unat (msg_PrevIndex m)"
  have "log_term (rl_view rl) ?i = 0" if "\<not> (log_base (rl_view rl) \<le> ?i \<and> ?i \<le> log_last (rl_view rl))"
    using that by (auto simp: log_term_def)
  then consider "log_term (rl_view rl) ?i \<noteq> msg_PrevTerm m"
    | "log_term (rl_view rl) ?i = msg_PrevTerm m" "log_base (rl_view rl) \<le> ?i" "?i \<le> log_last (rl_view rl)"
    | "log_term (rl_view rl) ?i = msg_PrevTerm m" "msg_Entries m = []"
    using assms(2) unfolding app_ok_def by metis
  then show ?thesis
  proof cases
    case 1
    then show ?thesis
      using raftLog_maybeAppend_reject [OF wf 1, of c "msg_Entries m"] assms(1)
      by (auto simp: log_grows_def log_overwrite_def)
  next
    case 2
    then obtain i b rl' where "raftLog_maybeAppend rl (msg_PrevIndex m) (msg_PrevTerm m) c (msg_Entries m) = Inr (i, b, rl')"
      "append_result rl (msg_PrevIndex m + ulen (msg_Entries m)) c (?i + 1) (msg_Entries m) (i, b, rl')"
      using raftLog_maybeAppend_accept [OF wf, of "msg_PrevIndex m" "msg_Entries m" "msg_PrevTerm m" c] assms(2)
      by (auto simp: app_ok_def)
    then show ?thesis
      using append_result_inv [OF assms(1) _ assms(2) 2(2,3)] raftLog_maybeAppend_pending assms(1)
      unfolding raftLog_inv_def by blast
  next
    case 3
    then have "raftLog_maybeAppend rl (msg_PrevIndex m) (msg_PrevTerm m) c (msg_Entries m) =
        Inr (msg_PrevIndex m, True, rl)"
      using raftLog_matchTerm_view [OF wf] by (simp add: raftLog_maybeAppend_def ulen_def)
    then show ?thesis using assms(1) by (auto simp: log_grows_def log_overwrite_def)
  qed
qed

text \<open>A snapshot that is ahead of \<open>committed\<close> replaces the log.\<close>

lemma raftLog_restore_inv:
  assumes "raftLog_inv rl" "rl_committed rl < snap_Index s" "unat (snap_Index s) + 1 < 2 ^ 64"
  shows "log_grows rl (raftLog_restore rl s) \<and> rl_view (raftLog_restore rl s) = [snap_entry s]"
  using raftLog_restore_view [of rl s] assms
  by (simp add: raftLog_inv_def log_grows_def log_last_def log_base_def word_less_nat_alt pending_ok_def
      raftLog_restore_def unstable_restore_def)

text \<open>The input a node relies on: an \<open>MsgApp\<close> as above, a snapshot message that has its snapshot with
  a configuration, and replies only from peers.\<close>

definition msg_ok :: "raft \<Rightarrow> Message \<Rightarrow> bool" where
  "msg_ok r m \<longleftrightarrow> msg_Type m \<noteq> MsgProp \<and>
     (msg_Type m = MsgApp \<longrightarrow> app_ok (r_logs r) m) \<and>
     (msg_Type m = MsgSnap \<longrightarrow> (\<exists>s. msg_Snap m = Some s \<and> snap_Conf s \<noteq> None \<and> unat (snap_Index s) + 1 < 2 ^ 64)) \<and>
     (msg_Type m = MsgAppResp \<or> msg_Type m = MsgHeartbeatResp \<longrightarrow> msg_From m \<in> set (keys (r_peers r)))"

lemma log_trans_inv:
  assumes "raftLog_inv (r_logs r)" "log_trans m (r_logs r) rl'" "msg_ok r m"
  shows "log_grows (r_logs r) rl'"
proof -
  consider "log_commit (r_logs r) rl'"
    | i b where "msg_Type m = MsgApp" "raftLog_maybeAppend (r_logs r) (msg_PrevIndex m) (msg_PrevTerm m) (msg_Commit m)
        (msg_Entries m) = Inr (i, b, rl')"
    | s where "msg_Type m = MsgSnap" "msg_Snap m = Some s" "rl_committed (r_logs r) < snap_Index s"
        "rl' = raftLog_restore (r_logs r) s"
    using assms(2) by (auto simp: log_trans_def)
  then show ?thesis
  proof cases
    case 1
    then show ?thesis using log_commit_inv assms(1) by blast
  next
    case 2
    then show ?thesis using raftLog_maybeAppend_total [OF assms(1), of m "msg_Commit m"] assms(3) by (auto simp: msg_ok_def)
  next
    case 3
    then show ?thesis using raftLog_restore_inv [OF assms(1)] assms(3) by (auto simp: msg_ok_def)
  qed
qed

end
