(* ===== verification/RaftTotal.thy ===== *)
theory RaftTotal
  imports RaftNode
begin

text \<open>
  No event of the main loop panics on well-formed input, and each keeps the invariant
  \<open>node_ok\<close> of a running instance: every handler is total under it.
\<close>

section \<open>The invariant of an instance\<close>

text \<open>The invariant of a running instance.\<close>

definition node_ok :: "raft \<Rightarrow> bool" where
  "node_ok r \<longleftrightarrow> raftLog_inv (r_logs r) \<and> r_Commit r \<le> rl_committed (r_logs r) \<and> r_electionTimeout r \<noteq> 0 \<and>
     role_ok r"

lemma node_ok_wf: "node_ok r \<Longrightarrow> raftLog_wf (r_logs r)"
  by (simp add: node_ok_def raftLog_inv_def)

lemma raftLog_lastIndex_total: "raftLog_wf rl \<Longrightarrow> \<exists>l. raftLog_lastIndex rl = Inr l"
  using raftLog_last by blast

lemma raft_reset_total: "raftLog_wf (r_logs r) \<Longrightarrow> \<exists>r'. raft_reset r t = Inr r'"
  using raftLog_lastIndex_total [of "r_logs r"] by (auto simp: raft_reset_def Let_def)

lemma raft_reset_config:
  assumes "raft_reset r t = Inr r'"
  shows "r_electionTimeout r' = r_electionTimeout r" "r_maxSizePerMsg r' = r_maxSizePerMsg r"
  using assms by (auto simp: raft_reset_def Let_def split: if_splits)

lemma raft_becomeFollower_total:
  assumes "node_ok r"
  shows "\<exists>r'. raft_becomeFollower r t l = Inr r' \<and> node_ok r'"
proof -
  obtain r1 where r1: "raft_reset (r\<lparr>r_state := StateFollower\<rparr>) t = Inr r1"
    using raft_reset_total [of "r\<lparr>r_state := StateFollower\<rparr>"] node_ok_wf [OF assms] by auto
  then show ?thesis
    using raft_reset_fields [OF r1] raft_reset_config [OF r1] assms
    by (simp add: raft_becomeFollower_def node_ok_def role_ok_def)
qed

lemma raft_becomeCandidate_total:
  assumes "node_ok r"
  shows "\<exists>r'. raft_becomeCandidate r = Inr r' \<and> node_ok r'"
proof -
  obtain r1 where r1: "raft_reset (r\<lparr>r_state := StateCandidate\<rparr>) (r_Term r + 1) = Inr r1"
    using raft_reset_total [of "r\<lparr>r_state := StateCandidate\<rparr>"] node_ok_wf [OF assms] by auto
  then show ?thesis
    using raft_reset_fields [OF r1] raft_reset_config [OF r1] assms
    by (simp add: raft_becomeCandidate_def node_ok_def role_ok_def)
qed

lemma raft_becomeLeader_total:
  assumes "node_ok r"
  shows "\<exists>r'. raft_becomeLeader r = Inr r' \<and> node_ok r'"
proof -
  obtain r1 where r1: "raft_reset (r\<lparr>r_state := StateLeader\<rparr>) (r_Term r + 1) = Inr r1"
    using raft_reset_total [of "r\<lparr>r_state := StateLeader\<rparr>"] node_ok_wf [OF assms] by auto
  then show ?thesis
    using raft_reset_fields [OF r1] raft_reset_config [OF r1] assms
    by (simp add: raft_becomeLeader_def node_ok_def role_ok_def)
qed

text \<open>Reading a slice never panics, whatever the limit and however stale the storage.\<close>

lemma unstable_entries_total:
  assumes "raftLog_wf rl" "lo < hi \<Longrightarrow> u_offset (rl_unstable rl) \<le> lo" "unat hi \<le> log_last (rl_view rl) + 1"
  shows "\<exists>es. unstable_entries (rl_unstable rl) lo hi m = Inr es"
proof (cases "lo < hi")
  case True
  then show ?thesis using unstable_entries_view [OF assms(1) _ True] assms(2,3) by blast
next
  case False
  then show ?thesis by (auto simp: unstable_entries_def)
qed

lemma raftLog_offset_stored:
  assumes "raftLog_wf rl" "log_base (rl_view rl) < unat from"
  shows "unat (u_offset (rl_unstable rl)) \<le> max (log_last (ms_logs (rl_storage rl)) + 1) (unat from)"
  using assms rl_view_Some(2,4) [OF assms(1)]
  by (cases "u_snapshot (rl_unstable rl)") (auto simp: raftLog_wf_def max_def)

lemma raftLog_slice_total:
  assumes "raftLog_wf rl"
  shows "\<exists>res. raftLog_slice sz rl from to m = Inr res \<and>
    (log_base (ms_logs (rl_storage rl)) < unat from \<and> log_base (rl_view rl) < unat from \<and>
     unat to \<le> log_last (rl_view rl) + 1 \<longrightarrow> (\<exists>es. res = Inr es))"
proof -
  let ?st = "rl_storage rl"
  obtain f where f: "raftLog_firstIndex rl = Inr f" "unat f = log_base (rl_view rl) + 1"
    using raftLog_first [OF assms] by blast
  obtain l where l: "raftLog_lastIndex rl = Inr l" "unat l = log_last (rl_view rl)"
    using raftLog_last [OF assms] by blast
  have inv: "storage_inv ?st" using assms by (simp add: raftLog_wf_def)
  obtain s where s: "InMemStorage_lastIndex ?st = Inr s" "unat s = log_last (ms_logs ?st)"
    using ms_last [OF inv] by blast
  have l1: "unat (l + 1) = log_last (rl_view rl) + 1"
    using unat_Suc_u64 [of l] l(2) log_okD(6) [OF rl_view_ok [OF assms]] by simp
  have s1: "unat (s + 1) = log_last (ms_logs ?st) + 1"
    using unat_Suc_u64 [of s] s(2) log_okD(6) inv by (simp add: storage_inv_def)
  show ?thesis
  proof (cases "from \<ge> to \<or> from < f \<or> to > l + 1")
    case True
    then show ?thesis using f l l1 by (auto simp: raftLog_slice_def u64_nat)
  next
    case False
    then have fb: "log_base (rl_view rl) < unat from" and tb: "unat to \<le> log_last (rl_view rl) + 1" and ft: "from < to"
      using f(2) l1 by (auto simp: u64_nat)
    define r1 where "r1 = (if s \<ge> from then InMemStorage_Entries sz ?st from (util_min (s + 1) to) m else Inr (Inr []))"
    have "\<exists>res. r1 = Inr res \<and> (log_base (ms_logs ?st) < unat from \<longrightarrow> (\<exists>es. res = Inr es))"
    proof (cases "log_base (ms_logs ?st) < unat from")
      case True
      have "from \<le> util_min (s + 1) to" if "s \<ge> from" using that ft s1 s(2) by (simp add: u64_nat)
      then show ?thesis using ms_entries [OF inv True] s1 by (auto simp: r1_def unat_min_u64)
    next
      case low: False
      obtain fs where "InMemStorage_firstIndex ?st = Inr fs" "unat fs = log_base (ms_logs ?st) + 1"
        using ms_first [OF inv] by blast
      then show ?thesis using low s(1) by (simp add: r1_def InMemStorage_Entries_def word_less_nat_alt)
    qed
    then obtain res where res: "r1 = Inr res" "log_base (ms_logs ?st) < unat from \<longrightarrow> (\<exists>es. res = Inr es)" by blast
    have "\<exists>us. unstable_entries (rl_unstable rl) (util_max (s + 1) from) to m = Inr us"
      by (rule unstable_entries_total [OF assms _ tb])
         (use raftLog_offset_stored [OF assms fb] s1 in \<open>simp add: word_le_nat_alt unat_max_u64\<close>)
    then obtain us where us: "unstable_entries (rl_unstable rl) (util_max (s + 1) from) to m = Inr us" by blast
    have "raftLog_slice sz rl from to m =
        go_bind r1 (\<lambda>r2. case r2 of Inl err \<Rightarrow> Inr (Inl err) | Inr es \<Rightarrow> Inr (Inr (limitSize sz (es @ us) m)))"
      using False f(1) l(1) s(1) us by (simp add: raftLog_slice_def InMemStorage_LastIndex_def r1_def cong: sum.case_cong)
    then show ?thesis using res by (cases res) auto
  qed
qed

lemma raftLog_slice_ok:
  assumes "raftLog_wf rl" "u_snapshot (rl_unstable rl) = None" "log_base (rl_view rl) < unat from"
    "unat to \<le> log_last (rl_view rl) + 1"
  shows "\<exists>es. raftLog_slice sz rl from to m = Inr (Inr es)"
  using raftLog_slice_total [OF assms(1)] rl_view_None(2) [OF assms(1,2)] assms(3,4) by metis

lemma raftLog_entries_total: "raftLog_wf rl \<Longrightarrow> \<exists>res. raftLog_entries sz rl from m = Inr res"
  using raftLog_lastIndex_total [of rl] raftLog_slice_total [of rl]
  by (auto simp: raftLog_entries_def) (metis)+

lemma raftLog_snapshot_total: "\<exists>s. raftLog_snapshot rl = Inr s"
  by (simp add: raftLog_snapshot_def InMemStorage_Snapshot_def split: option.splits)

lemma node_ok_frame:
  "same_node r r' \<Longrightarrow> raftLog_inv (r_logs r') \<Longrightarrow> rl_committed (r_logs r) \<le> rl_committed (r_logs r') \<Longrightarrow> node_ok r \<Longrightarrow> node_ok r'"
  by (auto simp: node_ok_def same_node_def role_ok_def)

lemma node_ok_same: "same_node r r' \<Longrightarrow> r_logs r' = r_logs r \<Longrightarrow> node_ok r \<Longrightarrow> node_ok r'"
  by (rule node_ok_frame) (auto simp: node_ok_def)

lemma raft_sendAppend_total:
  assumes "raftLog_wf (r_logs r)"
  shows "\<exists>r'. raft_sendAppend sz r to = Inr r'"
proof (cases "map_of (r_peers r) to")
  case (Some p)
  obtain t where t: "raftLog_term (r_logs r) (pr_next p - 1) = Inr (Inr t)"
    using raftLog_term_view [OF assms] by blast
  obtain es where es: "raftLog_entries sz (r_logs r) (pr_next p) (r_maxSizePerMsg r) = Inr es"
    using raftLog_entries_total [OF assms] by blast
  show ?thesis
    using Some t es raftLog_snapshot_total [of "r_logs r"]
    by (cases es) (auto simp: raft_sendAppend_def Let_def)
qed (simp add: raft_sendAppend_def)

lemma raft_bcastAppend_total:
  assumes "raftLog_wf (r_logs r)"
  shows "\<exists>r'. raft_bcastAppend sz r = Inr r'"
proof -
  have "\<exists>r'. raft_bcastAppend_loop sz r ids = Inr r'" for ids
    using assms
  proof (induction ids arbitrary: r)
    case (Cons k ids)
    obtain r1 where "raft_sendAppend sz r k = Inr r1" using raft_sendAppend_total [OF Cons.prems] by blast
    then show ?case using Cons raft_sendAppend_same [of sz r k r1] by auto
  qed simp
  then show ?thesis by (simp add: raft_bcastAppend_def)
qed

lemma raft_maybeCommit_total:
  assumes "raftLog_wf (r_logs r)" "r_peers r \<noteq> []"
  shows "\<exists>b r'. raft_maybeCommit r = Inr (b, r')"
proof -
  have "raft_q r - 1 < length (rev (sort (map (\<lambda>(nid, p). pr_match p) (r_peers r))))"
    using assms(2) by (cases "r_peers r") (simp_all add: raft_q_def)
  then show ?thesis
    using raftLog_maybeCommit_view [OF assms(1)] by (fastforce simp: raft_maybeCommit_def Let_def)
qed

lemma raft_campaign_total:
  assumes "node_ok r"
  shows "\<exists>r'. raft_campaign r = Inr r' \<and> node_ok r'"
proof -
  obtain r1 where r1: "raft_becomeCandidate r = Inr r1" "node_ok r1"
    using raft_becomeCandidate_total [OF assms] by blast
  obtain cnt r2 where p: "raft_poll r1 (r_id r1) True = (cnt, r2)" by fastforce
  have "node_ok r2"
    using raft_poll_same [OF p] node_ok_same r1(2) by blast
  then obtain r3 where r3: "(if raft_q r1 \<le> cnt then raft_becomeLeader r2 else Inr r2) = Inr r3" "node_ok r3"
    using raft_becomeLeader_total [of r2] by (cases "raft_q r1 \<le> cnt") auto
  have wf: "raftLog_wf (r_logs r3)" using node_ok_wf [OF r3(2)] .
  obtain li where li: "raftLog_lastIndex (r_logs r3) = Inr li"
    using raftLog_lastIndex_total [OF wf] by blast
  have "node_ok (raft_broadcast r3 m)" for m
    using raft_broadcast_same [of r3 m] node_ok_same r3(2) by blast
  then show ?thesis
    using r1(1) p r3(1) li raftLog_lastTerm_view [OF wf] by (simp add: raft_campaign_def)
qed

lemma raft_tick_total:
  assumes "node_ok r"
  shows "\<exists>r'. raft_tick r rnd = Inr r' \<and> node_ok r'"
proof (cases "r_state r = StateLeader")
  case True
  have "same_node r (raft_tickHeartbeat r)" "r_logs (raft_tickHeartbeat r) = r_logs r"
    using raft_broadcast_same by (auto simp: raft_tickHeartbeat_def Let_def same_node_def)
  then have "node_ok (raft_tickHeartbeat r)"
    using assms node_ok_same by blast
  then show ?thesis using True assms by (simp add: raft_tick_def node_ok_def role_ok_def)
next
  case False
  define r1 where "r1 = r\<lparr>r_electionElapsed := wrap_int64 (r_electionElapsed r + 1)\<rparr>"
  have n1: "node_ok r1" using assms by (simp add: node_ok_def role_ok_def r1_def)
  have tick: "r_tick r = TickElection"
    using False assms by (cases "r_state r") (auto simp: node_ok_def role_ok_def)
  have "\<exists>b. raft_isElectionTimeout r1 rnd = Inr b"
    using n1 by (auto simp: raft_isElectionTimeout_def Let_def node_ok_def)
  then obtain b where "raft_isElectionTimeout r1 rnd = Inr b" by blast
  then show ?thesis
    using tick raft_campaign_total [OF n1] n1
    by (cases b) (simp_all add: raft_tick_def raft_tickElection_def Let_def r1_def)
qed

lemma raft_handleHeartbeat_total: "raftLog_wf (r_logs r) \<Longrightarrow> \<exists>r'. raft_handleHeartbeat r m = Inr r'"
  using raftLog_maybeCommit_view [of "r_logs r" "msg_Commit m"] by (auto simp: raft_handleHeartbeat_def)

lemma raft_handleAppend_total:
  "raftLog_inv (r_logs r) \<Longrightarrow> app_ok (r_logs r) m \<Longrightarrow> \<exists>r'. raft_handleAppend r m = Inr r'"
  using raftLog_maybeAppend_total [of "r_logs r" m "msg_Commit m"] by (auto simp: raft_handleAppend_def)

lemma raft_maybeRestore_total:
  assumes "raftLog_inv (r_logs r)" "snap_Conf s \<noteq> None" "unat (snap_Index s) + 1 < 2 ^ 64"
  shows "\<exists>b r'. raft_maybeRestore r s = Inr (b, r') \<and> raftLog_wf (r_logs r')"
proof (cases "snap_Index s \<le> rl_committed (r_logs r)")
  case True
  then show ?thesis using assms(1) by (auto simp: raft_maybeRestore_def raftLog_inv_def)
next
  case False
  have wf: "raftLog_wf (r_logs r)" using assms(1) by (simp add: raftLog_inv_def)
  obtain mt where mt: "raftLog_matchTerm (r_logs r) (snap_Index s) (snap_Term s) = Inr mt"
    using raftLog_matchTerm_view [OF wf] by blast
  obtain c where c: "snap_Conf s = Some c" using assms(2) by blast
  have wf': "raftLog_wf (raftLog_restore (r_logs r) s)" using raftLog_restore_view(1) [OF wf assms(3)] .
  obtain l where l: "raftLog_lastIndex (raftLog_restore (r_logs r) s) = Inr l"
    using raftLog_lastIndex_total [OF wf'] by blast
  show ?thesis
  proof (cases mt)
    case True
    then show ?thesis
      using raftLog_maybeCommit_view [OF wf, of "snap_Index s"] False mt by (auto simp: raft_maybeRestore_def)
  next
    case nm: False
    then show ?thesis using False mt c l wf' by (auto simp: raft_maybeRestore_def Let_def)
  qed
qed

lemma raft_handleSnapshot_total:
  assumes "raftLog_inv (r_logs r)" "msg_Snap m = Some s" "snap_Conf s \<noteq> None" "unat (snap_Index s) + 1 < 2 ^ 64"
  shows "\<exists>r'. raft_handleSnapshot r m = Inr r'"
proof -
  obtain b r1 where r1: "raft_maybeRestore r s = Inr (b, r1)" "raftLog_wf (r_logs r1)"
    using raft_maybeRestore_total [OF assms(1,3,4)] by blast
  obtain l where "raftLog_lastIndex (r_logs r1) = Inr l" using raftLog_lastIndex_total [OF r1(2)] by blast
  then show ?thesis using r1 assms(2) raftLog_lastTerm_view [OF r1(2)] by (simp add: raft_handleSnapshot_def)
qed

lemma log_grows_node:
  "log_grows (r_logs r) (r_logs r') \<Longrightarrow> same_node r r' \<Longrightarrow> node_ok r \<Longrightarrow> node_ok r'"
  by (auto intro: node_ok_frame simp: log_grows_def)

lemma raft_advanceFollower_same:
  assumes "raft_advanceFollower r m = Inr r'"
  shows "r_Commit r' = r_Commit r \<and> r_electionTimeout r' = r_electionTimeout r \<and> role_ok r' = role_ok r \<and>
    r_maxSizePerMsg r' = r_maxSizePerMsg r"
proof (cases "msg_Type m")
  case MsgApp
  then show ?thesis using assms raft_handleAppend_log
    by (fastforce simp: raft_advanceFollower_def same_node_def role_ok_def)
next
  case MsgSnap
  then show ?thesis using assms raft_handleSnapshot_log
    by (fastforce simp: raft_advanceFollower_def same_node_def role_ok_def)
next
  case MsgHeartbeat
  then show ?thesis using assms raft_handleHeartbeat_log
    by (fastforce simp: raft_advanceFollower_def same_node_def role_ok_def)
qed (use assms in \<open>auto simp: raft_advanceFollower_def role_ok_def split: if_splits\<close>)

lemma raft_advanceFollower_total:
  assumes "node_ok r" "msg_ok r m"
  shows "\<exists>r'. raft_advanceFollower r m = Inr r' \<and> node_ok r'"
proof -
  have wf: "raftLog_wf (r_logs r)" using node_ok_wf [OF assms(1)] .
  have inv: "raftLog_inv (r_logs r)" using assms(1) by (simp add: node_ok_def)
  have "\<exists>r'. raft_advanceFollower r m = Inr r'"
  proof (cases "msg_Type m")
    case MsgApp
    then show ?thesis
      using raft_handleAppend_total [of "r\<lparr>r_electionElapsed := 0\<rparr>" m] inv assms(2)
      by (simp add: raft_advanceFollower_def msg_ok_def)
  next
    case MsgSnap
    then show ?thesis
      using raft_handleSnapshot_total [of "r\<lparr>r_electionElapsed := 0\<rparr>" m] inv assms(2)
      by (auto simp: raft_advanceFollower_def msg_ok_def)
  next
    case MsgHeartbeat
    then show ?thesis
      using raft_handleHeartbeat_total [of "r\<lparr>r_electionElapsed := 0, r_leader := msg_From m\<rparr>" m] wf
      by (simp add: raft_advanceFollower_def)
  next
    case MsgVote
    then show ?thesis
      using raftLog_isUpToDate_view [OF wf, of "msg_PrevIndex m" "msg_PrevTerm m"]
      by (cases "r_Vote r = NoneId \<or> r_Vote r = msg_From m") (auto simp: raft_advanceFollower_def)
  qed (simp_all add: raft_advanceFollower_def)
  then obtain r' where r': "raft_advanceFollower r m = Inr r'" by blast
  have "log_grows (r_logs r) (r_logs r')"
    using log_trans_inv [OF inv raft_advanceFollower_log [OF r'] assms(2)] .
  then show ?thesis
    using r' raft_advanceFollower_same [OF r'] assms(1) by (auto simp: node_ok_def log_grows_def)
qed

lemma msg_ok_cong: "r_logs r' = r_logs r \<Longrightarrow> keys (r_peers r') = keys (r_peers r) \<Longrightarrow> msg_ok r' m = msg_ok r m"
  by (simp add: msg_ok_def)

lemma raft_becomeFollower_keys: "raft_becomeFollower r t l = Inr r' \<Longrightarrow> keys (r_peers r') = keys (r_peers r)"
  by (auto simp: raft_becomeFollower_def raft_reset_fields)

lemma raft_becomeFollower_msg_ok:
  "raft_becomeFollower r t l = Inr r' \<Longrightarrow> msg_ok r m \<Longrightarrow> msg_ok r' m"
  by (metis msg_ok_cong raft_becomeFollower_fields(4) raft_becomeFollower_keys)

lemma raft_handler_total:
  assumes "node_ok r" "msg_ok r m"
  shows "msg_Type m = MsgApp \<Longrightarrow> \<exists>r'. raft_handleAppend r m = Inr r' \<and> node_ok r'"
    "msg_Type m = MsgSnap \<Longrightarrow> \<exists>r'. raft_handleSnapshot r m = Inr r' \<and> node_ok r'"
    "\<exists>r'. raft_handleHeartbeat r m = Inr r' \<and> node_ok r'"
proof -
  have wf: "raftLog_wf (r_logs r)" and inv: "raftLog_inv (r_logs r)"
    using assms(1) node_ok_wf by (auto simp: node_ok_def)
  show "\<exists>r'. raft_handleAppend r m = Inr r' \<and> node_ok r'" if t: "msg_Type m = MsgApp"
  proof -
    obtain r' where r': "raft_handleAppend r m = Inr r'"
      using raft_handleAppend_total [OF inv] assms(2) t by (auto simp: msg_ok_def)
    then have "log_trans m (r_logs r) (r_logs r')" "same_node r r'"
      using raft_handleAppend_log [OF r'] t by (auto simp: log_trans_def)
    then show ?thesis using r' log_grows_node log_trans_inv [OF inv _ assms(2)] assms(1) by blast
  qed
  show "\<exists>r'. raft_handleSnapshot r m = Inr r' \<and> node_ok r'" if t: "msg_Type m = MsgSnap"
  proof -
    obtain r' where r': "raft_handleSnapshot r m = Inr r'"
      using raft_handleSnapshot_total [OF inv] assms(2) t by (auto simp: msg_ok_def)
    then have "log_trans m (r_logs r) (r_logs r')" "same_node r r'"
      using raft_handleSnapshot_log [OF r'] t by (auto simp: log_trans_def)
    then show ?thesis using r' log_grows_node log_trans_inv [OF inv _ assms(2)] assms(1) by blast
  qed
  show "\<exists>r'. raft_handleHeartbeat r m = Inr r' \<and> node_ok r'"
    using raft_handleHeartbeat_total [OF wf, of m] raft_handleHeartbeat_log log_commit_inv [OF inv]
      log_grows_node assms(1) by meson
qed

lemma raft_advanceCandidate_total:
  assumes "node_ok r" "msg_ok r m"
  shows "\<exists>r'. raft_advanceCandidate sz r m = Inr r' \<and> node_ok r'"
proof -
  obtain rf where rf: "raft_becomeFollower r (msg_Term m) (msg_From m) = Inr rf" "node_ok rf"
    using raft_becomeFollower_total [OF assms(1)] by blast
  note H = raft_handler_total [OF rf(2) raft_becomeFollower_msg_ok [OF rf(1) assms(2)]]
  show ?thesis
  proof (cases "msg_Type m")
    case MsgApp
    then show ?thesis using H(1) rf(1) by (auto simp: raft_advanceCandidate_def)
  next
    case MsgSnap
    then show ?thesis using H(2) rf(1) by (auto simp: raft_advanceCandidate_def)
  next
    case MsgHeartbeat
    then show ?thesis using H(3) rf(1) by (auto simp: raft_advanceCandidate_def)
  next
    case MsgVote
    obtain cnt r1 where p: "raft_poll r (msg_From m) False = (cnt, r1)" by fastforce
    have "node_ok r1" using raft_poll_same [OF p] node_ok_same assms(1) by blast
    then have "node_ok (raft_sendTo r1 k m')" for k m' by (simp add: node_ok_def role_ok_def)
    then show ?thesis using MsgVote p by (simp add: raft_advanceCandidate_def)
  next
    case MsgVoteResp
    obtain gr r1 where p: "raft_poll r (msg_From m) (\<not> msg_Reject m) = (gr, r1)" by fastforce
    have n1: "node_ok r1" using raft_poll_same [OF p] node_ok_same assms(1) by blast
    obtain r2 where r2: "raft_becomeLeader r1 = Inr r2" "node_ok r2"
      using raft_becomeLeader_total [OF n1] by blast
    obtain r3 where r3: "raft_bcastAppend sz r2 = Inr r3"
      using raft_bcastAppend_total [OF node_ok_wf [OF r2(2)]] by blast
    have "node_ok r3" using raft_bcastAppend_same [OF r3] node_ok_same r2(2) by blast
    then show ?thesis
      using MsgVoteResp p r2 r3 n1 raft_becomeFollower_total [OF n1]
      by (auto simp: raft_advanceCandidate_def)
  qed (use assms(1) in \<open>simp_all add: raft_advanceCandidate_def\<close>)
qed

lemma raft_leader_AppResp_total:
  assumes "node_ok r" "msg_Type m = MsgAppResp" "map_of (r_peers r) (msg_From m) = Some p"
  shows "\<exists>r'. raft_advanceLeader sz r m = Inr r'"
proof -
  let ?up = "\<lambda>p'. r\<lparr>r_peers := AList.update (msg_From m) p' (r_peers r)\<rparr>"
  have wf: "raftLog_wf (r_logs (?up p'))" for p' using node_ok_wf [OF assms(1)] by simp
  have snd: "\<exists>r'. raft_sendAppend sz (?up p') to = Inr r'" for p' to using raft_sendAppend_total [OF wf] .
  have commit: "\<exists>b r1 r'. raft_maybeCommit (?up p') = Inr (b, r1) \<and> raft_sendAppend sz r1 to = Inr r'" for p' to
  proof -
    have "r_peers (?up p') \<noteq> []" using assms(3) by (cases "r_peers r") auto
    then obtain b r1 where r1: "raft_maybeCommit (?up p') = Inr (b, r1)"
      using raft_maybeCommit_total [OF wf] by blast
    have "raftLog_inv (r_logs r)" "log_commit (r_logs r) (r_logs r1)"
      using assms(1) raft_maybeCommit_same [OF r1] by (simp_all add: node_ok_def)
    then have "raftLog_wf (r_logs r1)"
      using log_commit_inv by (metis log_grows_def raftLog_inv_def)
    then show ?thesis using r1 raft_sendAppend_total by blast
  qed
  obtain upd p1 where u: "Progress_maybeUpdate p (msg_PrevIndex m) = (upd, p1)" by fastforce
  define p2 where "p2 = (if pr_state p1 = StateProbe then Progress_becomeReplica p1
      else if pr_state p1 = StateSnapshot \<and> Progress_maybeSnapshotEnd p1 then Progress_becomeProbe p1 else p1)"
  consider "msg_Reject m" | "\<not> msg_Reject m" "\<not> upd" | "\<not> msg_Reject m" upd by blast
  then show ?thesis
  proof cases
    case 1
    define p3 where "p3 = (if pr_state (Progress_decreaseTo p (msg_PrevIndex m)) = StateReplica
        then Progress_becomeProbe (Progress_decreaseTo p (msg_PrevIndex m)) else Progress_decreaseTo p (msg_PrevIndex m))"
    have "raft_advanceLeader sz r m = raft_sendAppend sz (?up p3) (msg_From m)"
      using 1 assms(2,3) by (simp add: raft_advanceLeader_def Let_def p3_def)
    then show ?thesis using snd [of p3 "msg_From m"] by simp
  next
    case 2
    then show ?thesis using assms(2,3) u by (simp add: raft_advanceLeader_def Let_def)
  next
    case 3
    obtain b r1 r' where "raft_maybeCommit (?up p2) = Inr (b, r1)" "raft_sendAppend sz r1 (msg_From m) = Inr r'"
      using commit [of p2 "msg_From m"] by blast
    moreover have "raft_advanceLeader sz r m =
        go_bind (raft_maybeCommit (?up p2)) (\<lambda>(_, r1). raft_sendAppend sz r1 (msg_From m))"
      using 3 assms(2,3) u by (simp add: raft_advanceLeader_def Let_def p2_def)
    ultimately have "raft_advanceLeader sz r m = Inr r'" by simp
    then show ?thesis by blast
  qed
qed

lemma raft_advanceLeader_total:
  assumes "node_ok r" "msg_ok r m"
  shows "\<exists>r'. raft_advanceLeader sz r m = Inr r' \<and> node_ok r'"
proof -
  have "\<exists>r'. raft_advanceLeader sz r m = Inr r'"
  proof (cases "msg_Type m = MsgAppResp \<or> msg_Type m = MsgHeartbeatResp")
    case True
    then obtain p where p: "map_of (r_peers r) (msg_From m) = Some p"
      using assms(2) by (metis map_of_None_keys msg_ok_def not_None_eq)
    then show ?thesis
      using True raft_leader_AppResp_total [OF assms(1) _ p] by (auto simp: raft_advanceLeader_def)
  next
    case False
    then show ?thesis
      using assms(2) by (cases "msg_Type m") (simp_all add: raft_advanceLeader_def msg_ok_def)
  qed
  then obtain r' where r': "raft_advanceLeader sz r m = Inr r'" by blast
  then have "log_commit (r_logs r) (r_logs r')" "same_node r r'"
    using raft_advanceLeader_log [OF r'] assms(2) by (auto simp: msg_ok_def)
  then show ?thesis using r' log_grows_node log_commit_inv assms(1) by (metis node_ok_def)
qed

lemma raft_advance_total:
  assumes "node_ok r" "msg_ok r m"
  shows "\<exists>r'. raft_advance sz r m = Inr r' \<and> node_ok r'"
proof (cases "r_state r")
  case StateFollower
  then show ?thesis
    using raft_advanceFollower_total [OF assms] assms(1) by (simp add: raft_advance_def node_ok_def role_ok_def)
next
  case StateCandidate
  then show ?thesis
    using raft_advanceCandidate_total [OF assms] assms(1) by (simp add: raft_advance_def node_ok_def role_ok_def)
next
  case StateLeader
  then show ?thesis
    using raft_advanceLeader_total [OF assms] assms(1) by (simp add: raft_advance_def node_ok_def role_ok_def)
qed

lemma raft_onMsg_total:
  assumes "node_ok r" "msg_ok r m"
  shows "\<exists>r'. raft_onMsg sz r m = Inr r' \<and> node_ok r'"
proof (cases "r_Term r > msg_Term m")
  case True
  then show ?thesis using assms(1) by (simp add: raft_onMsg_def)
next
  case False
  obtain rf where rf: "raft_becomeFollower r (msg_Term m)
      (if oneOf (msg_Type m) noLeadTypeSet then NoneId else msg_From m) = Inr rf" "node_ok rf"
    using raft_becomeFollower_total [OF assms(1)] by blast
  define r1 where "r1 = (if r_Term r < msg_Term m then rf else r)"
  have "node_ok r1" "msg_ok r1 m"
    using rf assms raft_becomeFollower_msg_ok [OF rf(1)] by (simp_all add: r1_def)
  then obtain r2 where r2: "raft_advance sz r1 m = Inr r2" "node_ok r2"
    using raft_advance_total by blast
  have "raft_onMsg sz r m = Inr (if rl_committed (r_logs r2) > r_Commit r2
      then r2\<lparr>r_Commit := rl_committed (r_logs r2)\<rparr> else r2)"
    using False rf(1) r2(1) unfolding r1_def raft_onMsg_def by (cases "r_Term r < msg_Term m") simp_all
  then show ?thesis using r2(2) by (auto simp: node_ok_def role_ok_def)
qed

lemma raft_onProp_total:
  assumes "node_ok (lp_raft lp)" "log_last (rl_view (r_logs (lp_raft lp))) + 2 < 2 ^ 64"
  shows "\<exists>lp'. raft_onProp sz lp unit = Inr lp' \<and> node_ok (lp_raft lp')"
proof (cases "pu_Type unit = EntryConfChange \<and> r_pendingConf (lp_raft lp)")
  case True
  then show ?thesis using assms(1) by (simp add: raft_onProp_def)
next
  case False
  define r1 where "r1 = (if pu_Type unit = EntryConfChange then (lp_raft lp)\<lparr>r_pendingConf := True\<rparr> else lp_raft lp)"
  have n1: "node_ok r1" and logs: "r_logs r1 = r_logs (lp_raft lp)"
    using assms(1) by (simp_all add: r1_def node_ok_def role_ok_def)
  have wf: "raftLog_wf (r_logs r1)" and inv: "raftLog_inv (r_logs r1)" using n1 node_ok_wf by (auto simp: node_ok_def)
  obtain l where l: "raftLog_lastIndex (r_logs r1) = Inr l" "unat l = log_last (rl_view (r_logs r1))"
    using raftLog_last [OF wf] by blast
  define e where "e = \<lparr>ent_Type = pu_Type unit, ent_Index = l + 1, ent_Term = r_Term r1, ent_Data = pu_Data unit\<rparr>"
  define m where "m = zero_Message\<lparr>msg_Type := MsgProp, msg_From := r_id r1, msg_To := r_id r1,
      msg_Term := r_Term r1, msg_Entries := [e]\<rparr>"
  have "unat (l + 1) = log_last (rl_view (r_logs r1)) + 1"
    using unat_Suc_u64 [of l] l(2) assms(2) logs by simp
  then obtain rl' where rl': "raftLog_append (r_logs r1) [e] = Inr rl'" "raftLog_inv rl'"
      "rl_committed rl' = rl_committed (r_logs r1)"
    using raftLog_append_view [OF wf, of "[e]"] assms(2) logs inv raftLog_append_pending [of "r_logs r1" "[e]"]
      log_last_append [OF log_okD(1) [OF rl_view_ok [OF wf]], of "[e]"]
    by (auto simp: e_def raftLog_inv_def)
  have "\<exists>r'. raft_advanceLeader sz r1 m = Inr r' \<and> node_ok r'"
  proof (cases "map_of (r_peers r1) (r_id r1)")
    case None
    then show ?thesis using n1 by (simp add: raft_advanceLeader_def m_def)
  next
    case (Some p)
    have n2: "node_ok (r1\<lparr>r_logs := rl'\<rparr>)" using n1 rl' by (simp add: node_ok_def role_ok_def)
    obtain r' where r': "raft_bcastAppend sz (r1\<lparr>r_logs := rl'\<rparr>) = Inr r'"
      using raft_bcastAppend_total [OF node_ok_wf [OF n2]] by blast
    then show ?thesis
      using Some rl'(1) raft_bcastAppend_same [OF r'] node_ok_same [OF _ _ n2]
      by (auto simp: raft_advanceLeader_def m_def)
  qed
  then have "\<exists>r'. raft_advance sz r1 m = Inr r' \<and> node_ok r'"
    using n1 by (cases "r_state r1")
      (auto simp: raft_advance_def node_ok_def role_ok_def raft_advanceFollower_def raft_advanceCandidate_def m_def)
  then show ?thesis using False l(1) unfolding raft_onProp_def Let_def by (auto simp: r1_def m_def e_def)
qed

text \<open>What an event may be: any local one while the log has room for one more index, and a
  message as above.\<close>

definition event_ok :: "raft \<Rightarrow> event \<Rightarrow> bool" where
  "event_ok r ev \<longleftrightarrow>
     (case ev of EvMsg m \<Rightarrow> msg_ok r m | EvProp unit \<Rightarrow> log_last (rl_view (r_logs r)) + 2 < 2 ^ 64 | _ \<Rightarrow> True)"

lemma raft_onCommitted_total:
  assumes "node_ok (lp_raft lp)"
  shows "\<exists>lp'. raft_onCommitted sz lp = Inr lp' \<and> lp_raft lp' = lp_raft lp"
proof -
  let ?rl = "r_logs (lp_raft lp)" and ?c = "r_Commit (lp_raft lp)"
  have wf: "raftLog_wf ?rl" and c: "unat ?c \<le> log_last (rl_view ?rl)"
    using assms by (auto simp: node_ok_def raftLog_inv_def word_le_nat_alt)
  obtain f where f: "raftLog_firstIndex ?rl = Inr f" "unat f = log_base (rl_view ?rl) + 1"
    using raftLog_first [OF wf] by blast
  let ?from = "util_max (rl_applied ?rl + 1) f"
  have "log_base (rl_view ?rl) < unat ?from" "unat (?c + 1) = unat ?c + 1"
    "unat (?c + 1) \<le> log_last (rl_view ?rl) + 1"
    using f(2) c unat_Suc_u64 [of ?c] log_okD(6) [OF rl_view_ok [OF wf]] by (simp_all add: unat_max_u64)
  moreover have "?c + 1 \<le> ?from" if "u_snapshot (rl_unstable ?rl) = Some s" for s
    using that assms rl_view_Some(2) [OF wf that] f(2) \<open>unat (?c + 1) = unat ?c + 1\<close>
    by (auto simp: node_ok_def raftLog_inv_def pending_ok_def u64_nat unat_max_u64)
  ultimately have "\<exists>es. raftLog_slice sz ?rl ?from (?c + 1) noLimit = Inr (Inr es)"
    using raftLog_slice_ok [OF wf] by (cases "u_snapshot (rl_unstable ?rl)") (auto simp: raftLog_slice_def)
  then show ?thesis using f(1) by (auto simp: raft_onCommitted_def Let_def)
qed

lemma raft_onConf_total:
  assumes "node_ok (lp_raft lp)"
  shows "\<exists>res. raft_onConf lp cc = Inr res \<and> (\<forall>lp'. res = Running lp' \<longrightarrow> node_ok (lp_raft lp'))"
proof -
  have keep: "node_ok ((lp_raft lp)\<lparr>r_pendingConf := b\<rparr>)" "node_ok ((lp_raft lp)\<lparr>r_peers := ps, r_pendingConf := b\<rparr>)"
    for b ps using assms by (simp_all add: node_ok_def role_ok_def)
  obtain l where l: "raftLog_lastIndex (r_logs (lp_raft lp)) = Inr l"
    using raftLog_lastIndex_total [OF node_ok_wf [OF assms]] by blast
  have "\<exists>r1. raft_addNode (lp_raft lp) (cc_Node cc) = Inr r1 \<and> node_ok r1"
    using keep l by (cases "map_of (r_peers (lp_raft lp)) (cc_Node cc)") (simp_all add: raft_addNode_def)
  then show ?thesis
    using keep by (cases "cc_Type cc") (auto simp: raft_onConf_def Let_def)
qed

lemma raftLog_appliedTo_inv: "raftLog_inv rl \<Longrightarrow> raftLog_inv (snd (raftLog_appliedTo rl to))"
  using raftLog_same [of "rl\<lparr>rl_applied := min (rl_committed rl) to\<rparr>" rl]
  by (simp add: raftLog_appliedTo_def Let_def raftLog_inv_def pending_ok_def)

lemma raftLog_appliedTo_committed [simp]: "rl_committed (snd (raftLog_appliedTo rl to)) = rl_committed rl"
  by (simp add: raftLog_appliedTo_def Let_def)

lemma mainLoop_step_total:
  assumes "node_ok (lp_raft lp)" "event_ok (lp_raft lp) ev"
  shows "\<exists>res. mainLoop_step sz lp ev = Inr res \<and> (\<forall>lp'. res = Running lp' \<longrightarrow> node_ok (lp_raft lp'))"
proof (cases ev)
  case (EvTick rnd)
  obtain r' where "raft_tick (lp_raft lp) rnd = Inr r'" "node_ok r'" using raft_tick_total [OF assms(1)] by blast
  then show ?thesis using EvTick by (simp add: mainLoop_step_def)
next
  case EvCommitted
  obtain lp' where "raft_onCommitted sz lp = Inr lp'" "lp_raft lp' = lp_raft lp"
    using raft_onCommitted_total [OF assms(1)] by blast
  then show ?thesis using EvCommitted assms(1) by (simp add: mainLoop_step_def)
next
  case (EvApply to)
  have "raftLog_inv (snd (raftLog_appliedTo (r_logs (lp_raft lp)) to))"
    using assms(1) by (intro raftLog_appliedTo_inv) (simp add: node_ok_def)
  then have "node_ok ((lp_raft lp)\<lparr>r_logs := snd (raftLog_appliedTo (r_logs (lp_raft lp)) to)\<rparr>)"
    using assms(1) by (simp add: node_ok_def role_ok_def)
  then show ?thesis using EvApply by (simp add: mainLoop_step_def)
next
  case (EvConf cc)
  then have "mainLoop_step sz lp ev = raft_onConf lp cc" by (simp add: mainLoop_step_def)
  then show ?thesis using raft_onConf_total [OF assms(1), of cc] by metis
next
  case (EvProp unit)
  then have "log_last (rl_view (r_logs (lp_raft lp))) + 2 < 2 ^ 64" using assms(2) by (simp add: event_ok_def)
  then obtain lp' where "raft_onProp sz lp unit = Inr lp'" "node_ok (lp_raft lp')"
    using raft_onProp_total [OF assms(1)] by blast
  then show ?thesis using EvProp by (simp add: mainLoop_step_def)
next
  case (EvMsg m)
  then have "msg_ok (lp_raft lp) m" using assms(2) by (simp add: event_ok_def)
  then obtain r' where "raft_onMsg sz (lp_raft lp) m = Inr r'" "node_ok r'"
    using raft_onMsg_total [OF assms(1)] by blast
  then show ?thesis using EvMsg by (simp add: mainLoop_step_def)
next
  case EvStop
  then have "mainLoop_step sz lp ev = Inr (Stopped lp)" by (simp add: mainLoop_step_def)
  then show ?thesis by blast
qed

end
