(* ===== verification/RaftCluster.thy ===== *)
theory RaftCluster
  imports RaftElection
begin

text \<open>
  A group of instances of \<open>raft.go\<close> with a fixed membership \<open>N\<close>, each running its main loop, and a
  network that may lose, delay, duplicate and reorder: whatever a member ever put on its \<open>outc\<close> can
  be handed to its addressee at any time, any number of times. A step of the group is one
  iteration of one member's loop. The group refines \<open>ElectionSpec\<close>, so a term has at most one leader.
\<close>

section \<open>The group\<close>

type_synonym cluster = "u64 \<Rightarrow> loop"

definition cluster_net :: "u64 set \<Rightarrow> cluster \<Rightarrow> Message set" where
  "cluster_net N C = (\<Union>n \<in> N. set (r_outc (lp_raft (C n))))"

text \<open>\<open>term_room\<close>: the term, a \<open>uint64\<close>, is not within two of wrapping; one event raises it by at most
  two of its own accord (a lone node campaigns and wins in the same tick).\<close>

definition term_room :: "loop \<Rightarrow> bool" where
  "term_room lp \<longleftrightarrow> r_Term (lp_raft lp) < 18446744073709551614"

lemma term_room_unat: "term_room lp \<longleftrightarrow> unat (r_Term (lp_raft lp)) + 2 < 2 ^ 64"
  by (simp add: term_room_def word_less_nat_alt)

inductive cluster_step :: "(Entry \<Rightarrow> u64) \<Rightarrow> u64 set \<Rightarrow> cluster \<Rightarrow> cluster \<Rightarrow> bool" for sz N where
  local_ev: "n \<in> N \<Longrightarrow> local_event N ev \<Longrightarrow> term_room (C n) \<Longrightarrow>
    mainLoop_step sz (C n) ev = Inr (Running lp) \<Longrightarrow> cluster_step sz N C (C(n := lp))"
| deliver: "n \<in> N \<Longrightarrow> m \<in> cluster_net N C \<Longrightarrow> msg_To m = n \<Longrightarrow> term_room (C n) \<Longrightarrow>
    mainLoop_step sz (C n) (EvMsg m) = Inr (Running lp) \<Longrightarrow> cluster_step sz N C (C(n := lp))"

text \<open>Every member is a follower that has sent nothing and knows the members, as \<open>Start\<close> leaves it.\<close>

definition cluster_init :: "u64 set \<Rightarrow> cluster \<Rightarrow> bool" where
  "cluster_init N C \<longleftrightarrow> NoneId \<notin> N \<and>
     (\<forall>n \<in> N. let r = lp_raft (C n) in r_id r = n \<and> r_state r = StateFollower \<and> role_ok r \<and>
        r_outc r = [] \<and> member_ok N r)"

section \<open>Simulation\<close>

definition cluster_rel :: "u64 set \<Rightarrow> (u64 \<Rightarrow> enode) \<Rightarrow> cluster \<Rightarrow> bool" where
  "cluster_rel N A C \<longleftrightarrow> (\<forall>n \<in> N. erel N n (A n) (lp_raft (C n)))"

lemma enode_step_mono:
  "enode_step N G n e e' \<Longrightarrow> (\<And>v t. G v t \<Longrightarrow> G' v t) \<Longrightarrow> enode_step N G' n e e'"
  by (induction rule: enode_step.induct) (blast intro: enode_step.intros)+

lemma enode_steps_esteps:
  assumes "(enode_step N (\<lambda>v t. Granted t n \<in> e_sent (A v)) n)\<^sup>*\<^sup>* (A n) e'" "n \<in> N"
  shows "(estep N)\<^sup>*\<^sup>* A (A(n := e')) \<and> e_sent (A n) \<subseteq> e_sent e'"
  using assms(1)
proof (induction rule: rtranclp_induct)
  case base
  then show ?case by simp
next
  case (step e e')
  let ?B = "A(n := e)"
  have "enode_step N (\<lambda>v t. Granted t n \<in> e_sent (?B v)) n (?B n) e'"
    using step.hyps(2) by (simp, elim enode_step_mono) (use step.IH in auto)
  from estep.node [where A = ?B, OF assms(2) this] have "estep N ?B (A(n := e'))" by simp
  then show ?case using step enode_step_sent [OF step.hyps(2)] by (meson order_trans rtranclp.rtrancl_into_rtrancl)
qed

lemma cluster_net_incoming:
  assumes "cluster_rel N A C" "m \<in> cluster_net N C" "NoneId \<notin> N"
  shows "incoming_ok N (\<lambda>v t. Granted t (msg_To m) \<in> e_sent (A v)) m"
proof -
  from assms obtain v where v: "v \<in> N" "sent_ok N v (A v) m"
    by (auto simp: cluster_rel_def cluster_net_def erel_def)
  then show ?thesis
    using assms(3) by (auto simp: incoming_ok_def sent_ok_def facts_of_def leader_type_def)
qed

lemma cluster_rel_update:
  "cluster_rel N A C \<Longrightarrow> erel N n e (lp_raft lp) \<Longrightarrow> cluster_rel N (A(n := e)) (C(n := lp))"
  by (auto simp: cluster_rel_def)

lemma cluster_step_sim:
  assumes "cluster_step sz N C C'" "cluster_rel N A C" "NoneId \<notin> N"
  shows "\<exists>A'. (estep N)\<^sup>*\<^sup>* A A' \<and> cluster_rel N A' C'"
  using assms(1)
proof cases
  case (local_ev n ev lp)
  have "erel N n (A n) (lp_raft (C n))" using assms(2) local_ev by (simp add: cluster_rel_def)
  from erel_local [OF this local_ev(5,3), where G = "\<lambda>v t. Granted t n \<in> e_sent (A v)"] local_ev
  obtain e' where "(enode_step N (\<lambda>v t. Granted t n \<in> e_sent (A v)) n)\<^sup>*\<^sup>* (A n) e'" "erel N n e' (lp_raft lp)"
    by (auto simp: term_room_unat)
  then show ?thesis
    using enode_steps_esteps local_ev cluster_rel_update [OF assms(2)] by blast
next
  case (deliver n m lp)
  have r: "erel N n (A n) (lp_raft (C n))" using assms(2) deliver by (simp add: cluster_rel_def)
  have "incoming_ok N (\<lambda>v t. Granted t n \<in> e_sent (A v)) m"
    using cluster_net_incoming [OF assms(2) _ assms(3)] deliver by auto
  from erel_deliver [OF r deliver(6) this] deliver
  obtain e' where "(enode_step N (\<lambda>v t. Granted t n \<in> e_sent (A v)) n)\<^sup>*\<^sup>* (A n) e'" "erel N n e' (lp_raft lp)"
    by (auto simp: term_room_unat)
  then show ?thesis
    using enode_steps_esteps deliver cluster_rel_update [OF assms(2)] by blast
qed

lemma cluster_steps_sim:
  assumes "(cluster_step sz N)\<^sup>*\<^sup>* C C'" "cluster_rel N A C" "NoneId \<notin> N"
  shows "\<exists>A'. (estep N)\<^sup>*\<^sup>* A A' \<and> cluster_rel N A' C'"
  using assms(1)
proof (induction rule: rtranclp_induct)
  case (step C1 C2)
  then show ?case using cluster_step_sim assms(3) by (meson rtranclp_trans)
qed (use assms(2) in blast)

lemma cluster_init_rel:
  "cluster_init N C \<Longrightarrow> cluster_rel N (\<lambda>n. enode_of (lp_raft (C n))) C"
  by (auto simp: cluster_init_def cluster_rel_def Let_def intro: erel_start)

lemma cluster_init_election: "cluster_init N C \<Longrightarrow> election_init N (\<lambda>n. enode_of (lp_raft (C n)))"
  by (auto simp: cluster_init_def election_init_def enode_of_def Let_def)

text \<open>What holds in every reachable state of the group.\<close>

lemma cluster_reachable_inv:
  assumes "cluster_init N C" "(cluster_step sz N)\<^sup>*\<^sup>* C C'"
  shows "\<exists>A. cluster_rel N A C' \<and> election_inv N A"
proof -
  have N: "NoneId \<notin> N" using assms(1) by (simp add: cluster_init_def)
  obtain A where "(estep N)\<^sup>*\<^sup>* (\<lambda>n. enode_of (lp_raft (C n))) A" "cluster_rel N A C'"
    using cluster_steps_sim [OF assms(2) cluster_init_rel [OF assms(1)] N] by blast
  then show ?thesis
    using esteps_inv election_init_inv [OF cluster_init_election [OF assms(1)]] N by blast
qed

lemma cluster_leader_led:
  "cluster_rel N A C \<Longrightarrow> n \<in> N \<Longrightarrow> r_state (lp_raft (C n)) = StateLeader \<Longrightarrow>
   Led (unat (r_Term (lp_raft (C n)))) \<in> e_sent (A n)"
  by (auto simp: cluster_rel_def erel_def)

lemma cluster_msg_led:
  "cluster_rel N A C \<Longrightarrow> m \<in> cluster_net N C \<Longrightarrow> leader_type (msg_Type m) \<Longrightarrow>
   msg_From m \<in> N \<and> Led (unat (msg_Term m)) \<in> e_sent (A (msg_From m))"
  by (fastforce simp: cluster_rel_def cluster_net_def erel_def sent_ok_def facts_of_def)

lemma cluster_leader_unique:
  assumes "cluster_init N C0" "(cluster_step sz N)\<^sup>*\<^sup>* C0 C" "n \<in> N" "m \<in> N"
    "r_state (lp_raft (C n)) = StateLeader" "r_state (lp_raft (C m)) = StateLeader"
    "r_Term (lp_raft (C n)) = r_Term (lp_raft (C m))"
  shows "n = m"
proof -
  obtain A where A: "cluster_rel N A C" "election_inv N A"
    using cluster_reachable_inv [OF assms(1,2)] by blast
  show ?thesis
    using led_unique [OF A(2) assms(3,4)] cluster_leader_led [OF A(1)] assms(3-7) by metis
qed

end
