(* ===== verification/RaftEntries.thy ===== *)
theory RaftEntries
  imports RaftTotal RaftCluster
begin

text \<open>
  The entries a raft log holds, in its storage and in \<open>unstable\<close>, and how the operations of the log
  change them; what a slice of a log that has never been compacted contains when no size
  limit applies.
\<close>

section \<open>The entries a log holds\<close>

definition rl_entries :: "raftLog \<Rightarrow> Entry set" where
  "rl_entries rl = set (tl (ms_logs (rl_storage rl))) \<union> set (u_ents (rl_unstable rl))"

definition log_fresh :: "raftLog \<Rightarrow> bool" where
  "log_fresh rl \<longleftrightarrow> u_snapshot (rl_unstable rl) = None \<and> log_base (rl_view rl) = 0 \<and>
     (\<forall>e \<in> rl_entries rl. ent_Term e \<noteq> 0)"

lemma tl_append_subset: "set (tl (take n xs @ ys)) \<subseteq> set (tl xs) \<union> set ys"
  by (cases xs; cases n; cases ys) (auto dest: in_set_takeD)

lemma ms_Append_entries:
  assumes "InMemStorage_Append ms ents = Inr (e, ms')"
  shows "set (tl (ms_logs ms')) \<subseteq> set (tl (ms_logs ms)) \<union> set ents"
proof -
  have "ms_logs ms' = ms_logs ms \<or> (\<exists>n. ms_logs ms' = take n (ms_logs ms) @ ents)"
    using assms
    by (auto simp: InMemStorage_Append_def Let_def slice_range_eq_Inr split: if_splits)
       (metis take_all_iff order_refl)
  then show ?thesis
  proof
    assume "\<exists>n. ms_logs ms' = take n (ms_logs ms) @ ents"
    then obtain n where "ms_logs ms' = take n (ms_logs ms) @ ents" by blast
    then show ?thesis using tl_append_subset [of n "ms_logs ms" ents] by simp
  qed simp
qed

lemma unstable_append_entries: "unstable_append u ents = Inr u' \<Longrightarrow> set (u_ents u') \<subseteq> set (u_ents u) \<union> set ents"
  by (auto simp: unstable_append_def Let_def slice_range_eq_Inr split: if_splits dest: in_set_takeD)

lemma unstable_stableTo_entries:
  "unstable_stableTo u i = Inr (snap, ents, u') \<Longrightarrow> set ents \<subseteq> set (u_ents u) \<and> set (u_ents u') \<subseteq> set (u_ents u)"
  by (auto simp: unstable_stableTo_def Let_def slice_range_eq_Inr split: option.splits if_splits prod.splits
      dest: in_set_takeD in_set_dropD)

lemma rl_entries_maybeCommit:
  assumes "raftLog_maybeCommit rl to = Inr (b, rl')"
  shows "rl_entries rl' \<subseteq> rl_entries rl" "u_snapshot (rl_unstable rl) = None \<Longrightarrow> u_snapshot (rl_unstable rl') = None"
proof -
  have "rl_entries rl' \<subseteq> rl_entries rl \<and> (u_snapshot (rl_unstable rl) = None \<longrightarrow> u_snapshot (rl_unstable rl') = None)"
  proof (cases "to > rl_committed rl")
    case True
    then obtain last snap ents u where
      S: "unstable_stableTo (rl_unstable rl) (min to last) = Inr (snap, ents, u)" and
      A: "rl_unstable rl' = u" "set (tl (ms_logs (rl_storage rl'))) \<subseteq>
        set (tl (ms_logs (case snap of Some s \<Rightarrow> InMemStorage_ApplySnapshot (rl_storage rl) s | None \<Rightarrow> rl_storage rl))) \<union> set ents"
      using assms by (auto simp: raftLog_maybeCommit_def Let_def dest!: ms_Append_entries split: if_splits option.splits)
    have "set (tl (ms_logs (case snap of Some s \<Rightarrow> InMemStorage_ApplySnapshot (rl_storage rl) s | None \<Rightarrow> rl_storage rl)))
        \<subseteq> set (tl (ms_logs (rl_storage rl)))"
      by (auto simp: InMemStorage_ApplySnapshot_def split: option.splits)
    with A unstable_stableTo_entries [OF S] unstable_stableTo_snapshot [OF S] show ?thesis
      unfolding rl_entries_def by auto
  next
    case False
    then show ?thesis using assms by (simp add: raftLog_maybeCommit_def)
  qed
  then show "rl_entries rl' \<subseteq> rl_entries rl" "u_snapshot (rl_unstable rl) = None \<Longrightarrow> u_snapshot (rl_unstable rl') = None"
    by blast+
qed

lemma rl_entries_maybeAppend_loop:
  "raftLog_maybeAppend_loop rl l c ents = Inr (i, b, rl') \<Longrightarrow>
   rl_entries rl' \<subseteq> rl_entries rl \<union> set ents \<and> (u_snapshot (rl_unstable rl) = None \<longrightarrow> u_snapshot (rl_unstable rl') = None)"
proof (induction ents)
  case (Cons e es)
  obtain ok where ok: "raftLog_matchTerm rl (ent_Index e) (ent_Term e) = Inr ok" using Cons.prems by auto
  consider "ok" | "\<not> ok" "rl' = rl"
    | u b' where "\<not> ok" "unstable_append (rl_unstable rl) (e # es) = Inr u"
        "raftLog_maybeCommit (rl\<lparr>rl_unstable := u\<rparr>) (util_min l c) = Inr (b', rl')"
    using Cons.prems ok by (auto split: if_splits)
  then show ?case
  proof cases
    case 1
    then show ?thesis using Cons ok by auto
  next
    case 2
    then show ?thesis by blast
  next
    case 3
    have "rl_entries (rl\<lparr>rl_unstable := u\<rparr>) \<subseteq> rl_entries rl \<union> set (e # es)"
      using unstable_append_entries [OF 3(2)] by (auto simp: rl_entries_def)
    then show ?thesis
      using rl_entries_maybeCommit [OF 3(3)] unstable_append_snapshot [OF 3(2)] by auto
  qed
qed simp

lemma rl_entries_maybeAppend:
  "raftLog_maybeAppend rl idx tm c ents = Inr (i, b, rl') \<Longrightarrow>
   rl_entries rl' \<subseteq> rl_entries rl \<union> set ents \<and> (u_snapshot (rl_unstable rl) = None \<longrightarrow> u_snapshot (rl_unstable rl') = None)"
  by (auto simp: raftLog_maybeAppend_def Let_def dest: rl_entries_maybeAppend_loop split: if_splits)

lemma rl_entries_append:
  assumes "raftLog_append rl ents = Inr rl'"
  shows "rl_entries rl' \<subseteq> rl_entries rl \<union> set ents \<and> u_snapshot (rl_unstable rl') = u_snapshot (rl_unstable rl)"
proof (cases "ents = []")
  case False
  then obtain u where u: "unstable_append (rl_unstable rl) ents = Inr u" "rl' = rl\<lparr>rl_unstable := u\<rparr>"
    using assms by (auto simp: raftLog_append_def)
  then show ?thesis
    using unstable_append_entries [OF u(1)] unstable_append_snapshot [OF u(1)] by (auto simp: rl_entries_def)
qed (use assms in \<open>simp add: raftLog_append_def\<close>)

text \<open>The abstract log, apart from its head, is among them.\<close>

lemma rl_view_entries:
  assumes "raftLog_wf rl" "u_snapshot (rl_unstable rl) = None"
  shows "set (tl (rl_view rl)) \<subseteq> rl_entries rl"
  using assms(2) tl_append_subset by (simp add: rl_view_def rl_entries_def)

lemma log_fresh_term:
  assumes "raftLog_wf rl" "log_fresh rl" "0 < i" "i \<le> log_last (rl_view rl)"
  shows "log_term (rl_view rl) i \<noteq> 0"
proof -
  have base: "log_base (rl_view rl) = 0" using assms(2) by (simp add: log_fresh_def)
  have "i < length (rl_view rl)" using assms(4) log_okD(7) [OF rl_view_ok [OF assms(1)]] base by linarith
  then have "rl_view rl ! i \<in> set (tl (rl_view rl))"
    using assms(3) by (cases "rl_view rl"; cases i) auto
  then show ?thesis
    using rl_view_entries [OF assms(1)] assms(2,4) base by (auto simp: log_fresh_def log_term_def)
qed

text \<open>Without a size limit, a slice of such a log is complete: its entries follow each other, whether
  they are read from the storage or from \<open>unstable\<close>.\<close>

lemma chain_from_slice:
  assumes "chain_from (log_base L) L" "log_base L \<le> lo" "lo \<le> hi" "hi \<le> log_base L + length L"
  shows "chain_from lo (log_slice L lo hi)" "length (log_slice L lo hi) = hi - lo"
  using assms chain_from_drop [OF assms(1), of "lo - log_base L"]
  by (auto simp: log_slice_def intro!: chain_from_take)

lemma log_slice_unstable:
  assumes "raftLog_wf rl" "unat (u_offset (rl_unstable rl)) \<le> lo"
  shows "set (log_slice (rl_view rl) lo hi) \<subseteq> set (u_ents (rl_unstable rl))"
proof -
  have "lo - log_base (rl_view rl) = (lo - unat (u_offset (rl_unstable rl))) +
      (unat (u_offset (rl_unstable rl)) - log_base (rl_view rl))"
    using assms(2) rl_view_base [OF assms(1)] by linarith
  then have "drop (lo - log_base (rl_view rl)) (rl_view rl) =
      drop (lo - unat (u_offset (rl_unstable rl))) (u_ents (rl_unstable rl))"
    using rl_view_split(2) [OF assms(1)] by (metis drop_drop)
  then show ?thesis by (auto simp: log_slice_def dest: in_set_takeD in_set_dropD)
qed

lemma log_slice_tl: "log_base L < lo \<Longrightarrow> set (log_slice L lo hi) \<subseteq> set (tl L)"
  by (cases L; cases "lo - log_base L") (auto simp: log_slice_def dest!: in_set_takeD in_set_dropD)

lemma raftLog_slice_fresh:
  assumes "raftLog_wf rl" "log_fresh rl" "0 < unat from" "from < to" "unat to \<le> log_last (rl_view rl) + 1"
  shows "\<exists>es. raftLog_slice sz rl from to noLimit = Inr (Inr es) \<and> chain_from (unat from) es \<and>
    length es = unat to - unat from \<and> set es \<subseteq> rl_entries rl"
proof -
  let ?st = "rl_storage rl" and ?L = "ms_logs (rl_storage rl)"
  have ns: "u_snapshot (rl_unstable rl) = None" and b0: "log_base (rl_view rl) = 0"
    using assms(2) by (simp_all add: log_fresh_def)
  have bL: "log_base ?L = 0" using rl_view_None(2) [OF assms(1) ns] b0 by simp
  obtain f where f: "raftLog_firstIndex rl = Inr f" "unat f = 1"
    using raftLog_first [OF assms(1)] b0 by auto
  obtain l where l: "raftLog_lastIndex rl = Inr l" "unat l = log_last (rl_view rl)"
    using raftLog_last [OF assms(1)] by blast
  have inv: "storage_inv ?st" using assms(1) by (simp add: raftLog_wf_def)
  have ok: "log_ok ?L" using inv by (simp add: storage_inv_def)
  obtain s where s: "InMemStorage_lastIndex ?st = Inr s" "unat s = log_last ?L"
    using ms_last [OF inv] by blast
  have l1: "unat (l + 1) = log_last (rl_view rl) + 1"
    using unat_Suc_u64 [of l] l(2) log_okD(6) [OF rl_view_ok [OF assms(1)]] by simp
  have s1: "unat (s + 1) = log_last ?L + 1"
    using unat_Suc_u64 [of s] s(2) log_okD(6) [OF ok] by simp
  have ft: "unat from < unat to" using assms(4) by (simp add: word_less_nat_alt)
  have g: "\<not> to \<le> from" "\<not> (from < f \<or> to > l + 1)"
    using assms(3,5) ft f(2) l1 by (simp_all add: u64_nat)
  have off: "unat (u_offset (rl_unstable rl)) \<le> log_last ?L + 1"
    using assms(1) ns by (simp add: raftLog_wf_def)
  define hi where "hi = min (log_last ?L + 1) (unat to)"
  define lo where "lo = max (log_last ?L + 1) (unat from)"
  define es where "es = (if s \<ge> from then log_slice ?L (unat from) hi else [])"
  define us where "us = (if lo < unat to then log_slice (rl_view rl) lo (unat to) else [])"
  have e1: "(if s \<ge> from then InMemStorage_Entries sz ?st from (util_min (s + 1) to) noLimit else Inr (Inr [])) = Inr (Inr es)"
  proof (cases "s \<ge> from")
    case True
    then have "from \<le> min (s + 1) to" using ft s1 s(2) by (simp add: u64_nat unat_min_u64)
    then show ?thesis
      using True ms_entries [OF inv, of "from" "min (s + 1) to" sz noLimit] bL assms(3) s1
      by (simp add: es_def hi_def unat_min_u64)
  qed (simp add: es_def)
  have e2: "unstable_entries (rl_unstable rl) (util_max (s + 1) from) to noLimit = Inr us"
    using unstable_entries_view [OF assms(1), of "max (s + 1) from" to noLimit] off s1 assms(5)
    by (auto simp: us_def lo_def unat_max_u64 u64_nat unstable_entries_def)
  have r: "raftLog_slice sz rl from to noLimit = Inr (Inr (es @ us))"
    using g f(1) l(1) s(1) e1 e2 by (simp add: raftLog_slice_def InMemStorage_LastIndex_def)
  have sf: "s \<ge> from \<longleftrightarrow> unat from \<le> log_last ?L" using s(2) by (simp add: word_le_nat_alt)
  have "chain_from (unat from) es \<and> length es = (if s \<ge> from then hi - unat from else 0) \<and> set es \<subseteq> set (tl ?L)"
    using chain_from_slice [of ?L "unat from" hi] log_slice_tl [of ?L "unat from" hi] log_okD [OF ok] bL ft assms(3) sf
    by (auto simp: es_def hi_def)
  moreover have "chain_from lo us \<and> length us = unat to - lo \<and> set us \<subseteq> set (u_ents (rl_unstable rl))"
    using chain_from_slice [of "rl_view rl" lo "unat to"] log_slice_unstable [OF assms(1), of lo "unat to"] off
      log_okD [OF rl_view_ok [OF assms(1)]] b0 assms(5)
    by (auto simp: us_def lo_def)
  moreover have "us \<noteq> [] \<Longrightarrow> unat from + length es = lo"
    using calculation sf ft by (auto simp: us_def lo_def hi_def split: if_splits)
  ultimately show ?thesis
    using r ft sf by (cases "us = []") (auto simp: rl_entries_def hi_def lo_def split: if_splits)
qed

end
