(* ===== verification/RaftReplication.thy ===== *)
theory RaftReplication
  imports RaftEntries
begin

text \<open>
  Replication by freshly started members that do not bound the size of a message. \<open>rep\<close> follows one
  member through an event: its log stays well-formed and uncompacted, every \<open>MsgApp\<close> it
  sends carries entries without a gap that attach to a point of its log, and nothing but what it
  held or received enters its log or leaves it. \<open>RaftSafety\<close> lifts this to the group.
\<close>

section \<open>The messages and the nodes of such a group\<close>

definition net_app_ok :: "Message \<Rightarrow> bool" where
  "net_app_ok m \<longleftrightarrow> chain_from (unat (msg_PrevIndex m) + 1) (msg_Entries m) \<and>
     unat (msg_PrevIndex m) + 1 + length (msg_Entries m) < 2 ^ 64 \<and>
     (\<forall>e \<in> set (msg_Entries m). ent_Term e \<noteq> 0) \<and>
     (msg_Entries m \<noteq> [] \<and> msg_PrevTerm m = 0 \<longrightarrow> msg_PrevIndex m = 0)"

definition pay_ok :: "Entry set \<Rightarrow> Message \<Rightarrow> bool" where
  "pay_ok E m \<longleftrightarrow> set (msg_Entries m) \<subseteq> E \<and> msg_Type m \<noteq> MsgSnap \<and> msg_Type m \<noteq> MsgProp \<and>
     (if msg_Type m = MsgApp then net_app_ok m else msg_Entries m = [])"

definition next_ok :: "(u64 \<times> Progress) list \<Rightarrow> bool" where
  "next_ok ps \<longleftrightarrow> (\<forall>k p. map_of ps k = Some p \<longrightarrow> pr_next p \<noteq> 0)"

definition fresh_ok :: "raft \<Rightarrow> bool" where
  "fresh_ok r \<longleftrightarrow> node_ok r \<and> r_maxSizePerMsg r = noLimit \<and> log_fresh (r_logs r) \<and> next_ok (r_peers r)"

text \<open>\<open>rep E r0 r\<close>: on the way from \<open>r0\<close> to \<open>r\<close> the log gained only entries of \<open>E\<close>, and only such
  entries were sent.\<close>

definition rep :: "Entry set \<Rightarrow> raft \<Rightarrow> raft \<Rightarrow> bool" where
  "rep E r0 r \<longleftrightarrow> fresh_ok r \<and> rl_entries (r_logs r) \<subseteq> E \<and>
     (\<exists>ms. r_outc r = r_outc r0 @ ms \<and> (\<forall>m \<in> set ms. pay_ok E m))"

lemma rep_refl: "fresh_ok r \<Longrightarrow> rl_entries (r_logs r) \<subseteq> E \<Longrightarrow> rep E r r"
  by (simp add: rep_def)

lemma repD: "rep E r0 r \<Longrightarrow> fresh_ok r" "rep E r0 r \<Longrightarrow> node_ok r" "rep E r0 r \<Longrightarrow> rl_entries (r_logs r) \<subseteq> E"
  by (simp_all add: rep_def fresh_ok_def)

lemma next_ok_sent:
  assumes "peers_sent ps ps'" "next_ok ps"
  shows "next_ok ps'"
  unfolding next_ok_def
proof (intro allI impI)
  fix k p assume p: "map_of ps' k = Some p"
  have "map_option (\<lambda>p. (pr_match p, pr_next p)) (map_of ps' k) = map_option (\<lambda>p. (pr_match p, pr_next p)) (map_of ps k)"
    using assms(1) by (simp add: peers_sent_def)
  then obtain p0 where "map_of ps k = Some p0" "pr_next p = pr_next p0"
    using p by (cases "map_of ps k") auto
  then show "pr_next p \<noteq> 0" using assms(2) by (auto simp: next_ok_def)
qed

lemma next_ok_update: "next_ok ps \<Longrightarrow> pr_next p \<noteq> 0 \<Longrightarrow> next_ok (AList.update k p ps)"
  by (simp add: next_ok_def update_conv')

lemma map_of_map_pairs: "map_of (map (\<lambda>(k, p). (k, f k p)) ps) k = map_option (f k) (map_of ps k)"
  by (induction ps) auto

lemma next_ok_map:
  "(\<And>k p. map_of ps k = Some p \<Longrightarrow> pr_next (f k p) \<noteq> 0) \<Longrightarrow> next_ok (map (\<lambda>(k, p). (k, f k p)) ps)"
  by (auto simp: next_ok_def map_of_map_pairs)

lemma rep_same:
  assumes "rep E r0 r" "same_node r r'" "r_logs r' = r_logs r" "next_ok (r_peers r')" "r_outc r' = r_outc r"
  shows "rep E r0 r'"
  using assms node_ok_same [of r r'] by (auto simp: rep_def fresh_ok_def same_node_def)

lemma rep_sendTo:
  assumes "rep E r0 r" "pay_ok E m"
  shows "rep E r0 (raft_sendTo r k m)"
proof -
  have "same_node r (raft_sendTo r k m)" by (simp add: same_node_def)
  then have "fresh_ok (raft_sendTo r k m)"
    using assms(1) node_ok_same [of r "raft_sendTo r k m"] by (simp add: rep_def fresh_ok_def)
  moreover have "\<exists>ms. r_outc (raft_sendTo r k m) = r_outc r @ ms \<and> (\<forall>m \<in> set ms. pay_ok E m)"
    using assms(2) by (auto simp: raft_sendTo_def pay_ok_def net_app_ok_def split: option.splits)
  ultimately show ?thesis using assms(1) by (fastforce simp: rep_def)
qed

lemma pay_ok_plain: "msg_Entries m = [] \<Longrightarrow> msg_Type m \<notin> {MsgApp, MsgSnap, MsgProp} \<Longrightarrow> pay_ok E m"
  by (simp add: pay_ok_def)

lemma rep_broadcast:
  assumes "rep E r0 r" "pay_ok E m"
  shows "rep E r0 (raft_broadcast r m)"
proof -
  have "rep E r0 (raft_broadcast_loop r m ids)" for ids
    using assms(1) by (induction ids arbitrary: r) (simp_all add: rep_sendTo [OF _ assms(2)])
  then show ?thesis by (simp add: raft_broadcast_def)
qed

text \<open>What \<open>sendAppend\<close> reads from the log.\<close>

lemma raftLog_entries_fresh:
  assumes "raftLog_wf rl" "log_fresh rl" "nx \<noteq> 0"
  shows "\<exists>es. raftLog_entries sz rl nx noLimit = Inr (Inr es) \<and> chain_from (unat nx) es \<and> set es \<subseteq> rl_entries rl \<and>
    unat nx + length es < 2 ^ 64 \<and> (es \<noteq> [] \<longrightarrow> unat nx \<le> log_last (rl_view rl))"
proof -
  obtain l where l: "raftLog_lastIndex rl = Inr l" "unat l = log_last (rl_view rl)"
    using raftLog_last [OF assms(1)] by blast
  have l1: "unat (l + 1) = log_last (rl_view rl) + 1" "log_last (rl_view rl) + 1 < 2 ^ 64"
    using unat_Suc_u64 [of l] l(2) log_okD(6) [OF rl_view_ok [OF assms(1)]] by simp_all
  show ?thesis
  proof (cases "nx > l")
    case True
    then show ?thesis using l(1) by (simp add: raftLog_entries_def)
  next
    case False
    then have "unat nx \<le> log_last (rl_view rl)" "nx < l + 1" "0 < unat nx"
      using l(2) l1 assms(3) by (auto simp: u64_nat unat_gt_0)
    then show ?thesis
      using raftLog_slice_fresh [OF assms(1,2), of nx "l + 1" sz] l(1) l1 False
      by (auto simp: raftLog_entries_def)
  qed
qed

lemma rep_sendAppend:
  assumes "rep E r0 r" "raft_sendAppend sz r to = Inr r'"
  shows "rep E r0 r'"
proof (cases "map_of (r_peers r) to")
  case None
  then show ?thesis using assms by (simp add: raft_sendAppend_def)
next
  case (Some p)
  show ?thesis
  proof (cases "Progress_isPaused p \<or> \<not> pr_alive p")
    case True
    then show ?thesis using assms Some by (simp add: raft_sendAppend_def)
  next
    case False
    let ?rl = "r_logs r" and ?nx = "pr_next p"
    have F: "raftLog_wf ?rl" "log_fresh ?rl" "?nx \<noteq> 0" "r_maxSizePerMsg r = noLimit" "next_ok (r_peers r)"
      using assms(1) Some node_ok_wf by (auto simp: rep_def fresh_ok_def next_ok_def)
    obtain es where es: "raftLog_entries sz ?rl ?nx noLimit = Inr (Inr es)" "chain_from (unat ?nx) es"
      "set es \<subseteq> rl_entries ?rl" "unat ?nx + length es < 2 ^ 64" "es \<noteq> [] \<longrightarrow> unat ?nx \<le> log_last (rl_view ?rl)"
      using raftLog_entries_fresh [OF F(1-3)] by blast
    define t where "t = log_term (rl_view ?rl) (unat (?nx - 1))"
    have t: "raftLog_term ?rl (?nx - 1) = Inr (Inr t)" unfolding t_def by (rule raftLog_term_view [OF F(1)])
    have nx1: "unat (?nx - 1) = unat ?nx - 1" "0 < unat ?nx" using F(3) unat_pred_u64 by (auto simp: unat_gt_0)
    define es' where "es' = (if pr_state p = StateProbe \<and> length es \<noteq> 0 then [hd es] else es)"
    define p' where "p' = (if pr_state p = StateProbe \<and> length es \<noteq> 0 then Progress_pause p else p)"
    define m where "m = zero_Message\<lparr>msg_Type := MsgApp, msg_PrevIndex := ?nx - 1, msg_PrevTerm := t, msg_Entries := es'\<rparr>"
    define r1 where "r1 = r\<lparr>r_peers := AList.update to p' (r_peers r)\<rparr>"
    have r': "r' = raft_sendTo r1 to m"
      using assms(2) Some False t es(1) F(4) unfolding m_def r1_def es'_def p'_def
      by (auto simp: raft_sendAppend_def Let_def split: if_splits)
    have z: "?nx - 1 = 0" if "es \<noteq> []" "t = 0"
    proof (rule ccontr)
      assume "?nx - 1 \<noteq> 0"
      then have "0 < unat (?nx - 1)" by (simp add: unat_gt_0)
      moreover have "unat (?nx - 1) \<le> log_last (rl_view ?rl)" using that(1) es(5) nx1 by auto
      ultimately show False using log_fresh_term [OF F(1,2)] that(2) unfolding t_def by blast
    qed
    have "net_app_ok m"
      using es(2,3,4) nx1 z F(2) assms(1)
      by (cases es) (auto simp: net_app_ok_def m_def es'_def log_fresh_def)
    then have "pay_ok E m"
      using es(3) repD(3) [OF assms(1)] by (cases es) (auto simp: pay_ok_def m_def es'_def)
    moreover have "rep E r0 r1"
      by (rule rep_same [OF assms(1)])
         (use next_ok_update [OF F(5)] F(3) in \<open>auto simp: r1_def p'_def same_node_def\<close>)
    ultimately show ?thesis unfolding r' by (rule rep_sendTo [rotated])
  qed
qed

lemma rep_bcastAppend:
  assumes "rep E r0 r" "raft_bcastAppend sz r = Inr r'"
  shows "rep E r0 r'"
proof -
  have "rep E r0 r'" if "raft_bcastAppend_loop sz r ids = Inr r'" for ids
    using assms(1) that
  proof (induction ids arbitrary: r)
    case (Cons k ids)
    show ?case
    proof (cases "k = r_id r")
      case True
      then show ?thesis using Cons by simp
    next
      case False
      then obtain r1 where r1: "raft_sendAppend sz r k = Inr r1" "raft_bcastAppend_loop sz r1 ids = Inr r'"
        using Cons.prems(2) by auto
      show ?thesis by (rule Cons.IH [OF rep_sendAppend [OF Cons.prems(1) r1(1)] r1(2)])
    qed
  qed simp
  then show ?thesis using assms(2) by (simp add: raft_bcastAppend_def)
qed

section \<open>Changing roles and logs\<close>

lemma raft_reset_next:
  assumes "raftLog_wf (r_logs r)" "raft_reset r t = Inr r'"
  shows "next_ok (r_peers r')"
proof (cases "r_peers r = []")
  case True
  then have "r_peers r' = []" using assms(2) by (auto simp: raft_reset_def Let_def split: if_splits)
  then show ?thesis by (simp add: next_ok_def)
next
  case False
  obtain l where l: "raftLog_lastIndex (r_logs r) = Inr l" "unat l = log_last (rl_view (r_logs r))"
    using raftLog_last [OF assms(1)] by blast
  have "unat (l + 1) \<noteq> 0"
    using unat_Suc_u64 [of l] l(2) log_okD(6) [OF rl_view_ok [OF assms(1)]] by simp
  then have "l + 1 \<noteq> 0" by auto
  then show ?thesis
    using assms(2) False l(1) by (auto simp: raft_reset_def Let_def intro!: next_ok_map split: if_splits)
qed

lemma rep_becomeFollower:
  assumes "rep E r0 r" "raft_becomeFollower r t l = Inr r'"
  shows "rep E r0 r'"
proof -
  obtain r1 where r1: "raft_reset (r\<lparr>r_state := StateFollower\<rparr>) t = Inr r1"
    "r' = r1\<lparr>r_leader := l, r_tick := TickElection, r_advance := AdvanceFollower\<rparr>"
    using assms(2) by (auto simp: raft_becomeFollower_def)
  have "node_ok r'" using raft_becomeFollower_total [OF repD(2) [OF assms(1)], of t l] assms(2) by auto
  then show ?thesis
    using assms(1) r1(2) raft_reset_fields [OF r1(1)] raft_reset_config [OF r1(1)] raft_reset_next [OF _ r1(1)]
      node_ok_wf [OF repD(2) [OF assms(1)]]
    by (simp add: rep_def fresh_ok_def)
qed

lemma rep_becomeCandidate:
  assumes "rep E r0 r" "raft_becomeCandidate r = Inr r'"
  shows "rep E r0 r'"
proof -
  obtain r1 where r1: "raft_reset (r\<lparr>r_state := StateCandidate\<rparr>) (r_Term r + 1) = Inr r1"
    "r' = r1\<lparr>r_tick := TickElection, r_advance := AdvanceCandidate, r_Vote := r_id r1,
               r_votes := AList.update (r_id r1) True (r_votes r1)\<rparr>"
    using assms(2) by (auto simp: raft_becomeCandidate_def)
  have "node_ok r'" using raft_becomeCandidate_total [OF repD(2) [OF assms(1)]] assms(2) by auto
  then show ?thesis
    using assms(1) r1(2) raft_reset_fields [OF r1(1)] raft_reset_config [OF r1(1)] raft_reset_next [OF _ r1(1)]
      node_ok_wf [OF repD(2) [OF assms(1)]]
    by (simp add: rep_def fresh_ok_def)
qed

lemma rep_becomeLeader:
  assumes "rep E r0 r" "raft_becomeLeader r = Inr r'"
  shows "rep E r0 r'"
proof -
  obtain r1 where r1: "raft_reset (r\<lparr>r_state := StateLeader\<rparr>) (r_Term r + 1) = Inr r1"
    "r' = r1\<lparr>r_leader := r_id r1, r_tick := TickHeartbeat, r_advance := AdvanceLeader\<rparr>"
    using assms(2) by (auto simp: raft_becomeLeader_def)
  have "node_ok r'" using raft_becomeLeader_total [OF repD(2) [OF assms(1)]] assms(2) by auto
  then show ?thesis
    using assms(1) r1(2) raft_reset_fields [OF r1(1)] raft_reset_config [OF r1(1)] raft_reset_next [OF _ r1(1)]
      node_ok_wf [OF repD(2) [OF assms(1)]]
    by (simp add: rep_def fresh_ok_def)
qed

lemma rep_poll: "rep E r0 r \<Longrightarrow> raft_poll r v g = (cnt, r') \<Longrightarrow> rep E r0 r'"
  using raft_poll_same [of r v g cnt r'] rep_same [of E r0 r r']
  by (auto simp: raft_poll_def Let_def rep_def fresh_ok_def split: option.splits)

text \<open>A change of the log alone.\<close>

lemma rep_log:
  assumes "rep E r0 r" "log_grows (r_logs r) rl" "log_fresh rl" "rl_entries rl \<subseteq> E"
  shows "rep E r0 (r\<lparr>r_logs := rl\<rparr>)"
proof -
  have "node_ok (r\<lparr>r_logs := rl\<rparr>)"
    by (rule log_grows_node [OF _ _ repD(2) [OF assms(1)]]) (use assms(2) in \<open>simp_all add: same_node_def\<close>)
  then show ?thesis using assms by (simp add: rep_def fresh_ok_def)
qed

lemma log_fresh_commit:
  assumes "raftLog_inv rl" "log_fresh rl" "log_commit rl rl'"
  shows "log_fresh rl' \<and> rl_entries rl' \<subseteq> rl_entries rl"
proof (cases "rl' = rl")
  case False
  then obtain to b where c: "raftLog_maybeCommit rl to = Inr (b, rl')" using assms(3) by (auto simp: log_commit_def)
  show ?thesis
    using rl_entries_maybeCommit [OF c] log_commit_inv [OF assms(1,3)] assms(2) by (auto simp: log_fresh_def)
qed (use assms(2) in simp)

lemma log_fresh_app_ok: "raftLog_wf rl \<Longrightarrow> log_fresh rl \<Longrightarrow> net_app_ok m \<Longrightarrow> app_ok rl m"
  by (auto simp: net_app_ok_def app_ok_def log_fresh_def)

lemma log_fresh_maybeAppend:
  assumes "raftLog_inv rl" "log_fresh rl" "net_app_ok m"
    "raftLog_maybeAppend rl (msg_PrevIndex m) (msg_PrevTerm m) c (msg_Entries m) = Inr (i, b, rl')"
  shows "log_grows rl rl' \<and> log_fresh rl' \<and> rl_entries rl' \<subseteq> rl_entries rl \<union> set (msg_Entries m)"
proof -
  have wf: "raftLog_wf rl" using assms(1) by (simp add: raftLog_inv_def)
  have g: "log_grows rl rl'" and o: "log_overwrite rl m (rl_view rl')"
    using raftLog_maybeAppend_total [OF assms(1) log_fresh_app_ok [OF wf assms(2,3)], of c] assms(4) by auto
  note E = rl_entries_maybeAppend [OF assms(4)]
  have "log_base (rl_view rl') = log_base (rl_view rl)"
  proof (cases "rl_view rl' = rl_view rl")
    case False
    then obtain j es where "log_base (rl_view rl) < j" "rl_view rl' = log_append (rl_view rl) j es"
      using o by (auto simp: log_overwrite_def)
    then show ?thesis using log_okD(1) [OF rl_view_ok [OF wf]] by (simp add: log_append_def)
  qed simp
  then show ?thesis using g E assms(2,3) by (auto simp: log_fresh_def net_app_ok_def)
qed

lemma rep_commit:
  assumes "rep E r0 r" "raftLog_maybeCommit (r_logs r) to = Inr (b, rl)"
  shows "rep E r0 (r\<lparr>r_logs := rl\<rparr>)"
proof -
  have c: "log_commit (r_logs r) rl" by (rule log_commitI [OF assms(2)])
  have inv: "raftLog_inv (r_logs r)" "log_fresh (r_logs r)" "rl_entries (r_logs r) \<subseteq> E"
    using assms(1) by (simp_all add: rep_def fresh_ok_def node_ok_def)
  show ?thesis
    by (rule rep_log [OF assms(1)]) (use log_commit_inv [OF inv(1) c] log_fresh_commit [OF inv(1,2) c] inv(3) in auto)
qed

lemma rep_handleHeartbeat: "rep E r0 r \<Longrightarrow> raft_handleHeartbeat r m = Inr r' \<Longrightarrow> rep E r0 r'"
  by (auto simp: raft_handleHeartbeat_def intro!: rep_sendTo pay_ok_plain rep_commit)

lemma rep_handleAppend:
  assumes "rep E r0 r" "raft_handleAppend r m = Inr r'" "net_app_ok m" "set (msg_Entries m) \<subseteq> E"
  shows "rep E r0 r'"
proof -
  obtain i b rl where m: "raftLog_maybeAppend (r_logs r) (msg_PrevIndex m) (msg_PrevTerm m) (msg_Commit m)
      (msg_Entries m) = Inr (i, b, rl)"
    and r': "r' = raft_sendTo (r\<lparr>r_logs := rl\<rparr>) (msg_From m)
      (zero_Message\<lparr>msg_Type := MsgAppResp, msg_Reject := \<not> b, msg_PrevIndex := i\<rparr>)"
    using assms(2) by (auto simp: raft_handleAppend_def)
  have inv: "raftLog_inv (r_logs r)" "log_fresh (r_logs r)" "rl_entries (r_logs r) \<subseteq> E"
    using assms(1) by (simp_all add: rep_def fresh_ok_def node_ok_def)
  have "rep E r0 (r\<lparr>r_logs := rl\<rparr>)"
    by (rule rep_log [OF assms(1)]) (use log_fresh_maybeAppend [OF inv(1,2) assms(3) m] inv(3) assms(4) in auto)
  then show ?thesis unfolding r' by (rule rep_sendTo) (simp add: pay_ok_plain)
qed

lemma rep_maybeCommit: "rep E r0 r \<Longrightarrow> raft_maybeCommit r = Inr (b, r') \<Longrightarrow> rep E r0 r'"
  by (auto simp: raft_maybeCommit_def Let_def intro: rep_commit)

section \<open>Events\<close>

lemma rep_field [intro]:
  "rep E r0 r \<Longrightarrow> rep E r0 (r\<lparr>r_electionElapsed := x\<rparr>)"
  "rep E r0 r \<Longrightarrow> rep E r0 (r\<lparr>r_heartbeatElapsed := x\<rparr>)"
  "rep E r0 r \<Longrightarrow> rep E r0 (r\<lparr>r_leader := l\<rparr>)"
  "rep E r0 r \<Longrightarrow> rep E r0 (r\<lparr>r_pendingConf := b\<rparr>)"
  "rep E r0 r \<Longrightarrow> rep E r0 (r\<lparr>r_Vote := v\<rparr>)"
  by (auto simp: rep_def fresh_ok_def node_ok_def role_ok_def)

lemma rep_peer:
  assumes "rep E r0 r" "pr_next p \<noteq> 0"
  shows "rep E r0 (r\<lparr>r_peers := AList.update k p (r_peers r)\<rparr>)"
  by (rule rep_same [OF assms(1)])
     (use assms next_ok_update in \<open>auto simp: same_node_def rep_def fresh_ok_def\<close>)

lemma Progress_decreaseTo_next: "pr_next p \<noteq> 0 \<Longrightarrow> pr_next (Progress_decreaseTo p to) \<noteq> 0"
  by (auto simp: Progress_decreaseTo_def Progress_resume_def Let_def)

lemma Progress_maybeUpdate_next: "pr_next p \<noteq> 0 \<Longrightarrow> pr_next (snd (Progress_maybeUpdate p to)) \<noteq> 0"
  by (auto simp: Progress_maybeUpdate_def Progress_resume_def Let_def)

lemma rep_leader_AppResp:
  assumes "rep E r0 r" "raft_advanceLeader sz r m = Inr r'" "msg_Type m = MsgAppResp"
  shows "rep E r0 r'"
proof -
  from assms(2,3) obtain p where p: "map_of (r_peers r) (msg_From m) = Some p"
    by (auto simp: raft_advanceLeader_def split: option.splits)
  have n: "pr_next p \<noteq> 0" using assms(1) p by (auto simp: rep_def fresh_ok_def next_ok_def)
  show ?thesis
  proof (cases "msg_Reject m")
    case True
    define p1 where "p1 = Progress_decreaseTo p (msg_PrevIndex m)"
    define p2 where "p2 = (if pr_state p1 = StateReplica then Progress_becomeProbe p1 else p1)"
    have "pr_next p2 \<noteq> 0" using Progress_decreaseTo_next [OF n] by (simp add: p2_def p1_def)
    moreover have "raft_advanceLeader sz r m =
        raft_sendAppend sz (r\<lparr>r_peers := AList.update (msg_From m) p2 (r_peers r)\<rparr>) (msg_From m)"
      using assms(3) p True by (simp add: raft_advanceLeader_def Let_def p2_def p1_def)
    ultimately show ?thesis using rep_sendAppend [OF rep_peer [OF assms(1)]] assms(2) by metis
  next
    case False
    obtain upd p1 where u: "Progress_maybeUpdate p (msg_PrevIndex m) = (upd, p1)" by fastforce
    have n1: "pr_next p1 \<noteq> 0" using Progress_maybeUpdate_next [OF n, of "msg_PrevIndex m"] u by simp
    define p2 where "p2 = (if pr_state p1 = StateProbe then Progress_becomeReplica p1
        else if pr_state p1 = StateSnapshot \<and> Progress_maybeSnapshotEnd p1 then Progress_becomeProbe p1 else p1)"
    have n2: "pr_next p2 \<noteq> 0" using n1 by (simp add: p2_def)
    have eq: "raft_advanceLeader sz r m = (if upd
        then go_bind (raft_maybeCommit (r\<lparr>r_peers := AList.update (msg_From m) p2 (r_peers r)\<rparr>)) (\<lambda>(_, r1). raft_sendAppend sz r1 (msg_From m))
        else Inr (r\<lparr>r_peers := AList.update (msg_From m) p1 (r_peers r)\<rparr>))"
      using assms(3) p u False by (simp add: raft_advanceLeader_def Let_def p2_def)
    consider b r1 where "raft_maybeCommit (r\<lparr>r_peers := AList.update (msg_From m) p2 (r_peers r)\<rparr>) = Inr (b, r1)"
        "raft_sendAppend sz r1 (msg_From m) = Inr r'"
      | "r' = r\<lparr>r_peers := AList.update (msg_From m) p1 (r_peers r)\<rparr>"
      using assms(2) unfolding eq by (cases upd) auto
    then show ?thesis
    proof cases
      case 1
      show ?thesis by (rule rep_sendAppend [OF rep_maybeCommit [OF rep_peer [OF assms(1) n2] 1(1)] 1(2)])
    next
      case 2
      then show ?thesis using rep_peer [OF assms(1) n1] by simp
    qed
  qed
qed

lemma rep_advanceLeader:
  assumes "rep E r0 r" "raft_advanceLeader sz r m = Inr r'" "msg_Type m \<noteq> MsgProp"
  shows "rep E r0 r'"
proof (cases "msg_Type m")
  case MsgHeartbeatResp
  then obtain p where p: "map_of (r_peers r) (msg_From m) = Some p"
    using assms(2) by (simp add: raft_advanceLeader_def split: option.splits)
  then have "pr_next p \<noteq> 0" using assms(1) by (auto simp: rep_def fresh_ok_def next_ok_def)
  then have "pr_next (p\<lparr>pr_alive := True\<rparr>) \<noteq> 0" by simp
  from rep_peer [OF assms(1) this, of "msg_From m"] show ?thesis
    using assms(2) MsgHeartbeatResp p by (simp add: raft_advanceLeader_def)
next
  case MsgVote
  have "rep E r0 (raft_sendTo r (msg_From m) (zero_Message\<lparr>msg_Type := MsgVoteResp, msg_Reject := True\<rparr>))"
    by (rule rep_sendTo [OF assms(1)]) (simp add: pay_ok_plain)
  then show ?thesis using assms(2) MsgVote by (simp add: raft_advanceLeader_def)
next
  case MsgAppResp
  then show ?thesis by (rule rep_leader_AppResp [OF assms(1,2)])
qed (use assms in \<open>simp_all add: raft_advanceLeader_def\<close>)

lemma rep_leader_Prop:
  assumes "rep E r0 r" "raft_advanceLeader sz r m = Inr r'" "msg_Type m = MsgProp"
    "chain_from (log_last (rl_view (r_logs r)) + 1) (msg_Entries m)"
    "log_last (rl_view (r_logs r)) + 1 + length (msg_Entries m) < 2 ^ 64"
    "\<forall>e \<in> set (msg_Entries m). ent_Term e \<noteq> 0" "set (msg_Entries m) \<subseteq> E"
  shows "rep E r0 r'"
proof (cases "map_of (r_peers r) (r_id r)")
  case None
  then show ?thesis using assms(1-3) by (simp add: raft_advanceLeader_def)
next
  case (Some p)
  let ?rl = "r_logs r"
  obtain rl where l: "raftLog_append ?rl (msg_Entries m) = Inr rl" "raft_bcastAppend sz (r\<lparr>r_logs := rl\<rparr>) = Inr r'"
    using assms(2,3) Some by (auto simp: raft_advanceLeader_def)
  have inv: "raftLog_inv ?rl" "log_fresh ?rl" "rl_entries ?rl \<subseteq> E" "raftLog_wf ?rl"
    using assms(1) by (simp_all add: rep_def fresh_ok_def node_ok_def raftLog_inv_def)
  have V: "raftLog_wf rl" "rl_view rl = rl_view ?rl @ msg_Entries m" "rl_committed rl = rl_committed ?rl"
    "rl_applied rl = rl_applied ?rl"
    using raftLog_append_view [OF inv(4) assms(4,5)] l(1) by auto
  have ne: "rl_view ?rl \<noteq> []" using log_okD(1) [OF rl_view_ok [OF inv(4)]] .
  have "log_grows ?rl rl"
    using V inv(1) raftLog_append_pending [OF l(1)] log_last_append [OF ne, of "msg_Entries m"]
    by (auto simp: log_grows_def raftLog_inv_def)
  moreover have "log_fresh rl" "rl_entries rl \<subseteq> E"
    using rl_entries_append [OF l(1)] inv V(2) ne assms(6,7) by (auto simp: log_fresh_def)
  ultimately show ?thesis using rep_bcastAppend [OF rep_log [OF assms(1)] l(2)] by blast
qed

lemma rep_advanceFollower:
  assumes "rep E r0 r" "raft_advanceFollower r m = Inr r'" "pay_ok E m"
  shows "rep E r0 r'"
proof (cases "msg_Type m")
  case MsgApp
  then have "raft_handleAppend (r\<lparr>r_electionElapsed := 0\<rparr>) m = Inr r'" using assms(2) by (simp add: raft_advanceFollower_def)
  then show ?thesis
    using rep_handleAppend [OF rep_field(1) [OF assms(1)]] assms(3) MsgApp by (auto simp: pay_ok_def)
next
  case MsgHeartbeat
  then have "raft_handleHeartbeat (r\<lparr>r_electionElapsed := 0, r_leader := msg_From m\<rparr>) m = Inr r'"
    using assms(2) by (simp add: raft_advanceFollower_def)
  then show ?thesis by (rule rep_handleHeartbeat [OF rep_field(3) [OF rep_field(1) [OF assms(1)]]])
next
  case MsgVote
  have "rep E r0 (raft_sendTo (r\<lparr>r_electionElapsed := 0, r_Vote := msg_From m\<rparr>) (msg_From m)
      (zero_Message\<lparr>msg_Type := MsgVoteResp, msg_Reject := False\<rparr>))"
    by (rule rep_sendTo [OF rep_field(5) [OF rep_field(1) [OF assms(1)]]]) (simp add: pay_ok_plain)
  moreover have "rep E r0 (raft_sendTo r (msg_From m) (zero_Message\<lparr>msg_Type := MsgVoteResp, msg_Reject := True\<rparr>))"
    by (rule rep_sendTo [OF assms(1)]) (simp add: pay_ok_plain)
  ultimately show ?thesis using assms(2) MsgVote by (auto simp: raft_advanceFollower_def split: if_splits)
qed (use assms in \<open>simp_all add: raft_advanceFollower_def pay_ok_def\<close>)

lemma rep_advanceCandidate:
  assumes "rep E r0 r" "raft_advanceCandidate sz r m = Inr r'" "pay_ok E m"
  shows "rep E r0 r'"
proof (cases "msg_Type m")
  case MsgApp
  then obtain r1 where r1: "raft_becomeFollower r (msg_Term m) (msg_From m) = Inr r1" "raft_handleAppend r1 m = Inr r'"
    using assms(2) by (auto simp: raft_advanceCandidate_def)
  show ?thesis
    using rep_handleAppend [OF rep_becomeFollower [OF assms(1) r1(1)] r1(2)] assms(3) MsgApp by (auto simp: pay_ok_def)
next
  case MsgHeartbeat
  then obtain r1 where r1: "raft_becomeFollower r (msg_Term m) (msg_From m) = Inr r1" "raft_handleHeartbeat r1 m = Inr r'"
    using assms(2) by (auto simp: raft_advanceCandidate_def)
  show ?thesis by (rule rep_handleHeartbeat [OF rep_becomeFollower [OF assms(1) r1(1)] r1(2)])
next
  case MsgVote
  obtain cnt r1 where p: "raft_poll r (msg_From m) False = (cnt, r1)" by fastforce
  have "rep E r0 (raft_sendTo r1 (msg_From m) (zero_Message\<lparr>msg_Type := MsgVoteResp, msg_Reject := True\<rparr>))"
    by (rule rep_sendTo [OF rep_poll [OF assms(1) p]]) (simp add: pay_ok_plain)
  then show ?thesis using assms(2) MsgVote p by (simp add: raft_advanceCandidate_def)
next
  case MsgVoteResp
  obtain gr r1 where p: "raft_poll r (msg_From m) (\<not> msg_Reject m) = (gr, r1)" by fastforce
  note R = rep_poll [OF assms(1) p]
  show ?thesis
  proof (cases "raft_q r1 = gr")
    case True
    then obtain r2 where r2: "raft_becomeLeader r1 = Inr r2" "raft_bcastAppend sz r2 = Inr r'"
      using assms(2) MsgVoteResp p by (auto simp: raft_advanceCandidate_def)
    show ?thesis by (rule rep_bcastAppend [OF rep_becomeLeader [OF R r2(1)] r2(2)])
  next
    case False
    then have "raft_becomeFollower r1 (r_Term r1) NoneId = Inr r' \<or> r' = r1"
      using assms(2) MsgVoteResp p by (auto simp: raft_advanceCandidate_def split: if_splits)
    then show ?thesis using R rep_becomeFollower by blast
  qed
qed (use assms in \<open>simp_all add: raft_advanceCandidate_def pay_ok_def\<close>)

lemma rep_advance:
  assumes "rep E r0 r" "raft_advance sz r m = Inr r'" "pay_ok E m"
  shows "rep E r0 r'"
proof (cases "r_advance r")
  case AdvanceLeader
  then show ?thesis
    using rep_advanceLeader [OF assms(1), of sz m r'] assms(2,3) by (simp add: raft_advance_def pay_ok_def)
next
  case AdvanceFollower
  then have "raft_advanceFollower r m = Inr r'" using assms(2) by (simp add: raft_advance_def)
  then show ?thesis by (rule rep_advanceFollower [OF assms(1) _ assms(3)])
next
  case AdvanceCandidate
  then have "raft_advanceCandidate sz r m = Inr r'" using assms(2) by (simp add: raft_advance_def)
  then show ?thesis by (rule rep_advanceCandidate [OF assms(1) _ assms(3)])
qed (use assms(2) in \<open>simp add: raft_advance_def\<close>)

lemma rep_onMsg:
  assumes "rep E r0 r" "raft_onMsg sz r m = Inr r'" "pay_ok E m"
  shows "rep E r0 r'"
proof (cases "r_Term r > msg_Term m")
  case True
  then show ?thesis using assms(1,2) by (simp add: raft_onMsg_def)
next
  case False
  then obtain r1 r2 where r1:
    "(if r_Term r < msg_Term m then raft_becomeFollower r (msg_Term m)
        (if oneOf (msg_Type m) noLeadTypeSet then NoneId else msg_From m) else Inr r) = Inr r1" and
    r2: "raft_advance sz r1 m = Inr r2" and
    r': "r' = (if rl_committed (r_logs r2) > r_Commit r2 then r2\<lparr>r_Commit := rl_committed (r_logs r2)\<rparr> else r2)"
    using assms(2) by (auto simp: raft_onMsg_def)
  have "rep E r0 r1" using r1 rep_becomeFollower assms(1) by (auto split: if_splits)
  then have "rep E r0 r2" by (rule rep_advance [OF _ r2 assms(3)])
  then show ?thesis unfolding r' by (auto simp: rep_def fresh_ok_def node_ok_def role_ok_def)
qed

lemma rep_campaign:
  assumes "rep E r0 r" "raft_campaign r = Inr r'"
  shows "rep E r0 r'"
proof -
  from assms(2) obtain r1 cnt r2 r3 m where
    r1: "raft_becomeCandidate r = Inr r1" and p: "raft_poll r1 (r_id r1) True = (cnt, r2)" and
    r3: "(if raft_q r1 \<le> cnt then raft_becomeLeader r2 else Inr r2) = Inr r3" and
    r': "r' = raft_broadcast r3 m" "msg_Type m = MsgVote" "msg_Entries m = []"
    by (cases "raft_becomeCandidate r"; auto simp: raft_campaign_def Let_def split: prod.splits)
  have R2: "rep E r0 r2" by (rule rep_poll [OF rep_becomeCandidate [OF assms(1) r1] p])
  then have "rep E r0 r3" using r3 rep_becomeLeader [OF R2] by (auto split: if_splits)
  then show ?thesis unfolding r'(1) by (rule rep_broadcast) (use r' in \<open>simp add: pay_ok_plain\<close>)
qed

lemma rep_tick:
  assumes "rep E r0 r" "raft_tick r rnd = Inr r'"
  shows "rep E r0 r'"
proof (cases "r_tick r")
  case TickElection
  define r1 where "r1 = r\<lparr>r_electionElapsed := wrap_int64 (r_electionElapsed r + 1)\<rparr>"
  have R: "rep E r0 r1" using assms(1) by (auto simp: r1_def)
  have "raft_campaign r1 = Inr r' \<or> r' = r1"
    using TickElection assms(2) by (auto simp: raft_tick_def raft_tickElection_def Let_def r1_def split: if_splits)
  then show ?thesis using rep_campaign [OF R] R by blast
next
  case TickHeartbeat
  then have r': "r' = raft_tickHeartbeat r" using assms(2) by (simp add: raft_tick_def)
  define r1 where "r1 = r\<lparr>r_heartbeatElapsed := wrap_int64 (r_heartbeatElapsed r + 1)\<rparr>"
  define r2 where "r2 = r1\<lparr>r_heartbeatElapsed := 0,
      r_peers := map (\<lambda>(nid, p). (nid, p\<lparr>pr_alive := False\<rparr>)) (r_peers r1)\<rparr>"
  have R: "rep E r0 r1" using assms(1) by (auto simp: r1_def)
  have "next_ok (r_peers r1)" using R by (simp add: rep_def fresh_ok_def)
  then have "next_ok (r_peers r2)" by (auto simp: r2_def next_ok_def map_of_map_pairs)
  then have R2: "rep E r0 r2" by (intro rep_same [OF R]) (simp_all add: r2_def same_node_def)
  have "rep E r0 (raft_broadcast r2 (zero_Message\<lparr>msg_Type := MsgHeartbeat\<rparr>))"
    by (rule rep_broadcast [OF R2]) (simp add: pay_ok_plain)
  then show ?thesis using R unfolding r' raft_tickHeartbeat_def Let_def r1_def r2_def by simp
qed (use assms(2) in \<open>simp add: raft_tick_def\<close>)

text \<open>A proposal adds one entry, at the next index and in the current term, and only on a leader.\<close>

definition prop_entry :: "raft \<Rightarrow> ProposeUnit \<Rightarrow> Entry" where
  "prop_entry r unit = \<lparr>ent_Type = pu_Type unit, ent_Index = of_nat (log_last (rl_view (r_logs r)) + 1),
     ent_Term = r_Term r, ent_Data = pu_Data unit\<rparr>"

lemma rep_onProp:
  assumes "rep E r0 (lp_raft lp)" "raft_onProp sz lp unit = Inr lp'"
    "log_last (rl_view (r_logs (lp_raft lp))) + 2 < 2 ^ 64" "r_Term (lp_raft lp) \<noteq> 0"
    "r_state (lp_raft lp) = StateLeader \<Longrightarrow> prop_entry (lp_raft lp) unit \<in> E"
  shows "rep E r0 (lp_raft lp')"
proof -
  let ?r = "lp_raft lp"
  define r1 where "r1 = (if pu_Type unit = EntryConfChange then ?r\<lparr>r_pendingConf := True\<rparr> else ?r)"
  have R1: "rep E r0 r1" using assms(1) by (auto simp: r1_def)
  have same: "r_logs r1 = r_logs ?r" "r_Term r1 = r_Term ?r" "r_state r1 = r_state ?r" by (simp_all add: r1_def)
  have wf: "raftLog_wf (r_logs r1)" using node_ok_wf [OF repD(2) [OF R1]] .
  obtain l where l: "raftLog_lastIndex (r_logs r1) = Inr l" "unat l = log_last (rl_view (r_logs r1))"
    using raftLog_last [OF wf] by blast
  define e where "e = \<lparr>ent_Type = pu_Type unit, ent_Index = l + 1, ent_Term = r_Term r1, ent_Data = pu_Data unit\<rparr>"
  define m where "m = zero_Message\<lparr>msg_Type := MsgProp, msg_From := r_id r1, msg_To := r_id r1,
      msg_Term := r_Term r1, msg_Entries := [e]\<rparr>"
  have l1: "unat (l + 1) = log_last (rl_view (r_logs ?r)) + 1"
    using unat_Suc_u64 [of l] l(2) assms(3) same by simp
  have "l + 1 = of_nat (log_last (rl_view (r_logs ?r)) + 1)" unfolding l1 [symmetric] by simp
  then have e: "e = prop_entry ?r unit" using same by (simp add: e_def prop_entry_def)
  consider "lp_raft lp' = ?r" | "raft_advance sz r1 m = Inr (lp_raft lp')"
    using assms(2) l(1) unfolding raft_onProp_def Let_def m_def e_def r1_def by (auto split: if_splits)
  then show ?thesis
  proof cases
    case 1
    then show ?thesis using assms(1) by simp
  next
    case 2
    have role: "role_ok r1" using repD(2) [OF R1] by (simp add: node_ok_def)
    show ?thesis
    proof (cases "r_state r1 = StateLeader")
      case True
      then have adv: "raft_advanceLeader sz r1 m = Inr (lp_raft lp')"
        using 2 role by (simp add: raft_advance_def role_ok_def)
      have "unat (ent_Index e) = log_last (rl_view (r_logs r1)) + 1" "ent_Term e \<noteq> 0"
        using l1 same assms(4) by (simp_all add: e_def)
      moreover have "e \<in> E" using assms(5) True same e by simp
      ultimately show ?thesis
        by (intro rep_leader_Prop [OF R1 adv]) (use assms(3) same in \<open>simp_all add: m_def\<close>)
    next
      case False
      then have "lp_raft lp' = r1"
        using 2 role by (cases "r_state r1")
          (auto simp: raft_advance_def role_ok_def raft_advanceFollower_def raft_advanceCandidate_def m_def)
      then show ?thesis using R1 by simp
    qed
  qed
qed

lemma rep_applied:
  assumes "rep E r0 r"
  shows "rep E r0 (r\<lparr>r_logs := snd (raftLog_appliedTo (r_logs r) to)\<rparr>)"
proof -
  let ?rl = "snd (raftLog_appliedTo (r_logs r) to)"
  have same: "rl_storage ?rl = rl_storage (r_logs r)" "rl_unstable ?rl = rl_unstable (r_logs r)"
    by (simp_all add: raftLog_appliedTo_def Let_def)
  have "log_fresh ?rl = log_fresh (r_logs r)" "rl_entries ?rl = rl_entries (r_logs r)"
    using raftLog_same(2) [OF same] same by (simp_all add: log_fresh_def rl_entries_def)
  moreover have "raftLog_inv ?rl"
    using assms by (intro raftLog_appliedTo_inv) (simp add: rep_def fresh_ok_def node_ok_def)
  ultimately show ?thesis using assms by (simp add: rep_def fresh_ok_def node_ok_def role_ok_def)
qed

text \<open>The events a member takes by itself.\<close>

lemma rep_local:
  assumes "rep E r0 (lp_raft lp)" "mainLoop_step sz lp ev = Inr (Running lp')" "local_event N ev"
    "N \<subseteq> set (keys (r_peers (lp_raft lp)))" "event_ok (lp_raft lp) ev" "r_Term (lp_raft lp) \<noteq> 0"
    "\<And>unit. ev = EvProp unit \<Longrightarrow> r_state (lp_raft lp) = StateLeader \<Longrightarrow> prop_entry (lp_raft lp) unit \<in> E"
  shows "rep E r0 (lp_raft lp')"
proof (cases ev)
  case (EvTick rnd)
  then have "raft_tick (lp_raft lp) rnd = Inr (lp_raft lp')" using assms(2) by (auto simp: mainLoop_step_def)
  then show ?thesis by (rule rep_tick [OF assms(1)])
next
  case EvCommitted
  then have "raft_onCommitted sz lp = Inr lp'" using assms(2) by (auto simp: mainLoop_step_def)
  then show ?thesis using raft_onCommitted_raft assms(1) by metis
next
  case (EvApply to)
  then have "lp_raft lp' = (lp_raft lp)\<lparr>r_logs := snd (raftLog_appliedTo (r_logs (lp_raft lp)) to)\<rparr>"
    using assms(2) by (auto simp: mainLoop_step_def)
  then show ?thesis using rep_applied [OF assms(1)] by simp
next
  case (EvConf cc)
  have "lp_raft lp' = (lp_raft lp)\<lparr>r_pendingConf := False\<rparr>"
  proof (cases "cc_Node cc = 0")
    case True
    then show ?thesis using assms(2) EvConf by (auto simp: mainLoop_step_def raft_onConf_def Let_def)
  next
    case False
    then have cc: "cc_Type cc = ConfChangeAddNode" "cc_Node cc \<in> set (keys (r_peers (lp_raft lp)))"
      using assms(3,4) EvConf by auto
    then obtain p where "map_of (r_peers (lp_raft lp)) (cc_Node cc) = Some p"
      by (metis map_of_None_keys not_None_eq)
    then show ?thesis
      using assms(2) EvConf False cc(1) by (auto simp: mainLoop_step_def raft_onConf_def raft_addNode_def Let_def)
  qed
  then show ?thesis using rep_field(4) [OF assms(1)] by simp
next
  case (EvProp unit)
  then have "raft_onProp sz lp unit = Inr lp'" using assms(2) by (auto simp: mainLoop_step_def)
  then show ?thesis
    using rep_onProp [OF assms(1)] assms(5-7) EvProp by (auto simp: event_ok_def)
qed (use assms(3) in simp_all)

end
