(* ===== verification/RaftSafety.thy ===== *)
theory RaftSafety
  imports RaftReplication
begin

text \<open>
  The group of \<open>RaftCluster\<close> when its members are freshly started and do not bound the size of a
  message. No reachable state lets a member panic; a leader only ever appends to its own log; and
  two entries anywhere in the group, in a log or on the network, with the same index and term
  are the same entry.
\<close>

section \<open>A leader only appends\<close>

lemma raft_advanceFollower_state: "raft_advanceFollower r m = Inr r' \<Longrightarrow> r_state r' = r_state r"
proof (cases "msg_Type m")
  case MsgApp
  then show "raft_advanceFollower r m = Inr r' \<Longrightarrow> r_state r' = r_state r"
    using raft_handleAppend_log [of "r\<lparr>r_electionElapsed := 0\<rparr>" m r'] by (simp add: raft_advanceFollower_def same_node_def)
next
  case MsgSnap
  then show "raft_advanceFollower r m = Inr r' \<Longrightarrow> r_state r' = r_state r"
    using raft_handleSnapshot_log [of "r\<lparr>r_electionElapsed := 0\<rparr>" m r'] by (simp add: raft_advanceFollower_def same_node_def)
next
  case MsgHeartbeat
  then show "raft_advanceFollower r m = Inr r' \<Longrightarrow> r_state r' = r_state r"
    using raft_handleHeartbeat_log [of "r\<lparr>r_electionElapsed := 0, r_leader := msg_From m\<rparr>" m r']
    by (simp add: raft_advanceFollower_def same_node_def)
qed (auto simp: raft_advanceFollower_def split: if_splits)

definition still_leader :: "raft \<Rightarrow> raft \<Rightarrow> bool" where
  "still_leader r r' \<longleftrightarrow> r_state r = StateLeader \<and> r_Term r' = r_Term r \<and>
     prefix (rl_view (r_logs r)) (rl_view (r_logs r'))"

lemma leader_same: "r_state r = StateLeader \<Longrightarrow> same_node r r' \<Longrightarrow> rl_view (r_logs r') = rl_view (r_logs r) \<Longrightarrow> still_leader r r'"
  by (simp add: still_leader_def same_node_def)

lemma leader_candidate:
  assumes "raft_advanceCandidate sz r m = Inr r'" "r_state r' = StateLeader" "unat (r_Term r) + 1 < 2 ^ 64"
    "r_state r = StateCandidate"
  shows "r_Term r < r_Term r'"
proof -
  have dem: "r_state r1 = StateFollower" if "raft_becomeFollower r (msg_Term m) (msg_From m) = Inr r1" for r1
    using raft_becomeFollower_fields(2) [OF that] .
  show ?thesis
  proof (cases "msg_Type m")
    case MsgApp
    then show ?thesis using assms(1,2) raft_handleAppend_log dem
      by (fastforce simp: raft_advanceCandidate_def same_node_def)
  next
    case MsgSnap
    then show ?thesis using assms(1,2) raft_handleSnapshot_log dem
      by (fastforce simp: raft_advanceCandidate_def same_node_def)
  next
    case MsgHeartbeat
    then show ?thesis using assms(1,2) raft_handleHeartbeat_log dem
      by (fastforce simp: raft_advanceCandidate_def same_node_def)
  next
    case MsgVote
    obtain cnt r1 where p: "raft_poll r (msg_From m) False = (cnt, r1)" by fastforce
    then show ?thesis
      using assms(1,2,4) MsgVote raft_poll_same(3) [OF p] by (auto simp: raft_advanceCandidate_def same_node_def)
  next
    case MsgVoteResp
    obtain gr r1 where p: "raft_poll r (msg_From m) (\<not> msg_Reject m) = (gr, r1)" by fastforce
    have s1: "r_state r1 = StateCandidate" "r_Term r1 = r_Term r"
      using raft_poll_same(3) [OF p] assms(4) by (simp_all add: same_node_def)
    show ?thesis
    proof (cases "raft_q r1 = gr")
      case True
      then obtain r2 where r2: "raft_becomeLeader r1 = Inr r2" "raft_bcastAppend sz r2 = Inr r'"
        using assms(1) MsgVoteResp p by (auto simp: raft_advanceCandidate_def)
      have "unat (r_Term r2) = unat (r_Term r) + 1"
        using raft_becomeLeader_fields(5) [OF r2(1)] s1 assms(3) by simp
      then show ?thesis using raft_bcastAppend_same [OF r2(2)] by (simp add: same_node_def word_less_nat_alt)
    next
      case False
      then have "raft_becomeFollower r1 (r_Term r1) NoneId = Inr r' \<or> r' = r1"
        using assms(1) MsgVoteResp p by (auto simp: raft_advanceCandidate_def split: if_splits)
      then show ?thesis using assms(2) s1 raft_becomeFollower_fields(2) by auto
    qed
  qed (use assms in \<open>auto simp: raft_advanceCandidate_def\<close>)
qed

lemma leader_onMsg:
  assumes "raft_onMsg sz r m = Inr r'" "r_state r' = StateLeader" "node_ok r" "msg_ok r m"
    "unat (r_Term r) + 1 < 2 ^ 64"
  shows "still_leader r r' \<or> r_Term r < r_Term r'"
proof (cases "r_Term r > msg_Term m")
  case True
  then show ?thesis using assms(1,2) leader_same [of r r] by (simp add: raft_onMsg_def)
next
  case False
  then obtain r1 r2 where r1:
    "(if r_Term r < msg_Term m then raft_becomeFollower r (msg_Term m)
        (if oneOf (msg_Type m) noLeadTypeSet then NoneId else msg_From m) else Inr r) = Inr r1" and
    r2: "raft_advance sz r1 m = Inr r2" and
    r': "r_logs r' = r_logs r2" "r_Term r' = r_Term r2" "r_state r' = r_state r2"
    using assms(1) by (auto simp: raft_onMsg_def)
  show ?thesis
  proof (cases "r_Term r < msg_Term m")
    case True
    then have F: "r_state r1 = StateFollower" "role_ok r1"
      using r1 raft_becomeFollower_fields(2,7) by auto
    then have "raft_advanceFollower r1 m = Inr r2" using r2 by (simp add: raft_advance_def role_ok_def)
    then show ?thesis using raft_advanceFollower_state F(1) r'(3) assms(2) by simp
  next
    case nlt: False
    then have [simp]: "r1 = r" using r1 by simp
    have role: "role_ok r" and inv: "raftLog_inv (r_logs r)" using assms(3) by (simp_all add: node_ok_def)
    show ?thesis
    proof (cases "r_state r")
      case StateFollower
      then have "raft_advanceFollower r m = Inr r2" using r2 role by (simp add: raft_advance_def role_ok_def)
      then show ?thesis using raft_advanceFollower_state StateFollower r'(3) assms(2) by simp
    next
      case StateCandidate
      then have "raft_advanceCandidate sz r m = Inr r2" using r2 role by (simp add: raft_advance_def role_ok_def)
      then show ?thesis using leader_candidate StateCandidate assms(2,5) r' by metis
    next
      case StateLeader
      then have "raft_advanceLeader sz r m = Inr r2" using r2 role by (simp add: raft_advance_def role_ok_def)
      then have L: "log_commit (r_logs r) (r_logs r2)" "same_node r r2"
        using raft_advanceLeader_log assms(4) by (auto simp: msg_ok_def)
      then show ?thesis
        using log_commit_inv [OF inv L(1)] StateLeader r' by (simp add: still_leader_def same_node_def)
    qed
  qed
qed

lemma leader_tick:
  assumes "raft_tick r rnd = Inr r'" "r_state r' = StateLeader" "node_ok r" "unat (r_Term r) + 2 < 2 ^ 64"
  shows "still_leader r r' \<or> r_Term r < r_Term r'"
proof (cases "r_state r = StateLeader")
  case True
  then have "r' = raft_tickHeartbeat r"
    using assms(1,3) by (auto simp: node_ok_def role_ok_def raft_tick_def)
  moreover have "same_node r (raft_tickHeartbeat r)" "r_logs (raft_tickHeartbeat r) = r_logs r"
    using raft_broadcast_same by (auto simp: raft_tickHeartbeat_def Let_def same_node_def)
  ultimately show ?thesis using leader_same True by simp
next
  case False
  define r1 where "r1 = r\<lparr>r_electionElapsed := wrap_int64 (r_electionElapsed r + 1)\<rparr>"
  have "r_tick r = TickElection" using False assms(3) by (cases "r_state r") (auto simp: node_ok_def role_ok_def)
  then have "raft_campaign r1 = Inr r' \<or> r' = r1"
    using assms(1) by (auto simp: raft_tick_def raft_tickElection_def Let_def r1_def split: if_splits)
  then have "raft_campaign r1 = Inr r'" using assms(2) False by (auto simp: r1_def)
  then obtain c cnt r2 r3 m where
    c: "raft_becomeCandidate r1 = Inr c" and p: "raft_poll c (r_id c) True = (cnt, r2)" and
    r3: "(if raft_q c \<le> cnt then raft_becomeLeader r2 else Inr r2) = Inr r3" and r': "r' = raft_broadcast r3 m"
    by (cases "raft_becomeCandidate r1"; auto simp: raft_campaign_def Let_def split: prod.splits)
  have "unat (r_Term c) = unat (r_Term r) + 1" "unat (r_Term r2) = unat (r_Term r) + 1"
    using raft_becomeCandidate_fields(5) [OF c] raft_poll_same(3) [OF p] assms(4) by (auto simp: r1_def same_node_def)
  then have "unat (r_Term r) < unat (r_Term r3)"
    using r3 raft_becomeLeader_fields(5) [of r2 r3] assms(4) by (auto split: if_splits)
  then show ?thesis using r' raft_broadcast_same(3) [of r3 m] by (simp add: same_node_def word_less_nat_alt)
qed

text \<open>A proposal: nothing happens to the instance, or the leader's log gains the proposed entry; on
  any other role only \<open>pendingConf\<close> can change.\<close>

lemma onProp_cases:
  assumes "raft_onProp sz lp unit = Inr lp'" "node_ok (lp_raft lp)" "r_id (lp_raft lp) \<in> set (keys (r_peers (lp_raft lp)))"
    "log_last (rl_view (r_logs (lp_raft lp))) + 2 < 2 ^ 64"
  shows "r_state (lp_raft lp') = r_state (lp_raft lp) \<and> r_Term (lp_raft lp') = r_Term (lp_raft lp) \<and>
    (lp_raft lp' = lp_raft lp \<or> (if r_state (lp_raft lp) = StateLeader
      then rl_view (r_logs (lp_raft lp')) = rl_view (r_logs (lp_raft lp)) @ [prop_entry (lp_raft lp) unit]
      else lp_raft lp' = (lp_raft lp)\<lparr>r_pendingConf := True\<rparr>))"
proof -
  let ?r = "lp_raft lp"
  define r1 where "r1 = (if pu_Type unit = EntryConfChange then ?r\<lparr>r_pendingConf := True\<rparr> else ?r)"
  have same: "r_logs r1 = r_logs ?r" "same_node ?r r1" "r_peers r1 = r_peers ?r" by (simp_all add: r1_def same_node_def)
  have wf: "raftLog_wf (r_logs r1)" using node_ok_wf [OF assms(2)] same by simp
  obtain l where l: "raftLog_lastIndex (r_logs r1) = Inr l" "unat l = log_last (rl_view (r_logs r1))"
    using raftLog_last [OF wf] by blast
  define e where "e = \<lparr>ent_Type = pu_Type unit, ent_Index = l + 1, ent_Term = r_Term r1, ent_Data = pu_Data unit\<rparr>"
  define m where "m = zero_Message\<lparr>msg_Type := MsgProp, msg_From := r_id r1, msg_To := r_id r1,
      msg_Term := r_Term r1, msg_Entries := [e]\<rparr>"
  have l1: "unat (l + 1) = log_last (rl_view (r_logs ?r)) + 1"
    using unat_Suc_u64 [of l] l(2) assms(4) same by simp
  have "l + 1 = of_nat (log_last (rl_view (r_logs ?r)) + 1)" unfolding l1 [symmetric] by simp
  then have e: "e = prop_entry ?r unit" using same by (simp add: e_def prop_entry_def same_node_def)
  consider "lp_raft lp' = ?r" | "raft_advance sz r1 m = Inr (lp_raft lp')"
    using assms(1) l(1) unfolding raft_onProp_def Let_def m_def e_def r1_def by (auto split: if_splits)
  then show ?thesis
  proof cases
    case 1
    then show ?thesis by simp
  next
    case 2
    have role: "role_ok r1" using assms(2) same(2) by (simp add: node_ok_def role_ok_def same_node_def)
    show ?thesis
    proof (cases "r_state r1 = StateLeader")
      case True
      then have adv: "raft_advanceLeader sz r1 m = Inr (lp_raft lp')"
        using 2 role by (simp add: raft_advance_def role_ok_def)
      have "r_id r1 \<in> set (keys (r_peers r1))" using assms(3) same by (simp add: same_node_def)
      then obtain p where "map_of (r_peers r1) (r_id r1) = Some p"
        using map_of_None_keys [of "r_peers r1" "r_id r1"] by blast
      then obtain logs where lg: "raftLog_append (r_logs r1) [e] = Inr logs" "raft_bcastAppend sz (r1\<lparr>r_logs := logs\<rparr>) = Inr (lp_raft lp')"
        using adv by (auto simp: raft_advanceLeader_def m_def)
      have "unat (ent_Index e) = log_last (rl_view (r_logs r1)) + 1" using l1 same by (simp add: e_def)
      then have "rl_view logs = rl_view (r_logs r1) @ [e]"
        using raftLog_append_view [OF wf, of "[e]"] lg(1) assms(4) same by simp
      then show ?thesis
        using raft_bcastAppend_same [OF lg(2)] same e True by (simp add: same_node_def)
    next
      case False
      then have "lp_raft lp' = r1"
        using 2 role by (cases "r_state r1")
          (auto simp: raft_advance_def role_ok_def raft_advanceFollower_def raft_advanceCandidate_def m_def)
      then show ?thesis using False unfolding r1_def by (cases "pu_Type unit = EntryConfChange") simp_all
    qed
  qed
qed

lemma leader_step:
  assumes "mainLoop_step sz lp ev = Inr (Running lp')" "r_state (lp_raft lp') = StateLeader" "node_ok (lp_raft lp)"
    "event_ok (lp_raft lp) ev" "unat (r_Term (lp_raft lp)) + 2 < 2 ^ 64"
    "r_id (lp_raft lp) \<in> set (keys (r_peers (lp_raft lp)))"
  shows "still_leader (lp_raft lp) (lp_raft lp') \<or> r_Term (lp_raft lp) < r_Term (lp_raft lp')"
proof (cases ev)
  case (EvTick rnd)
  then have "raft_tick (lp_raft lp) rnd = Inr (lp_raft lp')" using assms(1) by (auto simp: mainLoop_step_def)
  then show ?thesis using leader_tick assms(2,3,5) by blast
next
  case EvCommitted
  then have "lp_raft lp' = lp_raft lp" using assms(1) by (auto simp: mainLoop_step_def dest: raft_onCommitted_raft)
  then show ?thesis using assms(2) leader_same by simp
next
  case (EvApply to)
  then have "lp_raft lp' = (lp_raft lp)\<lparr>r_logs := snd (raftLog_appliedTo (r_logs (lp_raft lp)) to)\<rparr>"
    using assms(1) by (auto simp: mainLoop_step_def)
  moreover have "rl_view (snd (raftLog_appliedTo (r_logs (lp_raft lp)) to)) = rl_view (r_logs (lp_raft lp))"
    by (rule raftLog_same(2)) (simp_all add: raftLog_appliedTo_def Let_def)
  ultimately show ?thesis using assms(2) by (simp add: still_leader_def)
next
  case (EvConf cc)
  have "r_state r1 = r_state r \<and> r_Term r1 = r_Term r \<and> r_logs r1 = r_logs r" if "raft_addNode r k = Inr r1" for r k r1
    using that by (auto simp: raft_addNode_def split: option.splits)
  then have "r_state (lp_raft lp') = r_state (lp_raft lp) \<and> r_Term (lp_raft lp') = r_Term (lp_raft lp) \<and>
      r_logs (lp_raft lp') = r_logs (lp_raft lp)"
    using EvConf assms(1)
    by (cases "cc_Type cc") (auto simp: mainLoop_step_def raft_onConf_def Let_def split: if_splits)
  then show ?thesis using assms(2) by (simp add: still_leader_def)
next
  case (EvProp unit)
  then have p: "raft_onProp sz lp unit = Inr lp'" using assms(1) by (auto simp: mainLoop_step_def)
  show ?thesis
    using onProp_cases [OF p assms(3,6)] assms(2,4) EvProp by (auto simp: event_ok_def still_leader_def)
next
  case (EvMsg m)
  then have "raft_onMsg sz (lp_raft lp) m = Inr (lp_raft lp')" using assms(1) by (auto simp: mainLoop_step_def)
  then show ?thesis using leader_onMsg assms(2-5) EvMsg by (auto simp: event_ok_def)
qed (use assms(1) in \<open>simp add: mainLoop_step_def\<close>)

section \<open>The invariant of the group\<close>

definition log_room :: "loop \<Rightarrow> bool" where
  "log_room lp \<longleftrightarrow>
     (case raftLog_lastIndex (r_logs (lp_raft lp)) of Inl f \<Rightarrow> False | Inr l \<Rightarrow> l < 18446744073709551614)"

text \<open>A step of the group while no log is within two of the largest index.\<close>

definition group_step :: "(Entry \<Rightarrow> u64) \<Rightarrow> u64 set \<Rightarrow> cluster \<Rightarrow> cluster \<Rightarrow> bool" where
  "group_step sz N C C' \<longleftrightarrow> cluster_step sz N C C' \<and> (\<forall>n \<in> N. log_room (C n))"

definition all_entries :: "u64 set \<Rightarrow> cluster \<Rightarrow> Entry set" where
  "all_entries N C = (\<Union>n \<in> N. rl_entries (r_logs (lp_raft (C n)))) \<union> (\<Union>m \<in> cluster_net N C. set (msg_Entries m))"

text \<open>The group as \<open>Start\<close> leaves it: term 1, nothing sent, and the same initial entries everywhere.\<close>

definition group_init :: "u64 set \<Rightarrow> cluster \<Rightarrow> bool" where
  "group_init N C \<longleftrightarrow> cluster_init N C \<and>
     (\<forall>n \<in> N. fresh_ok (lp_raft (C n)) \<and> r_Term (lp_raft (C n)) = 1 \<and>
        (\<forall>e \<in> rl_entries (r_logs (lp_raft (C n))). ent_Term e = 1)) \<and>
     (\<forall>e \<in> all_entries N C. \<forall>e' \<in> all_entries N C. ent_Index e = ent_Index e' \<longrightarrow> e = e')"

definition terms_ok :: "enode \<Rightarrow> bool" where
  "terms_ok e \<longleftrightarrow> 1 \<le> e_term e \<and> (\<forall>t. Led t \<in> e_sent e \<longrightarrow> 2 \<le> t \<and> t \<le> e_term e)"

definition entries_ok :: "u64 set \<Rightarrow> (u64 \<Rightarrow> enode) \<Rightarrow> cluster \<Rightarrow> bool" where
  "entries_ok N A C \<longleftrightarrow>
     (\<forall>e \<in> all_entries N C. \<forall>e' \<in> all_entries N C. ent_Index e = ent_Index e' \<longrightarrow> ent_Term e = ent_Term e' \<longrightarrow> e = e') \<and>
     (\<forall>e \<in> all_entries N C. ent_Term e = 1 \<or> (\<exists>l \<in> N. Led (unat (ent_Term e)) \<in> e_sent (A l))) \<and>
     (\<forall>n \<in> N. r_state (lp_raft (C n)) = StateLeader \<longrightarrow> (\<forall>e \<in> all_entries N C.
        ent_Term e = r_Term (lp_raft (C n)) \<longrightarrow> unat (ent_Index e) \<le> log_last (rl_view (r_logs (lp_raft (C n))))))"

definition group_inv :: "u64 set \<Rightarrow> (u64 \<Rightarrow> enode) \<Rightarrow> cluster \<Rightarrow> bool" where
  "group_inv N A C \<longleftrightarrow> NoneId \<notin> N \<and> cluster_rel N A C \<and> election_inv N A \<and> (\<forall>n \<in> N. terms_ok (A n)) \<and>
     (\<forall>n \<in> N. fresh_ok (lp_raft (C n))) \<and> (\<forall>m \<in> cluster_net N C. pay_ok UNIV m) \<and> entries_ok N A C"

lemma log_room_last:
  "node_ok (lp_raft lp) \<Longrightarrow> log_room lp \<longleftrightarrow> log_last (rl_view (r_logs (lp_raft lp))) + 2 < 2 ^ 64"
  using raftLog_last [OF node_ok_wf, of "lp_raft lp"] by (auto simp: log_room_def word_less_nat_alt)

lemma unat_of_nat_u64: "n < 2 ^ 64 \<Longrightarrow> unat (of_nat n :: u64) = n"
  by (simp add: unat_of_nat)

lemma enode_step_terms: "enode_step N G n e e' \<Longrightarrow> terms_ok e \<Longrightarrow> terms_ok e'"
  by (induction rule: enode_step.induct) (fastforce simp: terms_ok_def)+

lemma estep_terms: "estep N A A' \<Longrightarrow> \<forall>n \<in> N. terms_ok (A n) \<Longrightarrow> \<forall>n \<in> N. terms_ok (A' n)"
  by (induction rule: estep.induct) (auto dest: enode_step_terms)

lemma esteps_terms: "(estep N)\<^sup>*\<^sup>* A A' \<Longrightarrow> \<forall>n \<in> N. terms_ok (A n) \<Longrightarrow> \<forall>n \<in> N. terms_ok (A' n)"
  by (induction rule: rtranclp_induct) (auto dest: estep_terms)

lemma esteps_sent: "(estep N)\<^sup>*\<^sup>* A A' \<Longrightarrow> e_sent (A n) \<subseteq> e_sent (A' n)"
proof (induction rule: rtranclp_induct)
  case (step B B')
  from step.hyps(2) have "e_sent (B n) \<subseteq> e_sent (B' n)"
    by (induction rule: estep.induct) (auto dest: enode_step_sent)
  with step.IH show ?case by blast
qed simp

section \<open>Every step keeps it\<close>

lemma group_invD:
  assumes "group_inv N A C" "n \<in> N"
  shows "erel N n (A n) (lp_raft (C n))" "fresh_ok (lp_raft (C n))" "node_ok (lp_raft (C n))"
    "set (keys (r_peers (lp_raft (C n)))) = N" "r_id (lp_raft (C n)) = n" "r_Term (lp_raft (C n)) \<noteq> 0"
proof -
  show e: "erel N n (A n) (lp_raft (C n))" using assms by (simp add: group_inv_def cluster_rel_def)
  show "fresh_ok (lp_raft (C n))" "node_ok (lp_raft (C n))" using assms by (simp_all add: group_inv_def fresh_ok_def)
  show "set (keys (r_peers (lp_raft (C n)))) = N" "r_id (lp_raft (C n)) = n"
    using erelD(1,2) [OF e] by (simp_all add: member_ok_def)
  have "1 \<le> unat (r_Term (lp_raft (C n)))"
    using assms erelD(4) [OF e] unfolding group_inv_def terms_ok_def by metis
  then show "r_Term (lp_raft (C n)) \<noteq> 0" by auto
qed

lemma group_rep_refl: "group_inv N A C \<Longrightarrow> n \<in> N \<Longrightarrow> all_entries N C \<subseteq> E \<Longrightarrow> rep E (lp_raft (C n)) (lp_raft (C n))"
  by (rule rep_refl) (auto simp: group_invD all_entries_def)

lemma rep_outc: "rep E r0 r \<Longrightarrow> m \<in> set (r_outc r) \<Longrightarrow> m \<in> set (r_outc r0) \<or> pay_ok E m"
  by (auto simp: rep_def)

lemma net_update:
  assumes "rep E (lp_raft (C n)) (lp_raft lp)" "m \<in> cluster_net N (C(n := lp))" "n \<in> N"
  shows "m \<in> cluster_net N C \<or> pay_ok E m"
  using assms rep_outc [OF assms(1)] by (fastforce simp: cluster_net_def split: if_splits)

lemma all_entries_update:
  assumes "rep E (lp_raft (C n)) (lp_raft lp)" "all_entries N C \<subseteq> E" "n \<in> N"
  shows "all_entries N (C(n := lp)) \<subseteq> E"
proof
  fix e assume "e \<in> all_entries N (C(n := lp))"
  then consider k where "k \<in> N" "e \<in> rl_entries (r_logs (lp_raft ((C(n := lp)) k)))"
    | m where "m \<in> cluster_net N (C(n := lp))" "e \<in> set (msg_Entries m)"
    by (auto simp: all_entries_def)
  then show "e \<in> E"
  proof cases
    case 1
    then show ?thesis using repD(3) [OF assms(1)] assms(2) by (cases "k = n") (auto simp: all_entries_def)
  next
    case 2
    then show ?thesis
      using net_update [OF assms(1) 2(1) assms(3)] assms(2) by (auto simp: all_entries_def pay_ok_def)
  qed
qed

lemma pay_ok_mono: "pay_ok E m \<Longrightarrow> E \<subseteq> E' \<Longrightarrow> pay_ok E' m"
  by (auto simp: pay_ok_def)

text \<open>What is left to show of a step, once the election part is done, is \<open>entries_ok\<close>.\<close>

lemma group_inv_step:
  assumes "group_inv N A C" "n \<in> N" "rep E (lp_raft (C n)) (lp_raft lp)" "(estep N)\<^sup>*\<^sup>* A A'"
    "cluster_rel N A' (C(n := lp))" "entries_ok N A' (C(n := lp))"
  shows "group_inv N A' (C(n := lp))"
proof -
  have "NoneId \<notin> N" "election_inv N A" using assms(1) by (simp_all add: group_inv_def)
  then have "election_inv N A'" "NoneId \<notin> N" using esteps_inv [OF assms(4)] by blast+
  moreover have "\<forall>n \<in> N. terms_ok (A' n)"
    using esteps_terms [OF assms(4)] assms(1) by (simp add: group_inv_def)
  moreover have "fresh_ok (lp_raft ((C(n := lp)) k))" if "k \<in> N" for k
    using that group_invD(2) [OF assms(1)] repD(1) [OF assms(3)] by simp
  moreover have "pay_ok UNIV m" if "m \<in> cluster_net N (C(n := lp))" for m
    using net_update [OF assms(3) that assms(2)] assms(1) pay_ok_mono [of E m UNIV] by (auto simp: group_inv_def)
  ultimately show ?thesis using assms(5,6) by (simp add: group_inv_def)
qed

lemma new_leader_entries:
  assumes "group_inv N A C" "n \<in> N" "(estep N)\<^sup>*\<^sup>* A A'" "cluster_rel N A' C'"
    "r_state (lp_raft (C' n)) = StateLeader" "r_Term (lp_raft (C n)) < r_Term (lp_raft (C' n))" "e \<in> all_entries N C"
  shows "ent_Term e \<noteq> r_Term (lp_raft (C' n))"
proof
  assume eq: "ent_Term e = r_Term (lp_raft (C' n))"
  let ?t = "unat (r_Term (lp_raft (C' n)))"
  have I: "NoneId \<notin> N" "election_inv N A" "\<forall>n \<in> N. terms_ok (A n)" using assms(1) by (simp_all add: group_inv_def)
  have led: "Led ?t \<in> e_sent (A' n)" using cluster_leader_led [OF assms(4,2,5)] .
  then have "2 \<le> ?t" using esteps_terms [OF assms(3) I(3)] assms(2) by (simp add: terms_ok_def)
  then have "ent_Term e \<noteq> 1" using eq by auto
  then obtain l where l: "l \<in> N" "Led ?t \<in> e_sent (A l)"
    using assms(1,7) eq by (auto simp: group_inv_def entries_ok_def)
  then have "Led ?t \<in> e_sent (A' l)" using esteps_sent [OF assms(3)] by blast
  then have "l = n" using led_unique [OF esteps_inv [OF assms(3) I(2,1)] l(1) assms(2)] led by blast
  then have "?t \<le> unat (r_Term (lp_raft (C n)))"
    using l(2) I(3) assms(2) erelD(4) [OF group_invD(1) [OF assms(1,2)]] unfolding terms_ok_def by metis
  then show False using assms(6) by (simp add: word_less_nat_alt)
qed

lemma log_last_prefix: "prefix L L' \<Longrightarrow> L \<noteq> [] \<Longrightarrow> log_last L \<le> log_last L'"
  by (auto simp: prefix_def log_last_append)

text \<open>A step that adds no entry.\<close>

lemma entries_ok_quiet:
  assumes "group_inv N A C" "n \<in> N" "all_entries N (C(n := lp)) \<subseteq> all_entries N C" "(estep N)\<^sup>*\<^sup>* A A'"
    "cluster_rel N A' (C(n := lp))"
    "r_state (lp_raft lp) = StateLeader \<Longrightarrow> still_leader (lp_raft (C n)) (lp_raft lp) \<or> r_Term (lp_raft (C n)) < r_Term (lp_raft lp)"
  shows "entries_ok N A' (C(n := lp))"
proof -
  let ?C' = "C(n := lp)"
  have E: "entries_ok N A C" using assms(1) by (simp add: group_inv_def)
  have "ent_Term e = 1 \<or> (\<exists>l \<in> N. Led (unat (ent_Term e)) \<in> e_sent (A' l))" if "e \<in> all_entries N ?C'" for e
    using that assms(3) E esteps_sent [OF assms(4)] unfolding entries_ok_def by blast
  moreover have "unat (ent_Index e) \<le> log_last (rl_view (r_logs (lp_raft (?C' k))))"
    if k: "k \<in> N" "r_state (lp_raft (?C' k)) = StateLeader" "e \<in> all_entries N ?C'" "ent_Term e = r_Term (lp_raft (?C' k))" for k e
  proof (cases "k = n")
    case False
    then show ?thesis using k assms(3) E unfolding entries_ok_def by auto
  next
    case True
    have eC: "e \<in> all_entries N C" using k(3) assms(3) by blast
    then have "still_leader (lp_raft (C n)) (lp_raft lp)"
      using assms(6) k True new_leader_entries [OF assms(1,2,4,5)] by auto
    then have S: "r_state (lp_raft (C n)) = StateLeader" "ent_Term e = r_Term (lp_raft (C n))"
      "prefix (rl_view (r_logs (lp_raft (C n)))) (rl_view (r_logs (lp_raft lp)))"
      using k(4) True by (simp_all add: still_leader_def)
    have "rl_view (r_logs (lp_raft (C n))) \<noteq> []"
      using log_okD(1) [OF rl_view_ok [OF node_ok_wf [OF group_invD(3) [OF assms(1,2)]]]] .
    then have "log_last (rl_view (r_logs (lp_raft (C n)))) \<le> log_last (rl_view (r_logs (lp_raft lp)))"
      using log_last_prefix S(3) by blast
    moreover have "unat (ent_Index e) \<le> log_last (rl_view (r_logs (lp_raft (C n))))"
      using E S eC assms(2) unfolding entries_ok_def by blast
    ultimately show ?thesis using True by simp
  qed
  moreover have "e = e'" if "e \<in> all_entries N ?C'" "e' \<in> all_entries N ?C'" "ent_Index e = ent_Index e'" "ent_Term e = ent_Term e'" for e e'
    using that assms(3) E unfolding entries_ok_def by blast
  ultimately show ?thesis unfolding entries_ok_def by blast
qed

text \<open>A leader takes a proposal.\<close>

lemma entries_ok_prop:
  assumes "group_inv N A C" "n \<in> N" "r_state (lp_raft (C n)) = StateLeader"
    "log_last (rl_view (r_logs (lp_raft (C n)))) + 2 < 2 ^ 64"
    "all_entries N (C(n := lp)) \<subseteq> insert (prop_entry (lp_raft (C n)) unit) (all_entries N C)"
    "rl_view (r_logs (lp_raft lp)) = rl_view (r_logs (lp_raft (C n))) @ [prop_entry (lp_raft (C n)) unit]"
    "r_Term (lp_raft lp) = r_Term (lp_raft (C n))" "(estep N)\<^sup>*\<^sup>* A A'" "cluster_rel N A' (C(n := lp))"
    "r_state (lp_raft lp) = StateLeader"
  shows "entries_ok N A' (C(n := lp))"
proof -
  let ?C' = "C(n := lp)" and ?new = "prop_entry (lp_raft (C n)) unit" and ?L = "rl_view (r_logs (lp_raft (C n)))"
  have E: "entries_ok N A C" using assms(1) by (simp add: group_inv_def)
  have idx: "unat (ent_Index ?new) = log_last ?L + 1" and tm: "ent_Term ?new = r_Term (lp_raft (C n))"
    using unat_of_nat_u64 [of "log_last ?L + 1"] assms(4) by (simp_all add: prop_entry_def)
  have "?L \<noteq> []" using log_okD(1) [OF rl_view_ok [OF node_ok_wf [OF group_invD(3) [OF assms(1,2)]]]] .
  then have last: "log_last (rl_view (r_logs (lp_raft lp))) = log_last ?L + 1" using assms(6) by (simp add: log_last_append)
  have old: "unat (ent_Index e) \<le> log_last ?L" if "e \<in> all_entries N C" "ent_Term e = r_Term (lp_raft (C n))" for e
    using E assms(2,3) that unfolding entries_ok_def by blast
  have led: "Led (unat (r_Term (lp_raft (C n)))) \<in> e_sent (A' n)"
    using cluster_leader_led [OF assms(9,2)] assms(7,10) by simp
  have "NoneId \<notin> N" "election_inv N A" using assms(1) by (simp_all add: group_inv_def)
  then have inv': "election_inv N A'" using esteps_inv [OF assms(8)] by blast
  have one: "k = n" if "k \<in> N" "r_state (lp_raft (?C' k)) = StateLeader" "r_Term (lp_raft (?C' k)) = r_Term (lp_raft (C n))" for k
  proof -
    have "Led (unat (r_Term (lp_raft (C n)))) \<in> e_sent (A' k)"
      using cluster_leader_led [OF assms(9) that(1,2)] that(3) by simp
    then show ?thesis using led_unique [OF inv' that(1) assms(2)] led by blast
  qed
  have same: "e = e'" if "e \<in> all_entries N C" "e' \<in> all_entries N C" "ent_Index e = ent_Index e'" "ent_Term e = ent_Term e'" for e e'
    using that E unfolding entries_ok_def by blast
  have "ent_Term e = 1 \<or> (\<exists>l \<in> N. Led (unat (ent_Term e)) \<in> e_sent (A' l))" if e: "e \<in> all_entries N ?C'" for e
  proof (cases "e = ?new")
    case True
    then show ?thesis using led tm assms(2) by auto
  next
    case False
    then have "ent_Term e = 1 \<or> (\<exists>l \<in> N. Led (unat (ent_Term e)) \<in> e_sent (A l))"
      using e assms(5) E unfolding entries_ok_def by blast
    then show ?thesis using esteps_sent [OF assms(8)] by blast
  qed
  moreover have "unat (ent_Index e) \<le> log_last (rl_view (r_logs (lp_raft (?C' k))))"
    if k: "k \<in> N" "r_state (lp_raft (?C' k)) = StateLeader" "e \<in> all_entries N ?C'" "ent_Term e = r_Term (lp_raft (?C' k))" for k e
  proof (cases "e = ?new")
    case True
    then have "k = n" by (intro one) (use k tm in auto)
    then show ?thesis using True idx last by simp
  next
    case False
    then have e: "e \<in> all_entries N C" using k(3) assms(5) by blast
    show ?thesis
    proof (cases "k = n")
      case True
      then show ?thesis using old [OF e] k(4) assms(7) last by simp
    next
      case kn: False
      then show ?thesis using k e E unfolding entries_ok_def by auto
    qed
  qed
  moreover have "e = e'" if "e \<in> all_entries N ?C'" "e' \<in> all_entries N ?C'" "ent_Index e = ent_Index e'" "ent_Term e = ent_Term e'" for e e'
  proof -
    have fresh: "x = ?new" if "x \<in> insert ?new (all_entries N C)" "ent_Index x = ent_Index ?new" "ent_Term x = ent_Term ?new" for x
      using that old [of x] idx tm by auto
    have "e \<in> insert ?new (all_entries N C)" "e' \<in> insert ?new (all_entries N C)" using that(1,2) assms(5) by blast+
    then show ?thesis using that(3,4) fresh [of e] fresh [of e'] same [of e e'] by auto
  qed
  ultimately show ?thesis unfolding entries_ok_def by blast
qed

lemma group_msg_ok:
  assumes "group_inv N A C" "n \<in> N" "m \<in> cluster_net N C"
  shows "msg_ok (lp_raft (C n)) m" "pay_ok (all_entries N C) m"
proof -
  have pay: "pay_ok UNIV m" using assms(1,3) by (simp add: group_inv_def)
  then show "pay_ok (all_entries N C) m" using assms(3) by (auto simp: pay_ok_def all_entries_def)
  have "msg_From m \<in> N"
    using cluster_net_incoming [of N A C m] assms(1,3) by (simp add: group_inv_def incoming_ok_def)
  then show "msg_ok (lp_raft (C n)) m"
    using pay log_fresh_app_ok [OF node_ok_wf] group_invD [OF assms(1,2)]
    by (auto simp: msg_ok_def pay_ok_def fresh_ok_def split: if_splits)
qed

lemma group_step_inv:
  assumes "group_step sz N C C'" "group_inv N A C"
  shows "\<exists>A'. group_inv N A' C'"
proof -
  have st: "cluster_step sz N C C'" and room: "\<forall>n \<in> N. log_room (C n)" using assms(1) by (simp_all add: group_step_def)
  have N: "NoneId \<notin> N" and rel: "cluster_rel N A C" using assms(2) by (simp_all add: group_inv_def)
  obtain A' where A': "(estep N)\<^sup>*\<^sup>* A A'" "cluster_rel N A' C'" using cluster_step_sim [OF st rel N] by blast
  from st show ?thesis
  proof cases
    case (deliver n m lp)
    note D = group_invD [OF assms(2) deliver(2)]
    note M = group_msg_ok [OF assms(2) deliver(2,3)]
    have ev: "event_ok (lp_raft (C n)) (EvMsg m)" using M(1) by (simp add: event_ok_def)
    have h: "raft_onMsg sz (lp_raft (C n)) m = Inr (lp_raft lp)" using deliver(6) by (auto simp: mainLoop_step_def)
    have R: "rep (all_entries N C) (lp_raft (C n)) (lp_raft lp)"
      by (rule rep_onMsg [OF group_rep_refl [OF assms(2) deliver(2)] h M(2)]) simp
    have AE: "all_entries N (C(n := lp)) \<subseteq> all_entries N C"
      by (rule all_entries_update [where C = C and n = n and lp = lp, OF R _ deliver(2)]) simp
    have "entries_ok N A' C'"
      unfolding deliver(1)
      by (rule entries_ok_quiet [OF assms(2) deliver(2) AE A'(1)])
         (use A'(2) deliver(1,5) leader_step [OF deliver(6) _ D(3) ev] D(4,5) deliver(2) in \<open>auto simp: term_room_unat\<close>)
    then show ?thesis using group_inv_step [where C = C and n = n and lp = lp, OF assms(2) deliver(2) R A'(1)] A'(2) deliver(1) by blast
  next
    case (local_ev n ev lp)
    note D = group_invD [OF assms(2) local_ev(2)]
    have last: "log_last (rl_view (r_logs (lp_raft (C n)))) + 2 < 2 ^ 64"
      using room local_ev(2) log_room_last [OF D(3)] by blast
    have ev: "event_ok (lp_raft (C n)) ev" using last local_ev(3) by (cases ev) (simp_all add: event_ok_def)
    have lead: "r_state (lp_raft lp) = StateLeader \<Longrightarrow>
        still_leader (lp_raft (C n)) (lp_raft lp) \<or> r_Term (lp_raft (C n)) < r_Term (lp_raft lp)"
      using leader_step [OF local_ev(5) _ D(3) ev] D(4,5) local_ev(2,4) by (simp add: term_room_unat)
    show ?thesis
    proof (cases "\<exists>unit. ev = EvProp unit \<and> r_state (lp_raft (C n)) = StateLeader \<and> lp_raft lp \<noteq> lp_raft (C n)")
      case False
      have R: "rep (all_entries N C) (lp_raft (C n)) (lp_raft lp)"
      proof (cases "lp_raft lp = lp_raft (C n)")
        case True
        then show ?thesis using group_rep_refl [OF assms(2) local_ev(2)] by simp
      next
        case ne: False
        show ?thesis
          by (rule rep_local [OF group_rep_refl [OF assms(2) local_ev(2)] local_ev(5,3) _ ev D(6)])
             (use D(4) False ne in auto)
      qed
      have AE: "all_entries N (C(n := lp)) \<subseteq> all_entries N C"
        by (rule all_entries_update [where C = C and n = n and lp = lp, OF R _ local_ev(2)]) simp
      have "entries_ok N A' C'"
        unfolding local_ev(1)
        by (rule entries_ok_quiet [OF assms(2) local_ev(2) AE A'(1)])
           (use A'(2) local_ev(1) lead in auto)
      then show ?thesis using group_inv_step [where C = C and n = n and lp = lp, OF assms(2) local_ev(2) R A'(1)] A'(2) local_ev(1) by blast
    next
      case True
      then obtain unit where u: "ev = EvProp unit" "r_state (lp_raft (C n)) = StateLeader" "lp_raft lp \<noteq> lp_raft (C n)"
        by blast
      let ?E = "insert (prop_entry (lp_raft (C n)) unit) (all_entries N C)"
      have p: "raft_onProp sz (C n) unit = Inr lp" using local_ev(5) u(1) by (auto simp: mainLoop_step_def)
      have R: "rep ?E (lp_raft (C n)) (lp_raft lp)"
        by (rule rep_local [OF group_rep_refl [OF assms(2) local_ev(2)] local_ev(5,3) _ ev D(6)])
           (use D(4) u(1) in auto)
      have P: "r_state (lp_raft lp) = StateLeader" "r_Term (lp_raft lp) = r_Term (lp_raft (C n))"
        "rl_view (r_logs (lp_raft lp)) = rl_view (r_logs (lp_raft (C n))) @ [prop_entry (lp_raft (C n)) unit]"
        using onProp_cases [OF p D(3) _ last] D(4,5) local_ev(2) u by auto
      have AE: "all_entries N (C(n := lp)) \<subseteq> ?E"
        by (rule all_entries_update [where C = C and n = n and lp = lp, OF R _ local_ev(2)]) blast
      have "entries_ok N A' C'"
        unfolding local_ev(1)
        by (rule entries_ok_prop [OF assms(2) local_ev(2) u(2) last AE P(3,2) A'(1)])
           (use A'(2) local_ev(1) P(1) in auto)
      then show ?thesis using group_inv_step [where C = C and n = n and lp = lp, OF assms(2) local_ev(2) R A'(1)] A'(2) local_ev(1) by blast
    qed
  qed
qed

lemma group_init_inv:
  assumes "group_init N C"
  shows "\<exists>A. group_inv N A C"
proof -
  let ?A = "\<lambda>n. enode_of (lp_raft (C n))"
  have I: "cluster_init N C" using assms by (simp add: group_init_def)
  have net: "cluster_net N C = {}" using I by (auto simp: cluster_init_def cluster_net_def Let_def)
  have ent1: "ent_Term e = 1" if "e \<in> all_entries N C" for e
    using that assms net by (auto simp: all_entries_def group_init_def)
  have "entries_ok N ?A C"
    unfolding entries_ok_def
    using ent1 assms I by (auto simp: group_init_def cluster_init_def Let_def)
  moreover have "\<forall>n \<in> N. terms_ok (?A n)"
    using assms by (simp add: group_init_def terms_ok_def enode_of_def)
  ultimately have "group_inv N ?A C"
    using cluster_init_rel [OF I] election_init_inv [OF cluster_init_election [OF I]] net I assms
    by (simp add: group_inv_def group_init_def cluster_init_def)
  then show ?thesis by blast
qed

lemma group_reachable_inv:
  assumes "group_init N C0" "(group_step sz N)\<^sup>*\<^sup>* C0 C"
  shows "\<exists>A. group_inv N A C"
  using assms(2)
proof (induction rule: rtranclp_induct)
  case base
  then show ?case by (rule group_init_inv [OF assms(1)])
next
  case (step C C')
  then show ?case using group_step_inv by blast
qed

end
