(* ===== verification/RaftStart.thy ===== *)
theory RaftStart
  imports RaftSafety
begin

text \<open>
  \<open>NewRaft\<close> and \<open>Start\<close> on an empty in-memory storage establish what \<open>RaftCluster\<close> and \<open>RaftSafety\<close>
  assume of the initial state, and a scheduler that runs a group on concrete input.
\<close>

section \<open>Start\<close>

fun start_entries :: "(ConfChange \<Rightarrow> byte list option) \<Rightarrow> nat \<Rightarrow> u64 list \<Rightarrow> Entry list" where
  "start_entries marshal k [] = []"
| "start_entries marshal k (p # ps) =
     \<lparr>ent_Type = EntryConfChange, ent_Index = of_nat (k + 1), ent_Term = 1,
      ent_Data = the (marshal \<lparr>cc_Type = ConfChangeAddNode, cc_Node = p\<rparr>)\<rparr> # start_entries marshal (k + 1) ps"

lemma start_entries_chain: "k + length ps < 2 ^ 64 \<Longrightarrow> chain_from (k + 1) (start_entries marshal k ps)"
proof (induction ps arbitrary: k)
  case (Cons p ps)
  then show ?case using unat_of_nat_u64 [of "k + 1"] Cons.IH [of "k + 1"] by simp
qed simp

lemma start_entries_term: "e \<in> set (start_entries marshal k ps) \<Longrightarrow> ent_Term e = 1"
  by (induction ps arbitrary: k) auto

lemma chain_from_unique:
  assumes "chain_from k es" "e \<in> set es" "e' \<in> set es" "ent_Index e = ent_Index e'"
  shows "e = e'"
proof -
  obtain i j where "i < length es" "e = es ! i" "j < length es" "e' = es ! j"
    using assms(2,3) by (metis in_set_conv_nth)
  then show ?thesis using assms(4) chain_from_nth [OF assms(1)] by (metis add_left_cancel)
qed

text \<open>A node before it is started.\<close>

definition unstarted :: "Entry set \<Rightarrow> raft \<Rightarrow> bool" where
  "unstarted E r \<longleftrightarrow> raftLog_inv (r_logs r) \<and> log_fresh (r_logs r) \<and> next_ok (r_peers r) \<and>
     r_electionTimeout r \<noteq> 0 \<and> r_maxSizePerMsg r = noLimit \<and> r_Commit r \<le> rl_committed (r_logs r) \<and>
     rl_entries (r_logs r) \<subseteq> E"

lemma raft_addNode_unstarted:
  assumes "raft_addNode r p = Inr r'" "unstarted E r"
  shows "unstarted E r' \<and> r_logs r' = r_logs r"
proof (cases "map_of (r_peers r) p")
  case None
  have wf: "raftLog_wf (r_logs r)" using assms(2) by (simp add: unstarted_def raftLog_inv_def)
  obtain l where l: "raftLog_lastIndex (r_logs r) = Inr l" "unat l = log_last (rl_view (r_logs r))"
    using raftLog_last [OF wf] by blast
  have "unat (l + 1) \<noteq> 0"
    using unat_Suc_u64 [of l] l(2) log_okD(6) [OF rl_view_ok [OF wf]] by simp
  then have "l + 1 \<noteq> 0" by auto
  then show ?thesis
    using assms None l(1) by (auto simp: raft_addNode_def unstarted_def intro!: next_ok_update)
next
  case (Some q)
  then show ?thesis using assms by (auto simp: raft_addNode_def unstarted_def)
qed

lemma raft_Start_loop_unstarted:
  assumes "raft_Start_loop marshal r None ps = Inr (None, r')" "unstarted E r"
    "log_last (rl_view (r_logs r)) + length ps + 1 < 2 ^ 64"
    "set (start_entries marshal (log_last (rl_view (r_logs r))) ps) \<subseteq> E"
  shows "unstarted E r'"
  using assms
proof (induction ps arbitrary: r)
  case (Cons p ps)
  let ?rl = "r_logs r"
  obtain d where d: "marshal \<lparr>cc_Type = ConfChangeAddNode, cc_Node = p\<rparr> = Some d"
    using Cons.prems(1) raft_Start_loop_err by (fastforce split: option.splits)
  have inv: "raftLog_inv ?rl" "raftLog_wf ?rl" "log_fresh ?rl"
    using Cons.prems(2) by (simp_all add: unstarted_def raftLog_inv_def)
  obtain l where l: "raftLog_lastIndex ?rl = Inr l" "unat l = log_last (rl_view ?rl)"
    using raftLog_last [OF inv(2)] by blast
  define e where "e = \<lparr>ent_Type = EntryConfChange, ent_Index = l + 1, ent_Term = 1, ent_Data = d\<rparr>"
  have l1: "unat (l + 1) = log_last (rl_view ?rl) + 1"
    using unat_Suc_u64 [of l] l(2) Cons.prems(3) by simp
  have "l + 1 = of_nat (log_last (rl_view ?rl) + 1)" unfolding l1 [symmetric] by simp
  then have eE: "e \<in> E" using Cons.prems(4) d by (simp add: e_def add.commute)
  obtain logs r1 where lg: "raftLog_append ?rl [e] = Inr logs"
    and r1: "raft_addNode (r\<lparr>r_logs := logs\<rparr>) p = Inr r1" and rest: "raft_Start_loop marshal r1 None ps = Inr (None, r')"
    using Cons.prems(1) d l(1) by (auto simp: e_def)
  have V: "raftLog_wf logs" "rl_view logs = rl_view ?rl @ [e]" "rl_committed logs = rl_committed ?rl"
    "rl_applied logs = rl_applied ?rl"
    using raftLog_append_view [OF inv(2), of "[e]"] lg l1 Cons.prems(3) by (auto simp: e_def)
  have ne: "rl_view ?rl \<noteq> []" using log_okD(1) [OF rl_view_ok [OF inv(2)]] .
  have last: "log_last (rl_view logs) = log_last (rl_view ?rl) + 1" using V(2) log_last_append [OF ne] by simp
  have "raftLog_inv logs"
    using V last inv(1) raftLog_append_pending [OF lg] by (simp add: raftLog_inv_def)
  moreover have "log_fresh logs \<and> rl_entries logs \<subseteq> E"
    using rl_entries_append [OF lg] inv(3) V(2) ne eE Cons.prems(2) by (auto simp: log_fresh_def unstarted_def e_def)
  ultimately have "unstarted E (r\<lparr>r_logs := logs\<rparr>)" using Cons.prems(2) V(3) by (simp add: unstarted_def)
  then have "unstarted E r1" "r_logs r1 = logs" using raft_addNode_unstarted [OF r1] by simp_all
  then show ?case using Cons.IH [OF rest] Cons.prems(3,4) last by simp
qed simp

text \<open>\<open>NewRaft\<close> on an empty in-memory storage.\<close>

lemma NewRaft_unstarted:
  assumes "NewRaft cfg = Inr (Inr r)" "cfg_Storage cfg = Some NewInMemStorage" "cfg_MaxSizePerMsg cfg = noLimit"
  shows "unstarted {} r \<and> r_id r = cfg_Id cfg \<and> r_peers r = [] \<and> r_Term r = 0 \<and> r_outc r = [] \<and>
    log_last (rl_view (r_logs r)) = 0 \<and> rl_snaps (r_logs r) = {zero_Snapshot}"
proof -
  have st: "storage_inv NewInMemStorage"
    by (simp add: storage_inv_def NewInMemStorage_def log_ok_def)
  obtain rl where rl: "newRaftLog NewInMemStorage = Inr rl" "raftLog_inv rl" "rl_view rl = [zero_Entry]"
    "rl_storage rl = NewInMemStorage"
    using newRaftLog_view [OF st] by (auto simp: NewInMemStorage_def)
  have u: "u_snapshot (rl_unstable rl) = None \<and> u_ents (rl_unstable rl) = []"
    using rl(1) by (auto simp: newRaftLog_def)
  have r: "r_logs r = rl" "r_electionTimeout r \<noteq> 0" "r_maxSizePerMsg r = noLimit" "r_Commit r = rl_committed rl" "r_peers r = []"
    "r_id r = cfg_Id cfg" "r_Term r = 0" "r_outc r = []"
    using assms rl(1)
    by (auto simp: NewRaft_def RaftConfig_checkAndInitDefault_def DefaultElectionTick_def Let_def split: if_splits)
  have "log_fresh rl" "rl_entries rl = {}"
    using u rl(3,4) by (simp_all add: log_fresh_def rl_entries_def NewInMemStorage_def log_base_def)
  then show ?thesis
    using r rl(2-4) u by (simp add: unstarted_def next_ok_def rl_snaps_def NewInMemStorage_def log_last_def log_base_def)
qed

lemma raft_Start_group:
  assumes "NewRaft cfg = Inr (Inr r)" "cfg_Storage cfg = Some NewInMemStorage" "cfg_MaxSizePerMsg cfg = noLimit"
    "raft_Start marshal r ps = Inr (None, r')" "length ps + 1 < 2 ^ 64"
  shows "fresh_ok r' \<and> r_id r' = cfg_Id cfg \<and> r_state r' = StateFollower \<and> role_ok r' \<and> r_Term r' = 1 \<and>
    r_outc r' = [] \<and> member_ok (set ps) r' \<and> rl_entries (r_logs r') \<subseteq> set (start_entries marshal 0 ps)"
proof -
  let ?E = "set (start_entries marshal 0 ps)"
  note U = NewRaft_unstarted [OF assms(1-3)]
  obtain r1 r2 where r1: "raft_prelude r = Inr r1" and r2: "raft_Start_loop marshal r1 None ps = Inr (None, r2)"
    and r': "raft_becomeFollower r2 1 NoneId = Inr r'"
    using assms(4) by (auto simp: raft_Start_def split: sum.splits)
  have r1': "r1 = r\<lparr>r_stoppedc := True\<rparr>" using r1 by (simp add: raft_prelude_def split: if_splits)
  have "unstarted ?E r1" using U by (auto simp: r1' unstarted_def)
  then have U2: "unstarted ?E r2"
    by (rule raft_Start_loop_unstarted [OF r2]) (use U assms(5) in \<open>simp_all add: r1'\<close>)
  obtain r3 where r3: "raft_reset (r2\<lparr>r_state := StateFollower\<rparr>) 1 = Inr r3"
    "r' = r3\<lparr>r_leader := NoneId, r_tick := TickElection, r_advance := AdvanceFollower\<rparr>"
    using r' by (auto simp: raft_becomeFollower_def)
  have wf: "raftLog_wf (r_logs r2)" using U2 by (simp add: unstarted_def raftLog_inv_def)
  have F: "r_id r' = r_id r \<and> r_state r' = StateFollower \<and> role_ok r' \<and> r_Term r' = 1 \<and> r_Vote r' = NoneId \<and>
      r_outc r' = [] \<and> member_ok (set ps) r'"
    by (rule raft_Start_fields [OF assms(4)]) (use U in \<open>auto simp: snap_ok_def\<close>)
  moreover have "fresh_ok r'"
    using F U2 r3(2) raft_reset_fields [OF r3(1)] raft_reset_config [OF r3(1)] raft_reset_next [OF _ r3(1)] wf
    by (simp add: fresh_ok_def node_ok_def unstarted_def)
  moreover have "rl_entries (r_logs r') \<subseteq> ?E"
    using U2 raft_becomeFollower_fields(4) [OF r'] by (simp add: unstarted_def)
  ultimately show ?thesis using U by simp
qed

text \<open>Every member of \<open>ps\<close> is created on an empty storage and started with the peers \<open>ps\<close>.\<close>

definition started :: "(ConfChange \<Rightarrow> byte list option) \<Rightarrow> u64 list \<Rightarrow> u64 \<Rightarrow> raft \<Rightarrow> bool" where
  "started marshal ps n r' \<longleftrightarrow> (\<exists>cfg r. cfg_Id cfg = n \<and> cfg_Storage cfg = Some NewInMemStorage \<and>
     cfg_MaxSizePerMsg cfg = noLimit \<and> NewRaft cfg = Inr (Inr r) \<and> raft_Start marshal r ps = Inr (None, r'))"

lemma started_group_init:
  assumes "\<And>n. n \<in> set ps \<Longrightarrow> started marshal ps n (lp_raft (C n))" "0 \<notin> set ps" "length ps + 1 < 2 ^ 64"
  shows "group_init (set ps) C"
proof -
  let ?E = "set (start_entries marshal 0 ps)"
  have S: "fresh_ok (lp_raft (C n))" "r_id (lp_raft (C n)) = n" "r_state (lp_raft (C n)) = StateFollower"
    "role_ok (lp_raft (C n))" "r_Term (lp_raft (C n)) = 1" "r_outc (lp_raft (C n)) = []"
    "member_ok (set ps) (lp_raft (C n))" "rl_entries (r_logs (lp_raft (C n))) \<subseteq> ?E" if n: "n \<in> set ps" for n
    using assms(1) [OF n] raft_Start_group [OF _ _ _ _ assms(3)] unfolding started_def by blast+
  have "cluster_init (set ps) C"
    using S assms(2) by (simp add: cluster_init_def Let_def NoneId_def)
  moreover have "all_entries (set ps) C \<subseteq> ?E"
    using S(6,8) by (auto simp: all_entries_def cluster_net_def)
  moreover have "chain_from 1 (start_entries marshal 0 ps)"
    using start_entries_chain [of 0 ps marshal] assms(3) by simp
  ultimately show ?thesis
    unfolding group_init_def using S(1,5,8) start_entries_term chain_from_unique by (meson subset_iff)
qed

section \<open>Running a group\<close>

text \<open>A scheduler: an action is an event of one member, or the delivery to \<open>n\<close> of the \<open>k\<close>-th message
  that \<open>v\<close> ever sent.\<close>

datatype action = Local u64 event | Deliver u64 u64 nat

fun group_do :: "(Entry \<Rightarrow> u64) \<Rightarrow> u64 list \<Rightarrow> action \<Rightarrow> cluster \<Rightarrow> cluster option" where
  "group_do sz ns (Local n ev) C =
     (if n \<in> set ns \<and> local_event (set ns) ev \<and> term_room (C n) \<and> list_all (\<lambda>k. log_room (C k)) ns
      then case mainLoop_step sz (C n) ev of Inr (Running lp) \<Rightarrow> Some (C(n := lp)) | _ \<Rightarrow> None
      else None)"
| "group_do sz ns (Deliver n v k) C =
     (if n \<in> set ns \<and> v \<in> set ns \<and> k < length (r_outc (lp_raft (C v))) \<and>
         msg_To (r_outc (lp_raft (C v)) ! k) = n \<and> term_room (C n) \<and> list_all (\<lambda>k. log_room (C k)) ns
      then case mainLoop_step sz (C n) (EvMsg (r_outc (lp_raft (C v)) ! k)) of
             Inr (Running lp) \<Rightarrow> Some (C(n := lp)) | _ \<Rightarrow> None
      else None)"

fun group_run :: "(Entry \<Rightarrow> u64) \<Rightarrow> u64 list \<Rightarrow> action list \<Rightarrow> cluster \<Rightarrow> cluster option" where
  "group_run sz ns [] C = Some C"
| "group_run sz ns (a # acts) C = Option.bind (group_do sz ns a C) (group_run sz ns acts)"

lemma group_do_step: "group_do sz ns a C = Some C' \<Longrightarrow> group_step sz (set ns) C C'"
proof (induction sz ns a C rule: group_do.induct)
  case (1 sz ns n ev C)
  then show ?case
    by (auto simp: group_step_def list_all_iff split: if_splits sum.splits outcome.splits intro: cluster_step.local_ev)
next
  case (2 sz ns n v k C)
  then have "r_outc (lp_raft (C v)) ! k \<in> cluster_net (set ns) C"
    by (force simp: cluster_net_def split: if_splits)
  with 2 show ?case
    by (auto simp: group_step_def list_all_iff split: if_splits sum.splits outcome.splits intro: cluster_step.deliver)
qed

lemma group_run_steps: "group_run sz ns acts C = Some C' \<Longrightarrow> (group_step sz (set ns))\<^sup>*\<^sup>* C C'"
proof (induction acts arbitrary: C)
  case (Cons a acts)
  then show ?case
    by (auto simp: Option.bind_eq_Some_conv dest: group_do_step intro: converse_rtranclp_into_rtranclp)
qed simp

lemma group_steps_cluster: "(group_step sz N)\<^sup>*\<^sup>* C C' \<Longrightarrow> (cluster_step sz N)\<^sup>*\<^sup>* C C'"
  by (erule rtranclp_mono [THEN predicate2D, rotated]) (auto simp: group_step_def)

text \<open>Three members, and a run in which member 1 is elected, appends an entry and replicates it to
  member 2. \<open>trio_marshal\<close> and \<open>trio_size\<close> stand for the generated protobuf code.\<close>

definition trio_marshal :: "ConfChange \<Rightarrow> byte list option" where
  "trio_marshal cc = Some [ucast (cc_Node cc)]"

definition trio_size :: "Entry \<Rightarrow> u64" where
  "trio_size e = 1"

definition trio_cfg :: "u64 \<Rightarrow> RaftConfig" where
  "trio_cfg n = \<lparr>cfg_Id = n, cfg_Storage = Some NewInMemStorage, cfg_Tickc = True, cfg_Inc = True, cfg_Outc = True,
     cfg_HeartbeatTick = 1, cfg_ElectionTick = 1, cfg_MaxSizePerMsg = noLimit\<rparr>"

definition trio_start :: "u64 \<Rightarrow> raft option" where
  "trio_start n = (case NewRaft (trio_cfg n) of
      Inr (Inr r) \<Rightarrow> (case raft_Start trio_marshal r [1, 2, 3] of Inr (None, r') \<Rightarrow> Some r' | _ \<Rightarrow> None)
    | _ \<Rightarrow> None)"

definition trio :: cluster where
  "trio = (\<lambda>n. mainLoop_init (the (trio_start n)))"

definition trio_elect :: "action list" where
  "trio_elect = [Local 1 (EvTick 0), Local 1 (EvTick 0), Deliver 2 1 0, Deliver 1 2 0]"

definition trio_append :: "action list" where
  "trio_append = trio_elect @ [Local 1 (EvProp \<lparr>pu_Type = EntryNormal, pu_Data = [7]\<rparr>), Deliver 2 1 4]"

lemma trio_start_ok: "n \<in> set [1, 2, 3] \<Longrightarrow> trio_start n \<noteq> None"
proof -
  have "list_all (\<lambda>n. trio_start n \<noteq> None) [1, 2, 3]" by code_simp
  then show "n \<in> set [1, 2, 3] \<Longrightarrow> trio_start n \<noteq> None" by (auto simp: list_all_iff)
qed

lemma trio_started:
  assumes "n \<in> set [1, 2, 3]"
  shows "started trio_marshal [1, 2, 3] n (lp_raft (trio n))"
proof -
  obtain r' where r': "trio_start n = Some r'" using trio_start_ok [OF assms] by blast
  then obtain r where "NewRaft (trio_cfg n) = Inr (Inr r)" "raft_Start trio_marshal r [1, 2, 3] = Inr (None, r')"
    by (auto simp: trio_start_def split: sum.splits option.splits)
  then show ?thesis
    unfolding started_def trio_def r' mainLoop_init_def
    by (intro exI [of _ "trio_cfg n"] exI [of _ r]) (simp add: trio_cfg_def)
qed

lemma trio_init: "group_init (set [1, 2, 3]) trio"
  by (rule started_group_init [OF trio_started]) simp_all

end
