(* ===== verification/RaftStable.thy ===== *)
theory RaftStable
  imports RaftStart
begin

text \<open>
  What no event undoes: along the events of one instance its \<open>committed\<close> index, its term and, within
  a term, its vote only move forward, and the log below \<open>committed\<close> stays as it is.
\<close>

section \<open>The committed part of the log\<close>

definition log_stable :: "raftLog \<Rightarrow> raftLog \<Rightarrow> bool" where
  "log_stable rl rl' \<longleftrightarrow> rl_committed rl \<le> rl_committed rl' \<and>
     take (unat (rl_committed rl)) (rl_view rl') = take (unat (rl_committed rl)) (rl_view rl)"

lemma log_stable_refl [simp]: "log_stable rl rl"
  by (simp add: log_stable_def)

lemma log_stable_same: "rl_view rl' = rl_view rl \<Longrightarrow> rl_committed rl \<le> rl_committed rl' \<Longrightarrow> log_stable rl rl'"
  by (simp add: log_stable_def)

lemma log_overwrite_stable:
  assumes "raftLog_inv rl" "log_base (rl_view rl) = 0" "log_overwrite rl m (rl_view rl')" "rl_committed rl \<le> rl_committed rl'"
  shows "log_stable rl rl'"
proof (cases "rl_view rl' = rl_view rl")
  case False
  then obtain j es where j: "unat (rl_committed rl) \<le> j" "j \<le> log_last (rl_view rl) + 1"
    "rl_view rl' = log_append (rl_view rl) j es"
    using assms(3) by (auto simp: log_overwrite_def)
  have "j \<le> length (rl_view rl)"
    using j(2) assms(1,2) log_okD(7) [OF rl_view_ok, of rl] by (simp add: raftLog_inv_def)
  then show ?thesis using j(1,3) assms(2,4) by (simp add: log_stable_def log_append_def min_absorb1)
qed (use assms(4) in \<open>simp add: log_stable_same\<close>)

lemma log_trans_stable:
  assumes "log_trans m (r_logs r) rl'" "fresh_ok r" "msg_ok r m" "msg_Type m \<noteq> MsgSnap"
  shows "log_stable (r_logs r) rl'"
proof -
  have inv: "raftLog_inv (r_logs r)" and b: "log_base (rl_view (r_logs r)) = 0"
    using assms(2) by (simp_all add: fresh_ok_def node_ok_def log_fresh_def)
  consider "log_commit (r_logs r) rl'"
    | i c where "msg_Type m = MsgApp" "raftLog_maybeAppend (r_logs r) (msg_PrevIndex m) (msg_PrevTerm m) (msg_Commit m)
        (msg_Entries m) = Inr (i, c, rl')"
    using assms(1,4) by (auto simp: log_trans_def)
  then show ?thesis
  proof cases
    case 1
    then show ?thesis using log_commit_inv [OF inv 1] by (auto intro: log_stable_same simp: log_grows_def)
  next
    case 2
    then have "app_ok (r_logs r) m" using assms(3) by (simp add: msg_ok_def)
    then have "log_grows (r_logs r) rl' \<and> log_overwrite (r_logs r) m (rl_view rl')"
      using raftLog_maybeAppend_total [OF inv, of m "msg_Commit m"] 2(2) by auto
    then show ?thesis using log_overwrite_stable [OF inv b] unfolding log_grows_def by blast
  qed
qed

lemma raft_campaign_logs: 
  assumes "raft_campaign r = Inr r'"
  shows "r_logs r' = r_logs r"
proof -
  from assms obtain r1 cnt r2 r3 m where
    r1: "raft_becomeCandidate r = Inr r1" and p: "raft_poll r1 (r_id r1) True = (cnt, r2)" and
    r3: "(if raft_q r1 \<le> cnt then raft_becomeLeader r2 else Inr r2) = Inr r3" and r': "r' = raft_broadcast r3 m"
    by (cases "raft_becomeCandidate r"; auto simp: raft_campaign_def Let_def split: prod.splits)
  have "r_logs r3 = r_logs r2" using r3 raft_becomeLeader_logs by (auto split: if_splits)
  then show ?thesis
    using r' raft_broadcast_same(1) [of r3 m] raft_poll_same(1) [OF p] raft_becomeCandidate_logs [OF r1] by simp
qed

lemma raft_tick_logs: "raft_tick r rnd = Inr r' \<Longrightarrow> r_logs r' = r_logs r"
  using raft_campaign_logs [of "r\<lparr>r_electionElapsed := wrap_int64 (r_electionElapsed r + 1)\<rparr>" r'] raft_broadcast_same(1)
  by (cases "r_tick r")
     (auto simp: raft_tick_def raft_tickElection_def raft_tickHeartbeat_def Let_def split: if_splits)

lemma raftLog_append_committed: "raftLog_append rl es = Inr rl' \<Longrightarrow> rl_committed rl' = rl_committed rl"
  by (auto simp: raftLog_append_def split: if_splits)

lemma raft_onProp_committed:
  assumes "raft_onProp sz lp unit = Inr lp'"
  shows "rl_committed (r_logs (lp_raft lp')) = rl_committed (r_logs (lp_raft lp))"
proof -
  have step: "rl_committed (r_logs r') = rl_committed (r_logs r)" if "raft_advance sz r m = Inr r'" "msg_Type m = MsgProp" for r r' m
    using that raft_leader_Prop_log [of sz r m r'] raftLog_append_committed
    by (cases "r_advance r") (auto simp: raft_advance_def raft_advanceFollower_def raft_advanceCandidate_def)
  show ?thesis
    using assms by (auto simp: raft_onProp_def Let_def dest!: step split: if_splits)
qed

lemma mainLoop_step_stable:
  assumes "mainLoop_step sz lp ev = Inr (Running lp')" "fresh_ok (lp_raft lp)" "event_ok (lp_raft lp) ev"
    "\<And>m. ev = EvMsg m \<Longrightarrow> msg_Type m \<noteq> MsgSnap" "r_id (lp_raft lp) \<in> set (keys (r_peers (lp_raft lp)))"
  shows "log_stable (r_logs (lp_raft lp)) (r_logs (lp_raft lp'))"
proof (cases ev)
  case (EvTick rnd)
  then have "raft_tick (lp_raft lp) rnd = Inr (lp_raft lp')" using assms(1) by (auto simp: mainLoop_step_def)
  then show ?thesis using raft_tick_logs by simp
next
  case EvCommitted
  then have "lp_raft lp' = lp_raft lp" using assms(1) by (auto simp: mainLoop_step_def dest: raft_onCommitted_raft)
  then show ?thesis by simp
next
  case (EvApply to)
  then have "r_logs (lp_raft lp') = snd (raftLog_appliedTo (r_logs (lp_raft lp)) to)"
    using assms(1) by (auto simp: mainLoop_step_def)
  moreover have "rl_view (snd (raftLog_appliedTo (r_logs (lp_raft lp)) to)) = rl_view (r_logs (lp_raft lp))"
    by (rule raftLog_same(2)) (simp_all add: raftLog_appliedTo_def Let_def)
  ultimately show ?thesis by (simp add: log_stable_def)
next
  case (EvConf cc)
  have "r_logs r1 = r_logs r" if "raft_addNode r k = Inr r1" for r k r1
    using that by (auto simp: raft_addNode_def split: option.splits)
  then have "r_logs (lp_raft lp') = r_logs (lp_raft lp)"
    using EvConf assms(1)
    by (cases "cc_Type cc") (auto simp: mainLoop_step_def raft_onConf_def Let_def split: if_splits)
  then show ?thesis by simp
next
  case (EvProp unit)
  then have p: "raft_onProp sz lp unit = Inr lp'" using assms(1) by (auto simp: mainLoop_step_def)
  have n: "node_ok (lp_raft lp)" using assms(2) by (simp add: fresh_ok_def)
  have room: "log_last (rl_view (r_logs (lp_raft lp))) + 2 < 2 ^ 64" using assms(3) EvProp by (simp add: event_ok_def)
  have g: "log_last (rl_view (r_logs (lp_raft lp))) + 1 = length (rl_view (r_logs (lp_raft lp)))"
    using assms(2) log_okD(7) [OF rl_view_ok [OF node_ok_wf [OF n]]] by (simp add: fresh_ok_def log_fresh_def)
  have c: "unat (rl_committed (r_logs (lp_raft lp))) \<le> log_last (rl_view (r_logs (lp_raft lp)))"
    using n by (simp add: node_ok_def raftLog_inv_def)
  have "rl_committed (r_logs (lp_raft lp')) = rl_committed (r_logs (lp_raft lp))"
    by (rule raft_onProp_committed [OF p])
  then show ?thesis
    using onProp_cases [OF p n assms(5) room] c g by (auto simp: log_stable_def split: if_splits)
next
  case (EvMsg m)
  then have o: "raft_onMsg sz (lp_raft lp) m = Inr (lp_raft lp')" using assms(1) by (auto simp: mainLoop_step_def)
  have "msg_ok (lp_raft lp) m" using assms(3) EvMsg by (simp add: event_ok_def)
  then show ?thesis
    using raft_onMsg_log [OF o] log_trans_stable assms(2,4) EvMsg by (auto simp: msg_ok_def)
qed (use assms(1) in \<open>simp add: mainLoop_step_def\<close>)

section \<open>Terms and votes\<close>

definition forward :: "raft \<Rightarrow> raft \<Rightarrow> bool" where
  "forward r r' \<longleftrightarrow> r_Term r \<le> r_Term r' \<and> (r_Term r' = r_Term r \<and> r_Vote r \<noteq> NoneId \<longrightarrow> r_Vote r' = r_Vote r)"

lemma forward_refl [simp]: "forward r r"
  by (simp add: forward_def)

lemma forward_trans: "forward r r' \<Longrightarrow> forward r' r'' \<Longrightarrow> forward r r''"
  by (auto simp: forward_def)

lemma forward_same: "same_node r r' \<Longrightarrow> forward r r'"
  by (simp add: forward_def same_node_def)

lemma forward_becomeFollower: "raft_becomeFollower r t l = Inr r' \<Longrightarrow> forward r r'"
  by (auto simp: forward_def raft_becomeFollower_fields)

lemma forward_becomeLeader:
  assumes "raft_becomeLeader r = Inr r'" "unat (r_Term r) + 1 < 2 ^ 64"
  shows "forward r r'"
  using raft_becomeLeader_fields(5) [OF assms] by (auto simp: forward_def word_le_nat_alt)

lemma forward_becomeCandidate:
  assumes "raft_becomeCandidate r = Inr r'" "unat (r_Term r) + 1 < 2 ^ 64"
  shows "forward r r'"
  using raft_becomeCandidate_fields(5) [OF assms] by (auto simp: forward_def word_le_nat_alt)

lemma forward_handlers:
  "raft_handleAppend r m = Inr r' \<Longrightarrow> forward r r'"
  "raft_handleSnapshot r m = Inr r' \<Longrightarrow> forward r r'"
  "raft_handleHeartbeat r m = Inr r' \<Longrightarrow> forward r r'"
  using raft_handleAppend_log raft_handleSnapshot_log raft_handleHeartbeat_log forward_same by blast+

lemma forward_elapsed: "forward (r\<lparr>r_electionElapsed := x\<rparr>) r' \<longleftrightarrow> forward r r'"
  "forward (r\<lparr>r_electionElapsed := x, r_leader := l\<rparr>) r' \<longleftrightarrow> forward r r'"
  by (simp_all add: forward_def)

lemma forward_advanceFollower:
  assumes "raft_advanceFollower r m = Inr r'"
  shows "forward r r'"
proof (cases "msg_Type m")
  case MsgApp
  then show ?thesis using assms forward_handlers(1) forward_elapsed by (fastforce simp: raft_advanceFollower_def)
next
  case MsgSnap
  then show ?thesis using assms forward_handlers(2) forward_elapsed by (fastforce simp: raft_advanceFollower_def)
next
  case MsgHeartbeat
  then show ?thesis using assms forward_handlers(3) forward_elapsed by (fastforce simp: raft_advanceFollower_def)
qed (use assms in \<open>auto simp: raft_advanceFollower_def forward_def split: if_splits\<close>)

lemma forward_advanceCandidate:
  assumes "raft_advanceCandidate sz r m = Inr r'" "unat (r_Term r) + 1 < 2 ^ 64"
  shows "forward r r'"
proof (cases "msg_Type m")
  case MsgApp
  then show ?thesis using assms(1) forward_handlers(1) forward_becomeFollower forward_trans
    by (fastforce simp: raft_advanceCandidate_def)
next
  case MsgSnap
  then show ?thesis using assms(1) forward_handlers(2) forward_becomeFollower forward_trans
    by (fastforce simp: raft_advanceCandidate_def)
next
  case MsgHeartbeat
  then show ?thesis using assms(1) forward_handlers(3) forward_becomeFollower forward_trans
    by (fastforce simp: raft_advanceCandidate_def)
next
  case MsgVote
  obtain cnt r1 where p: "raft_poll r (msg_From m) False = (cnt, r1)" by fastforce
  then show ?thesis
    using assms(1) MsgVote raft_poll_same(3) [OF p] by (auto simp: raft_advanceCandidate_def forward_def same_node_def)
next
  case MsgVoteResp
  obtain gr r1 where p: "raft_poll r (msg_From m) (\<not> msg_Reject m) = (gr, r1)" by fastforce
  have f1: "forward r r1" and t1: "unat (r_Term r1) + 1 < 2 ^ 64"
    using raft_poll_same(3) [OF p] forward_same assms(2) by (auto simp: same_node_def)
  show ?thesis
  proof (cases "raft_q r1 = gr")
    case True
    then obtain r2 where r2: "raft_becomeLeader r1 = Inr r2" "raft_bcastAppend sz r2 = Inr r'"
      using assms(1) MsgVoteResp p by (auto simp: raft_advanceCandidate_def)
    show ?thesis
      using f1 forward_becomeLeader [OF r2(1) t1] raft_bcastAppend_same [OF r2(2)] forward_same forward_trans by blast
  next
    case False
    then have "raft_becomeFollower r1 (r_Term r1) NoneId = Inr r' \<or> r' = r1"
      using assms(1) MsgVoteResp p by (auto simp: raft_advanceCandidate_def split: if_splits)
    then show ?thesis using f1 forward_becomeFollower forward_trans by blast
  qed
qed (use assms(1) in \<open>auto simp: raft_advanceCandidate_def\<close>)

lemma forward_advance:
  assumes "raft_advance sz r m = Inr r'" "r_advance r = AdvanceCandidate \<Longrightarrow> unat (r_Term r) + 1 < 2 ^ 64"
  shows "forward r r'"
proof (cases "r_advance r")
  case AdvanceLeader
  then have "raft_advanceLeader sz r m = Inr r'" using assms(1) by (simp add: raft_advance_def)
  then show ?thesis
    using raft_advanceLeader_log raft_leader_Prop_log forward_same by (cases "msg_Type m = MsgProp") blast+
next
  case AdvanceCandidate
  then show ?thesis using assms forward_advanceCandidate by (simp add: raft_advance_def)
next
  case AdvanceFollower
  then show ?thesis using assms(1) forward_advanceFollower by (simp add: raft_advance_def)
qed (use assms(1) in \<open>simp add: raft_advance_def\<close>)

lemma forward_onMsg:
  assumes "raft_onMsg sz r m = Inr r'" "unat (r_Term r) + 1 < 2 ^ 64"
  shows "forward r r'"
proof (cases "r_Term r > msg_Term m")
  case True
  then show ?thesis using assms(1) by (simp add: raft_onMsg_def)
next
  case False
  then obtain r1 r2 where r1:
    "(if r_Term r < msg_Term m then raft_becomeFollower r (msg_Term m)
        (if oneOf (msg_Type m) noLeadTypeSet then NoneId else msg_From m) else Inr r) = Inr r1" and
    r2: "raft_advance sz r1 m = Inr r2" and r': "forward r2 r'"
    using assms(1) by (auto simp: raft_onMsg_def forward_def)
  have f1: "forward r r1" using r1 forward_becomeFollower by (auto split: if_splits)
  have "unat (r_Term r1) + 1 < 2 ^ 64" if c: "r_advance r1 = AdvanceCandidate"
  proof (cases "r_Term r < msg_Term m")
    case True
    then show ?thesis using r1 c raft_becomeFollower_fields(2,7) [of r] by (auto simp: role_ok_def)
  next
    case False
    then show ?thesis using r1 assms(2) by simp
  qed
  then show ?thesis using f1 forward_advance [OF r2] r' forward_trans by blast
qed

lemma forward_tick:
  assumes "raft_tick r rnd = Inr r'" "unat (r_Term r) + 2 < 2 ^ 64"
  shows "forward r r'"
proof (cases "r_tick r")
  case TickHeartbeat
  then have "r' = raft_tickHeartbeat r" using assms(1) by (simp add: raft_tick_def)
  moreover have "same_node r (raft_tickHeartbeat r)"
    using raft_broadcast_same by (auto simp: raft_tickHeartbeat_def Let_def same_node_def)
  ultimately show ?thesis using forward_same by blast
next
  case TickElection
  define r1 where "r1 = r\<lparr>r_electionElapsed := wrap_int64 (r_electionElapsed r + 1)\<rparr>"
  have f1: "forward r r1" by (simp add: r1_def forward_def)
  have "raft_campaign r1 = Inr r' \<or> r' = r1"
    using TickElection assms(1) by (auto simp: raft_tick_def raft_tickElection_def Let_def r1_def split: if_splits)
  moreover have "forward r1 r'" if "raft_campaign r1 = Inr r'"
  proof -
    from that obtain c cnt r2 r3 m where
      c: "raft_becomeCandidate r1 = Inr c" and p: "raft_poll c (r_id c) True = (cnt, r2)" and
      r3: "(if raft_q c \<le> cnt then raft_becomeLeader r2 else Inr r2) = Inr r3" and r': "r' = raft_broadcast r3 m"
      by (cases "raft_becomeCandidate r1"; auto simp: raft_campaign_def Let_def split: prod.splits)
    have t1: "unat (r_Term r1) + 1 < 2 ^ 64" using assms(2) by (simp add: r1_def)
    have t2: "unat (r_Term r2) + 1 < 2 ^ 64"
      using raft_becomeCandidate_fields(5) [OF c t1] raft_poll_same(3) [OF p] assms(2) by (simp add: same_node_def r1_def)
    have "forward r2 r3" using r3 forward_becomeLeader [OF _ t2] by (auto split: if_splits)
    then show ?thesis
      using forward_becomeCandidate [OF c t1] forward_same [OF raft_poll_same(3) [OF p]]
        forward_same [OF raft_broadcast_same(3)] r' forward_trans by blast
  qed
  ultimately show ?thesis using f1 forward_trans by blast
qed (use assms(1) in \<open>simp add: raft_tick_def\<close>)

lemma mainLoop_step_forward:
  assumes "mainLoop_step sz lp ev = Inr (Running lp')" "unat (r_Term (lp_raft lp)) + 2 < 2 ^ 64"
  shows "forward (lp_raft lp) (lp_raft lp')"
proof (cases ev)
  case (EvTick rnd)
  then show ?thesis using assms forward_tick by (auto simp: mainLoop_step_def)
next
  case EvCommitted
  then show ?thesis using assms(1) by (auto simp: mainLoop_step_def dest: raft_onCommitted_raft)
next
  case (EvApply to)
  then show ?thesis using assms(1) by (auto simp: mainLoop_step_def forward_def)
next
  case (EvConf cc)
  have "forward r r1" if "raft_addNode r k = Inr r1" for r k r1
    using that by (auto simp: raft_addNode_def forward_def split: option.splits)
  then show ?thesis using EvConf assms(1)
    by (cases "cc_Type cc") (auto simp: mainLoop_step_def raft_onConf_def Let_def forward_def split: if_splits)
next
  case (EvProp unit)
  define r1 where "r1 = (if pu_Type unit = EntryConfChange then (lp_raft lp)\<lparr>r_pendingConf := True\<rparr> else lp_raft lp)"
  have f1: "forward (lp_raft lp) r1" "unat (r_Term r1) + 1 < 2 ^ 64" using assms(2) by (simp_all add: r1_def forward_def)
  have "forward r1 (lp_raft lp') \<or> lp_raft lp' = lp_raft lp"
    using EvProp assms(1) forward_advance f1(2)
    by (auto simp: mainLoop_step_def raft_onProp_def Let_def r1_def split: if_splits)
  then show ?thesis using f1(1) forward_trans by auto
next
  case (EvMsg m)
  then show ?thesis using assms forward_onMsg by (auto simp: mainLoop_step_def)
qed (use assms(1) in \<open>simp add: mainLoop_step_def\<close>)

end
