(* ===== verification/GroupProps.thy ===== *)
theory GroupProps
  imports RaftStable
begin

text \<open>
  The properties of a group of raft instances, each with a witness on the three-member group of
  \<open>RaftStart\<close>.
\<close>

section \<open>Two states of the three-member group\<close>

lemma trio_elected:
  "\<exists>C. group_run trio_size [1, 2, 3] trio_elect trio = Some C \<and> r_state (lp_raft (C 1)) = StateLeader \<and>
     r_Term (lp_raft (C 1)) = 3"
proof -
  have "(case group_run trio_size [1, 2, 3] trio_elect trio of None \<Rightarrow> False | Some C \<Rightarrow>
      r_state (lp_raft (C 1)) = StateLeader \<and> r_Term (lp_raft (C 1)) = 3)"
    by code_simp
  then show ?thesis by (auto split: option.splits)
qed

lemma trio_appended:
  "\<exists>C. group_run trio_size [1, 2, 3] trio_append trio = Some C \<and>
     length (r_outc (lp_raft (C 1))) = 6 \<and> r_outc (lp_raft (C 2)) \<noteq> [] \<and>
     msg_Type (r_outc (lp_raft (C 1)) ! 2) = MsgApp \<and> msg_Type (r_outc (lp_raft (C 1)) ! 5) = MsgApp \<and>
     msg_Term (r_outc (lp_raft (C 1)) ! 2) = 3 \<and> msg_Term (r_outc (lp_raft (C 1)) ! 5) = 3 \<and>
     msg_Type (hd (r_outc (lp_raft (C 2)))) = MsgVoteResp \<and> \<not> msg_Reject (hd (r_outc (lp_raft (C 2)))) \<and>
     msg_To (hd (r_outc (lp_raft (C 2)))) = 1 \<and>
     r_state (lp_raft (C 1)) = StateLeader \<and> r_Term (lp_raft (C 1)) = 3 \<and>
     (let e = last (u_ents (rl_unstable (r_logs (lp_raft (C 1))))); e' = last (u_ents (rl_unstable (r_logs (lp_raft (C 2))))) in
      u_ents (rl_unstable (r_logs (lp_raft (C 1)))) \<noteq> [] \<and> u_ents (rl_unstable (r_logs (lp_raft (C 2)))) \<noteq> [] \<and>
      ent_Index e = 4 \<and> ent_Index e' = 4 \<and> ent_Term e = 3 \<and> ent_Term e' = 3) \<and>
     term_room (C 1) \<and> list_all (\<lambda>n. log_room (C n)) [1, 2, 3]"
proof -
  have "(case group_run trio_size [1, 2, 3] trio_append trio of None \<Rightarrow> False | Some C \<Rightarrow>
     length (r_outc (lp_raft (C 1))) = 6 \<and> r_outc (lp_raft (C 2)) \<noteq> [] \<and>
     msg_Type (r_outc (lp_raft (C 1)) ! 2) = MsgApp \<and> msg_Type (r_outc (lp_raft (C 1)) ! 5) = MsgApp \<and>
     msg_Term (r_outc (lp_raft (C 1)) ! 2) = 3 \<and> msg_Term (r_outc (lp_raft (C 1)) ! 5) = 3 \<and>
     msg_Type (hd (r_outc (lp_raft (C 2)))) = MsgVoteResp \<and> \<not> msg_Reject (hd (r_outc (lp_raft (C 2)))) \<and>
     msg_To (hd (r_outc (lp_raft (C 2)))) = 1 \<and>
     r_state (lp_raft (C 1)) = StateLeader \<and> r_Term (lp_raft (C 1)) = 3 \<and>
     (let e = last (u_ents (rl_unstable (r_logs (lp_raft (C 1))))); e' = last (u_ents (rl_unstable (r_logs (lp_raft (C 2))))) in
      u_ents (rl_unstable (r_logs (lp_raft (C 1)))) \<noteq> [] \<and> u_ents (rl_unstable (r_logs (lp_raft (C 2)))) \<noteq> [] \<and>
      ent_Index e = 4 \<and> ent_Index e' = 4 \<and> ent_Term e = 3 \<and> ent_Term e' = 3) \<and>
     term_room (C 1) \<and> list_all (\<lambda>n. log_room (C n)) [1, 2, 3])"
    by code_simp
  then show ?thesis by (simp split: option.splits)
qed

text \<open>A step of the group is an event of one member that is fit for it.\<close>

lemma group_step_event:
  assumes "group_inv N A C" "group_step sz N C C'"
  shows "\<exists>k lp ev. C' = C(k := lp) \<and> k \<in> N \<and> mainLoop_step sz (C k) ev = Inr (Running lp) \<and>
    event_ok (lp_raft (C k)) ev \<and> unat (r_Term (lp_raft (C k))) + 2 < 2 ^ 64 \<and>
    (\<forall>m. ev = EvMsg m \<longrightarrow> msg_Type m \<noteq> MsgSnap)"
proof -
  have st: "cluster_step sz N C C'" and room: "\<forall>n \<in> N. log_room (C n)" using assms(2) by (simp_all add: group_step_def)
  from st show ?thesis
  proof cases
    case (local_ev n ev lp)
    have "event_ok (lp_raft (C n)) ev"
      using local_ev(2,3) room log_room_last [OF group_invD(3) [OF assms(1) local_ev(2)]]
      by (cases ev) (auto simp: event_ok_def)
    then show ?thesis
      using local_ev by (intro exI [of _ n] exI [of _ lp] exI [of _ ev]) (auto simp: term_room_unat)
  next
    case (deliver n m lp)
    have "event_ok (lp_raft (C n)) (EvMsg m)" "msg_Type m \<noteq> MsgSnap"
      using group_msg_ok [OF assms(1) deliver(2,3)] by (simp_all add: event_ok_def pay_ok_def)
    then show ?thesis
      using deliver by (intro exI [of _ n] exI [of _ lp] exI [of _ "EvMsg m"]) (auto simp: term_room_unat)
  qed
qed

lemma trio_cluster_init: "cluster_init (set [1, 2, 3]) trio"
  using trio_init by (simp add: group_init_def)

lemma trio_run:
  assumes "group_run trio_size [1, 2, 3] acts trio = Some C"
  shows "(group_step trio_size (set [1, 2, 3]))\<^sup>*\<^sup>* trio C" "(cluster_step trio_size (set [1, 2, 3]))\<^sup>*\<^sup>* trio C"
  using group_run_steps [OF assms] group_steps_cluster by auto

section \<open>Elections\<close>

text \<open>C1: Election safety. In every state that a group of members can reach, by any interleaving
  of their main loops and any loss, delay, duplication or reordering of their messages, at most
  one member is leader of a term.\<close>

theorem election_safety:
  assumes "cluster_init N C0" "(cluster_step sz N)\<^sup>*\<^sup>* C0 C"
  shows "card {n \<in> N. r_state (lp_raft (C n)) = StateLeader \<and> r_Term (lp_raft (C n)) = t} \<le> 1"
proof -
  let ?S = "{n \<in> N. r_state (lp_raft (C n)) = StateLeader \<and> r_Term (lp_raft (C n)) = t}"
  have "n = m" if "n \<in> ?S" "m \<in> ?S" for n m
    using cluster_leader_unique [OF assms, of n m] that by simp
  then have "?S = {} \<or> (\<exists>n. ?S = {n})" by blast
  then show ?thesis by (elim disjE exE) (simp_all only: card.empty card.insert, simp_all)
qed

theorem election_safety_witness:
  "\<exists>C. (cluster_step trio_size (set [1, 2, 3]))\<^sup>*\<^sup>* trio C \<and> r_state (lp_raft (C 1)) = StateLeader \<and>
     card {n \<in> set [1, 2, 3]. r_state (lp_raft (C n)) = StateLeader \<and> r_Term (lp_raft (C n)) = 3} \<le> 1"
proof -
  obtain C where C: "group_run trio_size [1, 2, 3] trio_elect trio = Some C" "r_state (lp_raft (C 1)) = StateLeader"
    using trio_elected by blast
  show ?thesis using election_safety [OF trio_cluster_init trio_run(2) [OF C(1)]] trio_run(2) [OF C(1)] C(2) by blast
qed

text \<open>The leader of a term is the same over the whole history: any two messages of the kinds
  only a leader sends (\<open>MsgApp\<close>, \<open>MsgSnap\<close>, \<open>MsgHeartbeat\<close>) that carry the same term come from the
  same member.\<close>

theorem leader_messages_unique:
  assumes "cluster_init N C0" "(cluster_step sz N)\<^sup>*\<^sup>* C0 C" "m \<in> cluster_net N C" "m' \<in> cluster_net N C"
    "leader_type (msg_Type m)" "leader_type (msg_Type m')" "msg_Term m = msg_Term m'"
  shows "msg_From m = msg_From m'"
proof -
  obtain A where A: "cluster_rel N A C" "election_inv N A"
    using cluster_reachable_inv [OF assms(1,2)] by blast
  show ?thesis
    using led_unique [OF A(2)] cluster_msg_led [OF A(1) assms(3,5)] cluster_msg_led [OF A(1) assms(4,6)] assms(7) by auto
qed

theorem leader_messages_unique_witness:
  "\<exists>C. (cluster_step trio_size (set [1, 2, 3]))\<^sup>*\<^sup>* trio C \<and>
     msg_From (r_outc (lp_raft (C 1)) ! 2) = msg_From (r_outc (lp_raft (C 1)) ! 5)"
proof -
  obtain C where C: "group_run trio_size [1, 2, 3] trio_append trio = Some C" "length (r_outc (lp_raft (C 1))) = 6"
    "msg_Type (r_outc (lp_raft (C 1)) ! 2) = MsgApp" "msg_Type (r_outc (lp_raft (C 1)) ! 5) = MsgApp"
    "msg_Term (r_outc (lp_raft (C 1)) ! 2) = 3" "msg_Term (r_outc (lp_raft (C 1)) ! 5) = 3"
    using trio_appended by blast
  have "r_outc (lp_raft (C 1)) ! i \<in> cluster_net (set [1, 2, 3]) C" if "i < 6" for i
    using that C(2) nth_mem [of i "r_outc (lp_raft (C 1))"] by (auto simp: cluster_net_def)
  then show ?thesis
    using leader_messages_unique [OF trio_cluster_init trio_run(2) [OF C(1)]] trio_run(2) [OF C(1)] C(3-6)
    by (intro exI [of _ C]) (simp add: leader_type_def)
qed

text \<open>C8: A member votes at most once per term: two votes it granted in the same term went to the
  same candidate.\<close>

theorem votes_unique:
  assumes "cluster_init N C0" "(cluster_step sz N)\<^sup>*\<^sup>* C0 C" "m \<in> cluster_net N C" "m' \<in> cluster_net N C"
    "msg_Type m = MsgVoteResp" "msg_Type m' = MsgVoteResp" "\<not> msg_Reject m" "\<not> msg_Reject m'"
    "msg_From m = msg_From m'" "msg_Term m = msg_Term m'"
  shows "msg_To m = msg_To m'"
proof -
  obtain A where A: "cluster_rel N A C" "election_inv N A" and N: "NoneId \<notin> N"
    using cluster_reachable_inv [OF assms(1,2)] assms(1) by (auto simp: cluster_init_def)
  have G: "Granted (unat (msg_Term m)) (msg_To m) \<in> e_sent (A (msg_From m))" "msg_From m \<in> N"
    "Granted (unat (msg_Term m)) (msg_To m') \<in> e_sent (A (msg_From m))"
    using cluster_net_incoming [OF A(1) assms(3) N] cluster_net_incoming [OF A(1) assms(4) N] assms(5-10)
    by (simp_all add: incoming_ok_def)
  then show ?thesis using A(2) unfolding election_inv_def promises_ok_def by blast
qed

theorem votes_unique_witness:
  "\<exists>C. (cluster_step trio_size (set [1, 2, 3]))\<^sup>*\<^sup>* trio C \<and> msg_Type (hd (r_outc (lp_raft (C 2)))) = MsgVoteResp \<and>
     msg_To (hd (r_outc (lp_raft (C 2)))) = msg_To (hd (r_outc (lp_raft (C 2))))"
proof -
  obtain C where C: "group_run trio_size [1, 2, 3] trio_append trio = Some C" "r_outc (lp_raft (C 2)) \<noteq> []"
    "msg_Type (hd (r_outc (lp_raft (C 2)))) = MsgVoteResp" "\<not> msg_Reject (hd (r_outc (lp_raft (C 2))))"
    using trio_appended by blast
  have "hd (r_outc (lp_raft (C 2))) \<in> cluster_net (set [1, 2, 3]) C"
    using C(2) by (auto simp: cluster_net_def)
  from votes_unique [OF trio_cluster_init trio_run(2) [OF C(1)] this this C(3,3,4,4)]
  show ?thesis using trio_run(2) [OF C(1)] C(3) by blast
qed

text \<open>A run of the group, its states numbered, has a run of the abstract protocol at its side.\<close>

lemma cluster_run_sim:
  assumes "cluster_rel N A (Cs 0)" "NoneId \<notin> N" "\<forall>i < k. cluster_step sz N (Cs i) (Cs (Suc i))"
  shows "\<exists>As. As 0 = A \<and> (\<forall>i < k. (estep N)\<^sup>*\<^sup>* (As i) (As (Suc i))) \<and> (\<forall>i \<le> k. cluster_rel N (As i) (Cs i))"
  using assms(3)
proof (induction k)
  case 0
  then show ?case using assms(1) by (intro exI [of _ "\<lambda>_. A"]) simp
next
  case (Suc k)
  then obtain As where As: "As 0 = A" "\<forall>i < k. (estep N)\<^sup>*\<^sup>* (As i) (As (Suc i))" "\<forall>i \<le> k. cluster_rel N (As i) (Cs i)"
    by auto
  obtain A' where A': "(estep N)\<^sup>*\<^sup>* (As k) A'" "cluster_rel N A' (Cs (Suc k))"
    using cluster_step_sim [of sz N "Cs k" "Cs (Suc k)" "As k"] As(3) Suc.prems assms(2) by auto
  then show ?case using As by (intro exI [of _ "As(Suc k := A')"]) (auto simp: less_Suc_eq le_Suc_eq)
qed

text \<open>C6: The group refines the abstract election protocol. Beside every run of the group, from members that just
  started, goes a run of the protocol: it starts with the terms, votes and roles of the members,
  each step of the group is matched by steps of the protocol, possibly none, and in every state along the way
  the two agree on the term, the vote and the role of every member.\<close>

theorem group_refines_election:
  assumes "cluster_init N (Cs 0)" "\<forall>i < k. cluster_step sz N (Cs i) (Cs (Suc i))"
  shows "\<exists>As. election_init N (As 0) \<and> (\<forall>i < k. (estep N)\<^sup>*\<^sup>* (As i) (As (Suc i))) \<and>
    (\<forall>i \<le> k. \<forall>n \<in> N. e_term (As i n) = unat (r_Term (lp_raft (Cs i n))) \<and>
       e_vote (As i n) = r_Vote (lp_raft (Cs i n)) \<and> e_role (As i n) = r_state (lp_raft (Cs i n)))"
proof -
  let ?A = "\<lambda>n. enode_of (lp_raft (Cs 0 n))"
  have "NoneId \<notin> N" using assms(1) by (simp add: cluster_init_def)
  from cluster_run_sim [of N ?A Cs, OF cluster_init_rel [OF assms(1)] this assms(2)] obtain As where
    As: "As 0 = ?A" "\<forall>i < k. (estep N)\<^sup>*\<^sup>* (As i) (As (Suc i))" "\<forall>i \<le> k. cluster_rel N (As i) (Cs i)" by blast
  then show ?thesis
    using cluster_init_election [OF assms(1)] by (intro exI [of _ As]) (auto simp: cluster_rel_def erel_def)
qed

text \<open>The states of a run that is given by a sequence of actions.\<close>

lemma steps_numbered:
  assumes "R\<^sup>*\<^sup>* x y"
  shows "\<exists>f k. f 0 = x \<and> f k = y \<and> (\<forall>i < (k :: nat). R (f i) (f (Suc i)))"
  using assms
proof (induction rule: rtranclp_induct)
  case base
  show ?case by (intro exI [of _ "\<lambda>_. x"] exI [of _ 0]) simp
next
  case (step y z)
  then obtain f k where "f 0 = x" "f k = y" "\<forall>i < (k :: nat). R (f i) (f (Suc i))" by blast
  then show ?case using step(2) by (intro exI [of _ "f(Suc k := z)"] exI [of _ "Suc k"]) (auto simp: less_Suc_eq)
qed

theorem group_refines_election_witness:
  "\<exists>Cs As k. Cs 0 = trio \<and> (\<forall>i < k. cluster_step trio_size (set [1, 2, 3]) (Cs i) (Cs (Suc i))) \<and>
     (\<forall>i < k. (estep (set [1, 2, 3]))\<^sup>*\<^sup>* (As i) (As (Suc i))) \<and>
     e_role (As 0 1) = r_state (lp_raft (trio 1)) \<and> e_role (As k 1) = StateLeader \<and> e_term (As (k :: nat) 1) = 3"
proof -
  obtain C where C: "group_run trio_size [1, 2, 3] trio_elect trio = Some C" "r_state (lp_raft (C 1)) = StateLeader"
    "r_Term (lp_raft (C 1)) = 3"
    using trio_elected by blast
  obtain Cs k where Cs: "Cs 0 = trio" "Cs k = C" "\<forall>i < (k :: nat). cluster_step trio_size (set [1, 2, 3]) (Cs i) (Cs (Suc i))"
    using steps_numbered [OF trio_run(2) [OF C(1)]] by blast
  obtain As where As: "\<forall>i < k. (estep (set [1, 2, 3]))\<^sup>*\<^sup>* (As i) (As (Suc i))"
    "\<forall>i \<le> k. \<forall>n \<in> set [1, 2, 3]. e_term (As i n) = unat (r_Term (lp_raft (Cs i n))) \<and>
       e_vote (As i n) = r_Vote (lp_raft (Cs i n)) \<and> e_role (As i n) = r_state (lp_raft (Cs i n))"
    using group_refines_election [of "set [1, 2, 3]" Cs k trio_size] trio_cluster_init Cs by auto
  have "e_role (As k 1) = StateLeader" "e_term (As k 1) = 3" using As(2) [rule_format, of k 1] C(2,3) Cs(2) by simp_all
  moreover have "e_role (As 0 1) = r_state (lp_raft (trio 1))" using As(2) [rule_format, of 0 1] Cs(1) by simp
  ultimately show ?thesis using Cs(1,3) As(1) by (intro exI [of _ Cs] exI [of _ As] exI [of _ k]) simp
qed

section \<open>Replication\<close>

text \<open>C2: No member ever panics. In every state that freshly started members reach, whatever the
  next local event of a member or the next message delivered to it, the iteration of its main
  loop runs to the end: no index out of range, nil dereference, division by zero or explicit panic.\<close>

theorem group_never_panics:
  assumes "group_init N C0" "(group_step sz N)\<^sup>*\<^sup>* C0 C" "n \<in> N" "log_room (C n)"
    "local_event N ev \<or> (\<exists>m \<in> cluster_net N C. msg_To m = n \<and> ev = EvMsg m)"
  shows "\<exists>res. mainLoop_step sz (C n) ev = Inr res"
proof -
  obtain A where A: "group_inv N A C" using group_reachable_inv [OF assms(1,2)] by blast
  note D = group_invD [OF A assms(3)]
  have "event_ok (lp_raft (C n)) ev"
    using assms(5) log_room_last [OF D(3)] assms(4) group_msg_ok(1) [OF A assms(3)]
    by (cases ev) (auto simp: event_ok_def)
  then show ?thesis using mainLoop_step_total [OF D(3)] by blast
qed

theorem group_never_panics_witness:
  "\<exists>C res. (group_step trio_size (set [1, 2, 3]))\<^sup>*\<^sup>* trio C \<and> r_state (lp_raft (C 1)) = StateLeader \<and>
     mainLoop_step trio_size (C 1) (EvTick 0) = Inr res"
proof -
  obtain C where C: "group_run trio_size [1, 2, 3] trio_append trio = Some C" "r_state (lp_raft (C 1)) = StateLeader"
    "list_all (\<lambda>n. log_room (C n)) [1, 2, 3]"
    using trio_appended by blast
  have "\<exists>res. mainLoop_step trio_size (C 1) (EvTick 0) = Inr res"
    using group_never_panics [OF trio_init trio_run(1) [OF C(1)], of 1 "EvTick 0"] C(3) by simp
  then show ?thesis using trio_run(1) [OF C(1)] C(2) by blast
qed

text \<open>C5: Two entries with the same index and term, in the logs of any members or in any message on
  the network, are the same entry: same kind and same data.\<close>

theorem entries_identified:
  assumes "group_init N C0" "(group_step sz N)\<^sup>*\<^sup>* C0 C" "e \<in> all_entries N C" "e' \<in> all_entries N C"
    "ent_Index e = ent_Index e'" "ent_Term e = ent_Term e'"
  shows "e = e'"
  using group_reachable_inv [OF assms(1,2)] assms(3-6) unfolding group_inv_def entries_ok_def by blast

theorem entries_identified_witness:
  "\<exists>C. (group_step trio_size (set [1, 2, 3]))\<^sup>*\<^sup>* trio C \<and> r_state (lp_raft (C 1)) = StateLeader \<and>
     ent_Term (last (u_ents (rl_unstable (r_logs (lp_raft (C 2)))))) = 3 \<and>
     last (u_ents (rl_unstable (r_logs (lp_raft (C 1))))) = last (u_ents (rl_unstable (r_logs (lp_raft (C 2)))))"
proof -
  obtain C where C: "group_run trio_size [1, 2, 3] trio_append trio = Some C" "r_state (lp_raft (C 1)) = StateLeader" and
    e: "let e = last (u_ents (rl_unstable (r_logs (lp_raft (C 1))))); e' = last (u_ents (rl_unstable (r_logs (lp_raft (C 2))))) in
      u_ents (rl_unstable (r_logs (lp_raft (C 1)))) \<noteq> [] \<and> u_ents (rl_unstable (r_logs (lp_raft (C 2)))) \<noteq> [] \<and>
      ent_Index e = 4 \<and> ent_Index e' = 4 \<and> ent_Term e = 3 \<and> ent_Term e' = 3"
    using trio_appended by blast
  have in_all: "last (u_ents (rl_unstable (r_logs (lp_raft (C n))))) \<in> all_entries (set [1, 2, 3]) C"
    if "n \<in> set [1, 2, 3]" "u_ents (rl_unstable (r_logs (lp_raft (C n)))) \<noteq> []" for n
    using that unfolding all_entries_def rl_entries_def by (intro UnI1 UN_I [of n] UnI2) simp_all
  show ?thesis
    using entries_identified [OF trio_init trio_run(1) [OF C(1)] in_all in_all, of 1 2] trio_run(1) [OF C(1)] C(2) e
    by (intro exI [of _ C]) (simp add: Let_def)
qed

text \<open>C4: Leader append-only. As long as a member leads the same term, no step of the group removes
  or changes an entry of its log: the log it had is a prefix of the log it has.\<close>

theorem leader_append_only:
  assumes "group_init N C0" "(group_step sz N)\<^sup>*\<^sup>* C0 C" "group_step sz N C C'" "n \<in> N"
    "r_state (lp_raft (C' n)) = StateLeader" "r_Term (lp_raft (C' n)) = r_Term (lp_raft (C n))"
  shows "prefix (rl_view (r_logs (lp_raft (C n)))) (rl_view (r_logs (lp_raft (C' n))))"
proof -
  obtain A where A: "group_inv N A C" using group_reachable_inv [OF assms(1,2)] by blast
  have st: "cluster_step sz N C C'" using assms(3) by (simp add: group_step_def)
  from group_step_event [OF A assms(3)] obtain k lp ev where
    C': "C' = C(k := lp)" "k \<in> N" and ev: "mainLoop_step sz (C k) ev = Inr (Running lp)"
      "event_ok (lp_raft (C k)) ev" "unat (r_Term (lp_raft (C k))) + 2 < 2 ^ 64" by blast
  show ?thesis
  proof (cases "k = n")
    case True
    then have "still_leader (lp_raft (C n)) (lp_raft lp) \<or> r_Term (lp_raft (C n)) < r_Term (lp_raft lp)"
      using leader_step [OF ev(1) _ _ ev(2,3)] group_invD [OF A assms(4)] assms(4,5) C'(1) by simp
    then show ?thesis using assms(6) C'(1) True by (simp add: still_leader_def)
  qed (use C'(1) in simp)
qed

theorem leader_append_only_witness:
  "\<exists>C C'. (group_step trio_size (set [1, 2, 3]))\<^sup>*\<^sup>* trio C \<and> group_step trio_size (set [1, 2, 3]) C C' \<and>
     r_state (lp_raft (C 1)) = StateLeader \<and> length (rl_view (r_logs (lp_raft (C 1)))) < length (rl_view (r_logs (lp_raft (C' 1)))) \<and>
     prefix (rl_view (r_logs (lp_raft (C 1)))) (rl_view (r_logs (lp_raft (C' 1))))"
proof -
  let ?a = "Local 1 (EvProp \<lparr>pu_Type = EntryNormal, pu_Data = [7]\<rparr>)"
  have "(case group_run trio_size [1, 2, 3] trio_elect trio of None \<Rightarrow> False | Some C \<Rightarrow>
      (case group_do trio_size [1, 2, 3] ?a C of None \<Rightarrow> False | Some C' \<Rightarrow>
        r_state (lp_raft (C 1)) = StateLeader \<and> r_state (lp_raft (C' 1)) = StateLeader \<and>
        r_Term (lp_raft (C' 1)) = r_Term (lp_raft (C 1)) \<and>
        length (rl_view (r_logs (lp_raft (C 1)))) < length (rl_view (r_logs (lp_raft (C' 1))))))"
    by code_simp
  then obtain C C' where C: "group_run trio_size [1, 2, 3] trio_elect trio = Some C"
    "group_do trio_size [1, 2, 3] ?a C = Some C'" "r_state (lp_raft (C 1)) = StateLeader"
    "r_state (lp_raft (C' 1)) = StateLeader" "r_Term (lp_raft (C' 1)) = r_Term (lp_raft (C 1))"
    "length (rl_view (r_logs (lp_raft (C 1)))) < length (rl_view (r_logs (lp_raft (C' 1))))"
    by (auto split: option.splits)
  from leader_append_only [OF trio_init trio_run(1) [OF C(1)] group_do_step [OF C(2)] _ C(4,5)]
  show ?thesis using trio_run(1) [OF C(1)] group_do_step [OF C(2)] C(3,6)
    by (intro exI [of _ C] exI [of _ C']) simp
qed

text \<open>C3: What is committed stays. A step of the group never lowers a member's \<open>committed\<close> index, and
  the member's log below that index is unchanged by it.\<close>

theorem committed_stable:
  assumes "group_init N C0" "(group_step sz N)\<^sup>*\<^sup>* C0 C" "group_step sz N C C'" "n \<in> N"
  shows "rl_committed (r_logs (lp_raft (C n))) \<le> rl_committed (r_logs (lp_raft (C' n))) \<and>
    take (unat (rl_committed (r_logs (lp_raft (C n))))) (rl_view (r_logs (lp_raft (C' n)))) =
    take (unat (rl_committed (r_logs (lp_raft (C n))))) (rl_view (r_logs (lp_raft (C n))))"
proof -
  obtain A where A: "group_inv N A C" using group_reachable_inv [OF assms(1,2)] by blast
  from group_step_event [OF A assms(3)] obtain k lp ev where
    C': "C' = C(k := lp)" "k \<in> N" and ev: "mainLoop_step sz (C k) ev = Inr (Running lp)"
      "event_ok (lp_raft (C k)) ev" "\<forall>m. ev = EvMsg m \<longrightarrow> msg_Type m \<noteq> MsgSnap" by blast
  have "log_stable (r_logs (lp_raft (C n))) (r_logs (lp_raft (C' n)))"
  proof (cases "k = n")
    case True
    then show ?thesis
      using mainLoop_step_stable [OF ev(1) _ ev(2)] ev(3) group_invD [OF A assms(4)] assms(4) C'(1) by simp
  qed (use C'(1) in simp)
  then show ?thesis by (simp add: log_stable_def)
qed

theorem committed_stable_witness:
  "\<exists>C C'. (group_step trio_size (set [1, 2, 3]))\<^sup>*\<^sup>* trio C \<and> group_step trio_size (set [1, 2, 3]) C C' \<and>
     rl_committed (r_logs (lp_raft (C 1))) = 3 \<and> rl_committed (r_logs (lp_raft (C 1))) \<le> rl_committed (r_logs (lp_raft (C' 1))) \<and>
     take 3 (rl_view (r_logs (lp_raft (C' 1)))) = take 3 (rl_view (r_logs (lp_raft (C 1))))"
proof -
  have "(case group_run trio_size [1, 2, 3] (trio_append @ [Deliver 1 2 1]) trio of None \<Rightarrow> False | Some C \<Rightarrow>
      (case group_do trio_size [1, 2, 3] (Local 1 (EvTick 0)) C of None \<Rightarrow> False | Some C' \<Rightarrow>
        rl_committed (r_logs (lp_raft (C 1))) = 3))"
    by code_simp
  then obtain C C' where C: "group_run trio_size [1, 2, 3] (trio_append @ [Deliver 1 2 1]) trio = Some C"
    "group_do trio_size [1, 2, 3] (Local 1 (EvTick 0)) C = Some C'" "rl_committed (r_logs (lp_raft (C 1))) = 3"
    by (auto split: option.splits)
  from committed_stable [OF trio_init trio_run(1) [OF C(1)] group_do_step [OF C(2)], of 1]
  show ?thesis using trio_run(1) [OF C(1)] group_do_step [OF C(2)] C(3)
    by (intro exI [of _ C] exI [of _ C']) simp
qed

section \<open>Starting\<close>

text \<open>C19: \<open>NewRaft\<close> on an empty in-memory storage followed by \<open>Start\<close> with the list of all members
  leaves a group in the initial state the properties above start from, for any membership that
  does not contain 0 and any marshalling of the configuration entries.\<close>

theorem start_initialises_group:
  assumes "\<forall>n \<in> set ps. \<exists>cfg r. cfg_Id cfg = n \<and> cfg_Storage cfg = Some NewInMemStorage \<and>
      cfg_MaxSizePerMsg cfg = noLimit \<and> NewRaft cfg = Inr (Inr r) \<and> raft_Start marshal r ps = Inr (None, lp_raft (C n))"
    "0 \<notin> set ps" "length ps + 1 < 2 ^ 64"
  shows "group_init (set ps) C"
proof (rule started_group_init [OF _ assms(2,3)])
  show "started marshal ps n (lp_raft (C n))" if "n \<in> set ps" for n
    using assms(1) that unfolding started_def by blast
qed

theorem start_initialises_group_witness: "group_init (set [1, 2, 3]) trio"
proof (rule start_initialises_group)
  show "\<forall>n \<in> set [1, 2, 3]. \<exists>cfg r. cfg_Id cfg = n \<and> cfg_Storage cfg = Some NewInMemStorage \<and>
      cfg_MaxSizePerMsg cfg = noLimit \<and> NewRaft cfg = Inr (Inr r) \<and>
      raft_Start trio_marshal r [1, 2, 3] = Inr (None, lp_raft (trio n))"
    using trio_started by (simp add: started_def)
qed simp_all

end
