(* ===== verification/LogProps.thy ===== *)
theory LogProps
  imports RaftStable
begin

text \<open>
  The properties of one raft log, of its storage, and of one instance, each with a witness.
\<close>

section \<open>An example log\<close>

definition ex_entry :: "u64 \<Rightarrow> u64 \<Rightarrow> byte \<Rightarrow> Entry" where
  "ex_entry i t d = \<lparr>ent_Type = EntryNormal, ent_Index = i, ent_Term = t, ent_Data = [d]\<rparr>"

definition ex_log :: raftLog where
  "ex_log = \<lparr>rl_storage = NewInMemStorage,
     rl_unstable = \<lparr>u_snapshot = None, u_ents = [ex_entry 1 1 7, ex_entry 2 1 8], u_offset = 1\<rparr>,
     rl_committed = 0, rl_applied = 0\<rparr>"

lemma ex_log_ok: "raftLog_wf ex_log" "raftLog_synced ex_log"
  "rl_view ex_log = [zero_Entry, ex_entry 1 1 7, ex_entry 2 1 8]" "log_base (rl_view ex_log) = 0" "log_last (rl_view ex_log) = 2"
  by (simp_all add: raftLog_wf_def ex_log_def ex_entry_def storage_inv_def NewInMemStorage_def log_ok_def log_last_def
      raftLog_synced_def rl_view_def zero_Entry_def)

section \<open>The log\<close>

text \<open>The conflict found is a real one, and a term that is not 0 belongs to an entry of the log.\<close>

lemma log_conflict_first:
  assumes "log_conflict L k ents = Some (j, es)"
  shows "k \<le> j \<and> j - k < length ents \<and> es = drop (j - k) ents \<and> log_term L j \<noteq> ent_Term (ents ! (j - k))"
  using assms
proof (induction L k ents rule: log_conflict.induct)
  case (2 L k e es')
  then show ?case by (auto split: if_splits simp: Suc_diff_le nth_Cons' drop_Cons' Suc_le_eq)
qed simp

lemma log_conflict_chain: "log_conflict L k ents = Some (j, es) \<Longrightarrow> chain_from k ents \<Longrightarrow> chain_from j es"
  by (induction L k ents rule: log_conflict.induct) (auto split: if_splits)

lemma log_append_last:
  assumes "log_ok L" "log_base L < k" "k \<le> log_last L + 1" "chain_from k es" "k + length es < 2 ^ 64"
  shows "log_last (log_append L k es) = k + length es - 1"
  using log_ok_append [OF assms] by simp

lemma log_term_in:
  assumes "log_ok L" "log_term L (unat idx) \<noteq> 0"
  shows "\<exists>e \<in> set L. ent_Index e = idx \<and> ent_Term e = log_term L (unat idx)"
proof -
  note L = log_okD [OF assms(1)]
  have i: "log_base L \<le> unat idx" "unat idx \<le> log_last L" using assms(2) by (auto simp: log_term_def split: if_splits)
  then have lt: "unat idx - log_base L < length L" using L(7) by linarith
  have "unat (ent_Index (L ! (unat idx - log_base L))) = unat idx" using chain_from_nth [OF L(2) lt] i(1) by simp
  then show ?thesis using lt i by (intro bexI [of _ "L ! (unat idx - log_base L)"]) (simp_all add: log_term_def u64_eq_iff)
qed

text \<open>C10: \<open>maybeAppend\<close> on a message whose previous entry is in the log never panics. When it accepts, there is a
  number \<open>c\<close> of leading entries of the message whose terms the log has already at their indices. If
  these are all, nothing changes, the committed index included. Otherwise they stay as they are, from the next on the log is cut and
  continued by the message's entries, whole, and the committed index rises to that of the message, at
  most to its last entry. The index it reports is that of the message's last entry. When it refuses,
  which happens only for a conflict below the committed index, nothing has changed.\<close>

theorem maybeAppend_accepts:
  assumes "raftLog_wf rl" "chain_from (unat idx + 1) ents" "unat idx + 1 + length ents < 2 ^ 64"
    "\<forall>e \<in> set ents. ent_Term e \<noteq> 0" "log_base (rl_view rl) \<le> unat idx" "unat idx \<le> log_last (rl_view rl)"
    "log_term (rl_view rl) (unat idx) = tm"
  shows "\<exists>h ok rl' c. raftLog_maybeAppend rl idx tm committed ents = Inr (h, ok, rl') \<and> c \<le> length ents \<and>
    (\<forall>i < c. log_term (rl_view rl) (unat idx + 1 + i) = ent_Term (ents ! i)) \<and>
    (c < length ents \<longrightarrow> log_term (rl_view rl) (unat idx + 1 + c) \<noteq> ent_Term (ents ! c)) \<and>
    (if ok then raftLog_wf rl' \<and> h = idx + ulen ents \<and>
       (if c = length ents then rl' = rl
        else rl_view rl' = take (unat idx + 1 + c - log_base (rl_view rl)) (rl_view rl) @ drop c ents \<and>
          unat (rl_committed rl') = (if rl_committed rl < min h committed then unat (min h committed) else unat (rl_committed rl)))
     else rl' = rl \<and> c < length ents \<and> unat idx + 1 + c < unat (rl_committed rl))"
proof -
  let ?L = "rl_view rl" and ?k = "unat idx + 1"
  obtain r where r: "raftLog_maybeAppend rl idx tm committed ents = Inr r"
    "append_result rl (idx + ulen ents) committed ?k ents r"
    using raftLog_maybeAppend_accept [OF assms(1-4,7)] assms(5,6) by blast
  show ?thesis
  proof (cases "log_conflict ?L ?k ents")
    case None
    then have "r = (idx + ulen ents, True, rl)" using r(2) by (simp add: append_result_def)
    then show ?thesis using r(1) assms(1) log_conflict_None [OF None]
      by (intro exI [of _ "idx + ulen ents"] exI [of _ True] exI [of _ rl] exI [of _ "length ents"]) simp
  next
    case (Some p)
    obtain j es where p: "p = (j, es)" by fastforce
    note C = log_conflict_Some [OF Some [unfolded p]]
    note first = log_conflict_first [OF Some [unfolded p]]
    define c where "c = j - ?k"
    have c: "j = ?k + c" "c < length ents" "es = drop c ents" using first by (auto simp: c_def)
    have before: "\<forall>i < c. log_term ?L (?k + i) = ent_Term (ents ! i)" using C c by auto
    have here: "log_term ?L (?k + c) \<noteq> ent_Term (ents ! c)" using first c by simp
    show ?thesis
    proof (cases "j < unat (rl_committed rl)")
      case True
      then obtain h where "r = (h, False, rl)" using r(2) Some p by (auto simp: append_result_def)
      then show ?thesis using r(1) c before here True
        by (intro exI [of _ h] exI [of _ False] exI [of _ rl] exI [of _ c]) simp
    next
      case False
      then obtain rl' where rl': "r = (idx + ulen ents, True, rl')" "raftLog_wf rl'" "rl_view rl' = log_append ?L j es"
        "unat (rl_committed rl') = (if rl_committed rl < min (idx + ulen ents) committed
           then min (unat (min (idx + ulen ents) committed)) (log_last (rl_view rl')) else unat (rl_committed rl))"
        using r(2) Some p by (auto simp: append_result_def)
      have "log_last (rl_view rl') = unat (idx + ulen ents)"
        using log_append_last [OF rl_view_ok [OF assms(1)], of j es] log_conflict_last [OF Some [unfolded p] _ assms(4)]
          log_conflict_chain [OF Some [unfolded p] assms(2)] rl'(3) c assms(3,5,6) unat_plus_u64 [of idx "ulen ents"] by simp
      then have "min (unat (min (idx + ulen ents) committed)) (log_last (rl_view rl')) = unat (min (idx + ulen ents) committed)"
        by (simp add: min_def word_le_nat_alt)
      with rl' show ?thesis using r(1) c before here
        by (intro exI [of _ "idx + ulen ents"] exI [of _ True] exI [of _ rl'] exI [of _ c]) (simp add: log_append_def)
    qed
  qed
qed

text \<open>The log has indices 1 and 2, both of term 1; the message replaces the second and adds a third.\<close>

theorem maybeAppend_accepts_witness:
  "\<exists>h rl'. raftLog_maybeAppend ex_log 1 1 0 [ex_entry 2 3 9, ex_entry 3 3 5] = Inr (h, True, rl') \<and>
     rl_view rl' = [zero_Entry, ex_entry 1 1 7, ex_entry 2 3 9, ex_entry 3 3 5]"
proof -
  let ?E = "[ex_entry 2 3 9, ex_entry 3 3 5]"
  have "raftLog_wf ex_log" "chain_from (unat (1 :: u64) + 1) ?E" "unat (1 :: u64) + 1 + length ?E < 2 ^ 64"
    "\<forall>e \<in> set ?E. ent_Term e \<noteq> 0" "log_base (rl_view ex_log) \<le> unat (1 :: u64)" "unat (1 :: u64) \<le> log_last (rl_view ex_log)"
    "log_term (rl_view ex_log) (unat (1 :: u64)) = 1"
    using ex_log_ok by (simp_all add: ex_entry_def log_term_def)
  from maybeAppend_accepts [OF this, of 0] obtain h ok rl' c where R: "raftLog_maybeAppend ex_log 1 1 0 ?E = Inr (h, ok, rl')"
    "\<forall>i < c. log_term (rl_view ex_log) (unat (1 :: u64) + 1 + i) = ent_Term (?E ! i)"
    "if ok then raftLog_wf rl' \<and> h = 1 + ulen ?E \<and> (if c = length ?E then rl' = ex_log
        else rl_view rl' = take (unat (1 :: u64) + 1 + c - log_base (rl_view ex_log)) (rl_view ex_log) @ drop c ?E \<and>
          unat (rl_committed rl') = (if rl_committed ex_log < min h 0 then unat (min h 0) else unat (rl_committed ex_log)))
     else rl' = ex_log \<and> c < length ?E \<and> unat (1 :: u64) + 1 + c < unat (rl_committed ex_log)" by blast
  have "log_term (rl_view ex_log) (Suc (Suc 0)) = 1" using ex_log_ok by (simp add: log_term_def ex_entry_def)
  then have "c = 0" using R(2) [rule_format, of 0] by (cases c) (simp_all add: ex_entry_def)
  moreover have ok using R(3) by (simp add: ex_log_def split: if_splits)
  ultimately show ?thesis using R(1,3) ex_log_ok(3,4) by (simp add: eval_nat_numeral)
qed

text \<open>C11: A message whose previous entry is not in the log is rejected and the log stays as it is. The
  index that is returned is 0 when the log has no entries, and else an index of the log: the first
  one whose term is not below the term asked for, or the last one. So every entry below the returned index has a term
  smaller than the one asked for.\<close>

theorem maybeAppend_rejects:
  assumes "raftLog_wf rl" "tm \<noteq> 0" "\<forall>e \<in> set (rl_view rl). ent_Index e = idx \<longrightarrow> ent_Term e \<noteq> tm"
  shows "\<exists>h. raftLog_maybeAppend rl idx tm committed ents = Inr (h, False, rl) \<and>
    (if log_last (rl_view rl) = log_base (rl_view rl) then h = 0
     else log_base (rl_view rl) < unat h \<and> unat h \<le> log_last (rl_view rl) \<and>
       (\<forall>j. log_base (rl_view rl) < j \<and> j < unat h \<longrightarrow> log_term (rl_view rl) j < tm) \<and>
       (tm \<le> log_term (rl_view rl) (unat h) \<or> unat h = log_last (rl_view rl)))"
proof -
  have "log_term (rl_view rl) (unat idx) \<noteq> tm"
    using log_term_in [OF rl_view_ok [OF assms(1)], of idx] assms(2,3) by metis
  then show ?thesis by (rule raftLog_maybeAppend_reject [OF assms(1)])
qed

theorem maybeAppend_rejects_witness:
  "\<exists>h. raftLog_maybeAppend ex_log 5 1 0 [] = Inr (h, False, ex_log) \<and> unat h \<le> 2"
proof -
  have "\<forall>e \<in> set (rl_view ex_log). ent_Index e = 5 \<longrightarrow> ent_Term e \<noteq> 1"
    using ex_log_ok(3) by (simp add: ex_entry_def zero_Entry_def)
  from maybeAppend_rejects [OF ex_log_ok(1) _ this, of 0 "[]"] show ?thesis using ex_log_ok(4,5) by auto
qed

text \<open>The test by terms alone lets a message through whose previous index lies beyond the log, if the
  term it gives is 0.\<close>

lemma maybeAppend_beyond: "\<exists>h. raftLog_maybeAppend ex_log 7 0 0 [] = Inr (h, True, ex_log)"
proof -
  have "raftLog_matchTerm ex_log 7 0 = Inr True"
    using raftLog_matchTerm_view [OF ex_log_ok(1), of 7 0] ex_log_ok(4,5) by (simp add: log_term_def)
  then show ?thesis by (simp add: raftLog_maybeAppend_def)
qed

lemma maybeCommit_stableTo:
  assumes "raftLog_maybeCommit rl to = Inr (True, rl')"
  shows "\<exists>snap es. unstable_stableTo (rl_unstable rl) (rl_committed rl') = Inr (snap, es, rl_unstable rl')"
  using assms unfolding raftLog_maybeCommit_def Let_def
  by (auto split: if_splits option.splits)

lemma stableTo_passes:
  assumes "unstable_stableTo u c = Inr (s, es, u')" "c < c + 1"
  shows "c < u_offset u'"
  using assms by (auto simp: unstable_stableTo_def Let_def split: if_splits option.splits)

text \<open>C12: Committing moves entries to the storage and changes nothing else: \<open>maybeCommit\<close> never panics and
  leaves the log as it was. If its argument is not above the committed index, nothing happens; otherwise the
  committed index becomes the smaller of the argument and the last index, and, unless a snapshot
  with a greater index is waiting to be stored, the storage then holds the log's entries up to the
  committed index, whole.\<close>

theorem maybeCommit_persists:
  assumes "raftLog_wf rl"
    "\<forall>s. u_snapshot (rl_unstable rl) = Some s \<longrightarrow> unat (snap_Index s) \<le> min (unat to) (log_last (rl_view rl))"
  shows "\<exists>b rl'. raftLog_maybeCommit rl to = Inr (b, rl') \<and> raftLog_wf rl' \<and> rl_view rl' = rl_view rl \<and>
    (if rl_committed rl < to then b \<and> unat (rl_committed rl') = min (unat to) (log_last (rl_view rl)) \<and>
        log_base (ms_logs (rl_storage rl')) = log_base (rl_view rl) \<and>
        take (unat (rl_committed rl') + 1 - log_base (rl_view rl)) (ms_logs (rl_storage rl')) =
          take (unat (rl_committed rl') + 1 - log_base (rl_view rl)) (rl_view rl)
     else \<not> b \<and> rl' = rl)"
proof (cases "rl_committed rl < to")
  case False
  then show ?thesis using assms(1) unfolding raftLog_maybeCommit_def by (intro exI [of _ False] exI [of _ rl]) simp
next
  case True
  obtain rl' where rl': "raftLog_maybeCommit rl to = Inr (True, rl')" "raftLog_wf rl'" "rl_view rl' = rl_view rl"
    "unat (rl_committed rl') = min (unat to) (log_last (rl_view rl))"
    using raftLog_maybeCommit_view [OF assms(1), of to] True by auto
  have last: "log_last (rl_view rl) + 1 < 2 ^ 64" using log_okD(6) [OF rl_view_ok [OF assms(1)]] by simp
  have "unat (rl_committed rl') + 1 < 2 ^ 64" using rl'(4) last by linarith
  then have c: "rl_committed rl' < rl_committed rl' + 1" using unat_Suc_u64 by (simp add: word_less_nat_alt)
  obtain snap es u where u: "unstable_stableTo (rl_unstable rl) (rl_committed rl') = Inr (snap, es, u)" "rl_unstable rl' = u"
    using maybeCommit_stableTo [OF rl'(1)] by blast
  have off: "unat (rl_committed rl') < unat (u_offset u)" using stableTo_passes [OF u(1) c] by (simp add: word_less_nat_alt)
  have none: "u_snapshot u = None"
    using u(1) assms(2) rl'(4) by (auto simp: unstable_stableTo_def Let_def word_le_nat_alt split: if_splits option.splits)
  have view: "rl_view rl = take (unat (u_offset u) - log_base (ms_logs (rl_storage rl'))) (ms_logs (rl_storage rl')) @ u_ents u"
    using rl'(3) none u(2) by (simp add: rl_view_def)
  have base: "log_base (ms_logs (rl_storage rl')) = log_base (rl_view rl)"
    using rl_view_None(2) [OF rl'(2)] none u(2) rl'(3) by simp
  have len: "unat (u_offset u) - log_base (rl_view rl) \<le> length (ms_logs (rl_storage rl'))"
    using raftLog_stored_len [OF rl'(2)] none u(2) base by simp
  have "take (unat (rl_committed rl') + 1 - log_base (rl_view rl)) (ms_logs (rl_storage rl')) =
      take (unat (rl_committed rl') + 1 - log_base (rl_view rl)) (rl_view rl)"
    using off len arg_cong [OF view [unfolded base], of "take (unat (rl_committed rl') + 1 - log_base (rl_view rl))"]
    by (simp add: min_def)
  then show ?thesis using rl' True base by (intro exI [of _ True] exI [of _ rl']) simp
qed

theorem maybeCommit_persists_witness:
  "\<exists>rl'. raftLog_maybeCommit ex_log 1 = Inr (True, rl') \<and> take 2 (ms_logs (rl_storage rl')) = [zero_Entry, ex_entry 1 1 7]"
proof -
  have "rl_committed ex_log < 1" "u_snapshot (rl_unstable ex_log) = None" by (simp_all add: ex_log_def)
  then show ?thesis using maybeCommit_persists [OF ex_log_ok(1), of 1] ex_log_ok(3-5) by (auto simp: eval_nat_numeral)
qed

text \<open>What is appended is read back: after \<open>append\<close> of entries that continue the log, \<open>slice\<close> over their
  indices returns exactly them, and over any range below it returns the old entries.\<close>

theorem append_slice:
  assumes "raftLog_wf rl" "raftLog_synced rl" "chain_from (log_last (rl_view rl) + 1) ents"
    "log_last (rl_view rl) + 1 + length ents < 2 ^ 64" "log_base (rl_view rl) < unat lo" "unat lo \<le> log_last (rl_view rl) + 1"
    "unat hi = log_last (rl_view rl) + 1 + length ents"
  shows "\<exists>rl'. raftLog_append rl ents = Inr rl' \<and>
    raftLog_slice sz rl' lo hi noLimit = Inr (Inr (drop (unat lo - log_base (rl_view rl)) (rl_view rl) @ ents))"
proof -
  let ?L = "rl_view rl"
  obtain rl' where rl': "raftLog_append rl ents = Inr rl'" "raftLog_wf rl'" "rl_view rl' = ?L @ ents" "raftLog_synced rl'"
    using raftLog_append_view [OF assms(1,3,4)] assms(2) by blast
  note L = log_okD [OF rl_view_ok [OF assms(1)]]
  have ne: "?L \<noteq> []" using rl_view_ok [OF assms(1)] by (simp add: log_ok_def)
  have base: "log_base (rl_view rl') = log_base ?L" using rl'(3) ne by simp
  have last: "log_last (rl_view rl') + 1 = unat hi" using assms(7) L(7) ne by (simp add: rl'(3) log_last_def)
  have "raftLog_slice sz rl' lo hi noLimit = Inr (Inr (log_slice (?L @ ents) (unat lo) (unat hi)))"
    using raftLog_slice_noLimit [OF rl'(2,4), of lo hi sz] assms(5) base last rl'(3) by simp
  moreover have "log_slice (?L @ ents) (unat lo) (unat hi) = drop (unat lo - log_base ?L) ?L @ ents"
    using assms(5-7) L(7) ne by (simp add: log_slice_def log_last_def)
  ultimately show ?thesis using rl'(1) by auto
qed

theorem append_slice_witness:
  "\<exists>rl'. raftLog_append ex_log [ex_entry 3 1 9] = Inr rl' \<and>
     raftLog_slice (\<lambda>_. 1) rl' 2 4 noLimit = Inr (Inr [ex_entry 2 1 8, ex_entry 3 1 9])"
  using append_slice [OF ex_log_ok(1,2), of "[ex_entry 3 1 9]" 2 4 "\<lambda>_. 1"] ex_log_ok(3-5) by (simp add: ex_entry_def)

text \<open>The vote is given only to candidates whose log is at least as complete: \<open>isUpToDate\<close> compares the
  candidate's last term and index with those of the log, lexicographically.\<close>

theorem isUpToDate_lexicographic:
  assumes "raftLog_wf rl"
  shows "raftLog_isUpToDate rl idx tm =
    Inr ((ent_Term (last (rl_view rl)), log_last (rl_view rl)) \<in>
      {(t, i). t < tm \<or> t = tm \<and> i \<le> unat idx})"
  using raftLog_isUpToDate_view [OF assms] by simp

theorem isUpToDate_lexicographic_witness:
  "raftLog_isUpToDate ex_log 1 1 = Inr False \<and> raftLog_isUpToDate ex_log 1 2 = Inr True"
  using isUpToDate_lexicographic [OF ex_log_ok(1), of 1 1] isUpToDate_lexicographic [OF ex_log_ok(1), of 1 2] ex_log_ok(3,5)
  by (simp add: ex_entry_def)

end
