(* ===== verification/NodeProps.thy ===== *)
theory NodeProps
  imports RaftStable
begin

text \<open>
  The properties of the storage and of one raft instance: what is appended is read back, the commit index of a
  leader is backed by a quorum, the term and the vote never go back, and an instance that only sees
  the clock asks for votes after its timeout, never before.
\<close>

section \<open>The storage\<close>

text \<open>C20: What is appended to the storage is read back: after \<open>Append\<close> of entries that continue or overwrite
  the log, \<open>Entries\<close> over their indices returns exactly them, \<open>Term\<close> gives each entry's term, and
  below the first of them nothing has changed: the stored entries are the same, whole, and so are the answers of \<open>Entries\<close>,
  under any size limit, and of \<open>Term\<close>.\<close>

theorem storage_append_roundtrip:
  assumes "storage_inv ms" "ents \<noteq> []" "chain_from (unat k) ents" "log_base (ms_logs ms) < unat k"
    "unat k \<le> log_last (ms_logs ms) + 1" "unat k + length ents < 2 ^ 64"
  shows "\<exists>ms'. InMemStorage_Append ms ents = Inr (None, ms') \<and> storage_inv ms' \<and>
    InMemStorage_Entries sz ms' k (k + ulen ents) noLimit = Inr (Inr ents) \<and>
    InMemStorage_LastIndex ms' = Inr (Inr (k + ulen ents - 1)) \<and>
    (\<forall>i < length ents. InMemStorage_Term ms' (k + of_nat i) = Inr (Inr (ent_Term (ents ! i)))) \<and>
    take (unat k - log_base (ms_logs ms)) (ms_logs ms') = take (unat k - log_base (ms_logs ms)) (ms_logs ms) \<and>
    (\<forall>lo hi mx. log_base (ms_logs ms) < unat lo \<and> lo \<le> hi \<and> hi \<le> k \<longrightarrow>
       InMemStorage_Entries sz ms' lo hi mx = InMemStorage_Entries sz ms lo hi mx) \<and>
    (\<forall>j. log_base (ms_logs ms) \<le> unat j \<and> j < k \<longrightarrow> InMemStorage_Term ms' j = InMemStorage_Term ms j)"
proof -
  let ?L = "ms_logs ms" and ?k = "unat k"
  define ms' where "ms' = ms\<lparr>ms_logs := log_append ?L ?k ents\<rparr>"
  have app: "InMemStorage_Append ms ents = Inr (None, ms')" using ms_append [OF assms] by (simp add: ms'_def)
  have L: "log_ok ?L" using assms(1) by (simp add: storage_inv_def)
  note A = log_ok_append [OF L assms(4,5,3,6)]
  have inv: "storage_inv ms'" using A(1) by (simp add: storage_inv_def ms'_def)
  have hi: "unat (k + ulen ents) = ?k + length ents" using assms(6) unat_plus_u64 [of k "ulen ents"] by simp
  have len: "length (take (?k - log_base ?L) ?L) = ?k - log_base ?L" using log_okD(7) [OF L] assms(5) by simp
  have slice: "log_slice (ms_logs ms') ?k (?k + length ents) = ents"
    using assms(4) len unfolding log_slice_def ms'_def by (simp add: A(2)) (simp add: log_append_def)
  have E: "InMemStorage_Entries sz ms' k (k + ulen ents) noLimit = Inr (Inr ents)"
    using ms_entries [OF inv, of k "k + ulen ents"] A assms(4) hi slice by (simp add: ms'_def word_le_nat_alt)
  obtain l where l: "InMemStorage_lastIndex ms' = Inr l" "unat l = log_last (ms_logs ms')" using ms_last [OF inv] by blast
  have "unat (k + ulen ents - 1) = ?k + length ents - 1" using hi assms(4) unat_pred_u64 by simp
  then have "l = k + ulen ents - 1" using l(2) A(3) by (simp add: u64_eq_iff ms'_def)
  then have last: "InMemStorage_LastIndex ms' = Inr (Inr (k + ulen ents - 1))" using l(1) by (simp add: InMemStorage_LastIndex_def)
  have T: "InMemStorage_Term ms' (k + of_nat i) = Inr (Inr (ent_Term (ents ! i)))" if i: "i < length ents" for i
  proof -
    have "unat (of_nat i :: u64) = i" using i assms(6) by (simp add: unat_of_nat)
    then have "unat (k + of_nat i) = ?k + i" using i assms(6) unat_plus_u64 [of k "of_nat i"] by simp
    then show ?thesis using ms_term [OF inv, of "k + of_nat i"] A i assms(4) log_term_append_above [OF L assms(4,5) i]
      by (simp add: ms'_def)
  qed
  have B: "InMemStorage_Term ms' j = InMemStorage_Term ms j" if j: "log_base ?L \<le> unat j" "j < k" for j
    using ms_term [OF inv, of j] ms_term [OF assms(1), of j] A j assms(5) log_term_append_below [OF L assms(4,5), of "unat j"]
    by (simp add: ms'_def word_less_nat_alt)
  have below: "take n (ms_logs ms') = take n ?L" if "n \<le> ?k - log_base ?L" for n
    using that len by (simp add: ms'_def log_append_def min_def)
  have R: "InMemStorage_Entries sz ms' lo hi mx = InMemStorage_Entries sz ms lo hi mx"
    if "log_base ?L < unat lo" "lo \<le> hi" "hi \<le> k" for lo hi mx
  proof -
    have h: "unat hi \<le> ?k" "unat lo \<le> unat hi" using that by (simp_all add: word_le_nat_alt)
    have "log_slice (ms_logs ms') (unat lo) (unat hi) = log_slice ?L (unat lo) (unat hi)"
      using below [of "unat hi - log_base ?L"] h that(1) unfolding log_slice_def ms'_def by (simp add: A(2) take_drop)
    then show ?thesis
      using ms_entries [OF inv, of lo hi sz mx] ms_entries [OF assms(1), of lo hi sz mx] that h A assms(5)
      by (simp add: ms'_def word_le_nat_alt)
  qed
  show ?thesis using app inv E last T B R below [OF order_refl] by (intro exI [of _ ms']) simp
qed

definition ex_entries :: "Entry list" where
  "ex_entries = [\<lparr>ent_Type = EntryNormal, ent_Index = 1, ent_Term = 2, ent_Data = [7]\<rparr>,
     \<lparr>ent_Type = EntryNormal, ent_Index = 2, ent_Term = 3, ent_Data = []\<rparr>]"

theorem storage_append_roundtrip_witness:
  "\<exists>ms'. InMemStorage_Append NewInMemStorage ex_entries = Inr (None, ms') \<and>
     InMemStorage_Entries (\<lambda>_. 1) ms' 1 3 noLimit = Inr (Inr ex_entries) \<and> InMemStorage_LastIndex ms' = Inr (Inr 2)"
proof -
  have "storage_inv NewInMemStorage" "ex_entries \<noteq> []" "chain_from (unat (1 :: u64)) ex_entries"
    "log_base (ms_logs NewInMemStorage) < unat (1 :: u64)" "unat (1 :: u64) \<le> log_last (ms_logs NewInMemStorage) + 1"
    "unat (1 :: u64) + length ex_entries < 2 ^ 64"
    by (simp_all add: storage_inv_def NewInMemStorage_def log_ok_def ex_entries_def zero_Entry_def log_last_def)
  from storage_append_roundtrip [OF this, of "\<lambda>_. 1"] show ?thesis by (auto simp: ulen_def ex_entries_def)
qed

section \<open>Committing\<close>

lemma sorted_desc_nth_ge:
  assumes "sorted (rev xs)" "0 < k" "k \<le> length xs"
  shows "c \<le> xs ! (k - 1) \<longleftrightarrow> k \<le> length (filter (\<lambda>x. c \<le> x) (xs :: 'a :: linorder list))"
  using assms
proof (induction xs arbitrary: k)
  case (Cons x xs)
  have s: "sorted (rev xs)" "\<forall>y \<in> set xs. y \<le> x" using Cons.prems(1) by (auto simp: sorted_append)
  show ?case
  proof (cases "k = 1")
    case True
    have "filter (\<lambda>y. c \<le> y) xs = []" if "\<not> c \<le> x" using s(2) that by (auto simp: filter_empty_conv)
    then show ?thesis using True by auto
  next
    case False
    then have "c \<le> xs ! (k - 1 - 1) \<longleftrightarrow> k - 1 \<le> length (filter (\<lambda>x. c \<le> x) xs)"
      using Cons.prems Cons.IH [OF s(1), of "k - 1"] by simp
    moreover have "(x # xs) ! (k - 1) = xs ! (k - 1 - 1)" using False Cons.prems(2) by (simp add: nth_Cons')
    moreover have "xs ! (k - 1 - 1) \<le> x" using s(2) Cons.prems False by (simp add: nth_mem)
    moreover have "filter (\<lambda>y. c \<le> y) xs = []" if "\<not> c \<le> x" using s(2) that by (auto simp: filter_empty_conv)
    ultimately show ?thesis using False Cons.prems(2) by (cases "c \<le> x") auto
  qed
qed simp

text \<open>How many peers are known to have the log up to \<open>i\<close>.\<close>

definition acked :: "raft \<Rightarrow> u64 \<Rightarrow> nat" where
  "acked r i = length (filter (\<lambda>(n, p). i \<le> pr_match p) (r_peers r))"

lemma quorum_match:
  assumes "r_peers r \<noteq> []"
  shows "\<exists>to. slice_get (rev (sort (map (\<lambda>(nid, p). pr_match p) (r_peers r)))) (raft_q r - 1) = Inr to \<and>
    (\<forall>i. i \<le> to \<longleftrightarrow> raft_q r \<le> acked r i)"
proof -
  let ?ms = "map (\<lambda>(nid, p). pr_match p) (r_peers r)" and ?xs = "rev (sort (map (\<lambda>(nid, p). pr_match p) (r_peers r)))"
  have q: "0 < raft_q r" "raft_q r \<le> length ?xs"
    using assms by (simp_all add: raft_q_def Suc_le_eq)
  have "length (filter (\<lambda>x. i \<le> x) ?xs) = acked r i" for i
  proof -
    have "length (filter (\<lambda>x. i \<le> x) ?xs) = length (filter (\<lambda>x. i \<le> x) ?ms)"
      by (simp add: filter_sort flip: rev_filter)
    then show ?thesis by (simp add: acked_def filter_map comp_def case_prod_beta')
  qed
  moreover have "i \<le> ?xs ! (raft_q r - 1) \<longleftrightarrow> raft_q r \<le> length (filter (\<lambda>x. i \<le> x) ?xs)" for i
    by (rule sorted_desc_nth_ge [OF _ q]) simp
  ultimately show ?thesis using q by (intro exI [of _ "?xs ! (raft_q r - 1)"]) simp
qed

text \<open>C13: A leader commits what a quorum has, and everything a quorum has: \<open>maybeCommit\<close> never panics, keeps the
  log, and afterwards an index is committed exactly when it was before, or lies in the log and at
  least \<open>q\<close> peers have it. The flag it returns says whether \<open>q\<close> peers have some index above the old committed
  one; it can be set although the committed index stays, when that is the last index of the log.\<close>

theorem quorum_commit:
  assumes "raftLog_wf (r_logs r)" "r_peers r \<noteq> []" "unat (rl_committed (r_logs r)) \<le> log_last (rl_view (r_logs r))"
  shows "\<exists>b r'. raft_maybeCommit r = Inr (b, r') \<and> raftLog_wf (r_logs r') \<and> rl_view (r_logs r') = rl_view (r_logs r) \<and>
    (\<forall>i. i \<le> rl_committed (r_logs r') \<longleftrightarrow>
       i \<le> rl_committed (r_logs r) \<or> raft_q r \<le> acked r i \<and> unat i \<le> log_last (rl_view (r_logs r))) \<and>
    (b \<longleftrightarrow> (\<exists>i. rl_committed (r_logs r) < i \<and> raft_q r \<le> acked r i)) \<and> (\<not> b \<longrightarrow> r' = r)"
proof -
  obtain to where to: "slice_get (rev (sort (map (\<lambda>(nid, p). pr_match p) (r_peers r)))) (raft_q r - 1) = Inr to"
    "\<And>i. i \<le> to \<longleftrightarrow> raft_q r \<le> acked r i"
    using quorum_match [OF assms(2)] by blast
  show ?thesis
  proof (cases "rl_committed (r_logs r) < to")
    case True
    then obtain rl' where rl': "raftLog_maybeCommit (r_logs r) to = Inr (True, rl')" "rl_view rl' = rl_view (r_logs r)"
      "unat (rl_committed rl') = min (unat to) (log_last (rl_view (r_logs r)))" "raftLog_wf rl'"
      using raftLog_maybeCommit_view [OF assms(1), of to] by auto
    have "raft_maybeCommit r = Inr (True, r\<lparr>r_logs := rl'\<rparr>)" using to(1) rl'(1) by (simp add: raft_maybeCommit_def)
    moreover have "i \<le> rl_committed rl' \<longleftrightarrow>
        i \<le> rl_committed (r_logs r) \<or> i \<le> to \<and> unat i \<le> log_last (rl_view (r_logs r))" for i
      using rl'(3) True assms(3) by (auto simp: word_le_nat_alt word_less_nat_alt)
    ultimately show ?thesis using to(2) rl'(2,4) True
      by (intro exI [of _ True] exI [of _ "r\<lparr>r_logs := rl'\<rparr>"]) (auto intro: exI [of _ to])
  next
    case False
    then have "raftLog_maybeCommit (r_logs r) to = Inr (False, r_logs r)" by (simp add: raftLog_maybeCommit_def)
    then have "raft_maybeCommit r = Inr (False, r)" using to(1) by (simp add: raft_maybeCommit_def)
    then show ?thesis using False assms(1) to(2)
      by (intro exI [of _ False] exI [of _ r]) (auto simp flip: to(2) simp: not_less)
  qed
qed

text \<open>Three peers have the log up to 2, 0 and 3, and it ends at 2.\<close>

theorem quorum_commit_witness:
  "\<exists>r b r'. raft_maybeCommit r = Inr (b, r') \<and> b \<and> unat (rl_committed (r_logs r')) = 2"
proof -
  let ?p = "\<lambda>i. zero_Progress\<lparr>pr_match := i\<rparr>"
  let ?l = "\<lparr>rl_storage = NewInMemStorage, rl_unstable = \<lparr>u_snapshot = None, u_ents = ex_entries, u_offset = 1\<rparr>,
     rl_committed = 0, rl_applied = 0\<rparr>"
  define r where "r = (lp_raft (trio 1))\<lparr>r_logs := ?l, r_peers := [(1, ?p 2), (2, ?p 0), (3, ?p 3)]\<rparr>"
  have view: "rl_view ?l = [zero_Entry, ex_entries ! 0, ex_entries ! 1]" "raftLog_wf ?l"
    by (simp_all add: raftLog_wf_def ex_entries_def storage_inv_def NewInMemStorage_def log_ok_def log_last_def
        rl_view_def zero_Entry_def)
  have acked: "acked r i = (if i \<le> 2 then 1 else 0) + (if i \<le> 0 then 1 else 0) + (if i \<le> 3 then 1 else 0)" for i
    by (simp add: acked_def r_def)
  have q: "raft_q r = 2" by (simp add: raft_q_def r_def)
  have "raftLog_wf (r_logs r)" "r_peers r \<noteq> []" "unat (rl_committed (r_logs r)) \<le> log_last (rl_view (r_logs r))"
    using view by (simp_all add: r_def)
  from quorum_commit [OF this] obtain b r' where R: "raft_maybeCommit r = Inr (b, r')"
    "\<forall>i. i \<le> rl_committed (r_logs r') \<longleftrightarrow>
       i \<le> rl_committed (r_logs r) \<or> raft_q r \<le> acked r i \<and> unat i \<le> log_last (rl_view (r_logs r))"
    "b \<longleftrightarrow> (\<exists>i. rl_committed (r_logs r) < i \<and> raft_q r \<le> acked r i)" by blast
  have b using R(3) acked q by (auto intro!: exI [of _ 2] simp: r_def)
  have c: "rl_committed (r_logs r) = 0" "log_last (rl_view (r_logs r)) = 2"
    using view by (simp_all add: r_def log_last_def zero_Entry_def)
  have "2 \<le> rl_committed (r_logs r')" using R(2) acked [of 2] q c by simp
  moreover have "unat (rl_committed (r_logs r')) \<le> 2"
    using R(2) [rule_format, of "rl_committed (r_logs r')"] c by (auto simp: word_le_nat_alt)
  ultimately have "unat (rl_committed (r_logs r')) = 2" by (simp add: word_le_nat_alt)
  then show ?thesis using R(1) \<open>b\<close> by blast
qed

section \<open>Terms and votes\<close>

text \<open>C16: The term never goes back and a vote is never taken back: in a step of the main loop the term does not
  decrease, and while it stays the same a vote that was given stays the same.\<close>

theorem term_vote_forward:
  assumes "mainLoop_step sz lp ev = Inr (Running lp')" "unat (r_Term (lp_raft lp)) + 2 < 2 ^ 64"
  shows "r_Term (lp_raft lp) \<le> r_Term (lp_raft lp') \<and>
    (r_Term (lp_raft lp') = r_Term (lp_raft lp) \<and> r_Vote (lp_raft lp) \<noteq> NoneId \<longrightarrow>
     r_Vote (lp_raft lp') = r_Vote (lp_raft lp))"
  using mainLoop_step_forward [OF assms] by (simp add: forward_def)

section \<open>Well-formedness\<close>











section \<open>The election timer\<close>

text \<open>The clock ticks once for every random number of \<open>rnds\<close>, and nothing else happens.\<close>

fun raft_ticks :: "raft \<Rightarrow> nat list \<Rightarrow> raft go" where
  "raft_ticks r [] = Inr r"
| "raft_ticks r (rnd # rnds) = go_bind (raft_tick r rnd) (\<lambda>r1. raft_ticks r1 rnds)"

text \<open>The instance waits for a leader, with a timer that is running.\<close>

definition waiting :: "raft \<Rightarrow> bool" where
  "waiting r \<longleftrightarrow> node_ok r \<and> r_state r \<noteq> StateLeader \<and> 0 < r_electionTimeout r \<and> 0 \<le> r_electionElapsed r \<and>
     r_electionElapsed r < 2 * r_electionTimeout r \<and> 2 * r_electionTimeout r < 2 ^ 62 \<and> unat (r_Term r) + 2 < 2 ^ 64"

text \<open>The instance has asked every other peer for its vote in its new term.\<close>

definition asked_votes :: "raft \<Rightarrow> raft \<Rightarrow> bool" where
  "asked_votes r r' \<longleftrightarrow> r_Term r < r_Term r' \<and> r_state r' \<noteq> StateFollower \<and>
     (\<forall>n \<in> set (keys (r_peers r)) - {r_id r}. \<exists>m \<in> set (r_outc r').
        msg_Type m = MsgVote \<and> msg_To m = n \<and> msg_Term m = r_Term r')"

lemma raft_sendTo_sends:
  "set (r_outc r) \<subseteq> set (r_outc (raft_sendTo r n msg))"
  "n \<in> set (keys (r_peers r)) \<Longrightarrow>
   \<exists>m \<in> set (r_outc (raft_sendTo r n msg)). msg_Type m = msg_Type msg \<and> msg_To m = n \<and> msg_Term m = r_Term r"
  by (auto simp: raft_sendTo_def map_of_None_keys split: option.splits)

lemma raft_broadcast_loop_keeps: "m \<in> set (r_outc r) \<Longrightarrow> m \<in> set (r_outc (raft_broadcast_loop r msg ids))"
proof (induction ids arbitrary: r)
  case (Cons x ids)
  then show ?case using raft_sendTo_sends(1) [of r x msg] by auto
qed simp

lemma raft_broadcast_loop_sends:
  assumes "set ids \<subseteq> set (keys (r_peers r))" "n \<in> set ids" "n \<noteq> r_id r"
  shows "\<exists>m \<in> set (r_outc (raft_broadcast_loop r msg ids)). msg_Type m = msg_Type msg \<and> msg_To m = n \<and> msg_Term m = r_Term r"
  using assms
proof (induction ids arbitrary: r)
  case (Cons x ids)
  show ?case
  proof (cases "x = n")
    case True
    then show ?thesis
      using Cons.prems raft_sendTo_sends(2) [of x r msg] raft_broadcast_loop_keeps [of _ "raft_sendTo r x msg" msg ids] by auto
  next
    case False
    then show ?thesis using Cons.IH [of r] Cons.IH [of "raft_sendTo r x msg"] Cons.prems by auto
  qed
qed simp

lemma raft_campaign_asks:
  assumes "raft_campaign r = Inr r'" "unat (r_Term r) + 2 < 2 ^ 64"
  shows "asked_votes r r'"
proof -
  obtain r1 where r1: "raft_becomeCandidate r = Inr r1" using assms(1) by (auto simp: raft_campaign_def)
  obtain cnt r2 where p: "raft_poll r1 (r_id r1) True = (cnt, r2)" by fastforce
  obtain r3 lt li where r3: "(if raft_q r1 \<le> cnt then raft_becomeLeader r2 else Inr r2) = Inr r3"
    and r': "r' = raft_broadcast r3 (zero_Message\<lparr>msg_Type := MsgVote, msg_PrevTerm := lt, msg_PrevIndex := li\<rparr>)"
    using assms(1) r1 p by (auto simp: raft_campaign_def)
  have t0: "unat (r_Term r) + 1 < 2 ^ 64" using assms(2) by simp
  note F1 = raft_becomeCandidate_fields [OF r1 t0]
  have k1: "keys (r_peers r1) = keys (r_peers r)" using r1 by (auto simp: raft_becomeCandidate_def raft_reset_fields)
  have S2: "same_node r1 r2" "r_peers r2 = r_peers r1"
    using raft_poll_same [OF p] p by (auto simp: raft_poll_def Let_def split: option.splits)
  have t2: "unat (r_Term r2) + 1 < 2 ^ 64" using S2(1) F1(5) assms(2) by (simp add: same_node_def)
  have R3: "r_id r3 = r_id r \<and> keys (r_peers r3) = keys (r_peers r) \<and> r_Term r < r_Term r3 \<and> r_state r3 \<noteq> StateFollower"
  proof (cases "raft_q r1 \<le> cnt")
    case True
    then have l: "raft_becomeLeader r2 = Inr r3" using r3 by simp
    note F3 = raft_becomeLeader_fields [OF l t2]
    have "keys (r_peers r3) = keys (r_peers r2)" using l by (auto simp: raft_becomeLeader_def raft_reset_fields)
    then show ?thesis using F3 S2 k1 F1 by (simp add: same_node_def word_less_nat_alt)
  next
    case False
    then show ?thesis using r3 S2 k1 F1 by (auto simp: same_node_def word_less_nat_alt)
  qed
  have S': "same_node r3 r'" using raft_broadcast_same(3) r' by blast
  have "\<exists>m \<in> set (r_outc r'). msg_Type m = MsgVote \<and> msg_To m = n \<and> msg_Term m = r_Term r3"
    if "n \<in> set (keys (r_peers r3))" "n \<noteq> r_id r3" for n
    using raft_broadcast_loop_sends [OF subset_refl that, of "zero_Message\<lparr>msg_Type := MsgVote, msg_PrevTerm := lt, msg_PrevIndex := li\<rparr>"]
    unfolding r' raft_broadcast_def by simp
  then show ?thesis using R3 S' by (simp add: asked_votes_def same_node_def)
qed

lemma waiting_tick:
  assumes "waiting r"
  shows "if r_electionElapsed r + 1 - r_electionTimeout r > int rnd mod r_electionTimeout r \<and>
       r_electionTimeout r < r_electionElapsed r + 1
    then \<exists>r'. raft_tick r rnd = Inr r' \<and> asked_votes r r'
    else raft_tick r rnd = Inr (r\<lparr>r_electionElapsed := r_electionElapsed r + 1\<rparr>)"
proof -
  let ?r = "r\<lparr>r_electionElapsed := r_electionElapsed r + 1\<rparr>"
  have n: "node_ok r" and b: "in_int64 (r_electionElapsed r + 1)" "in_int64 (r_electionElapsed r + 1 - r_electionTimeout r)"
    using assms by (auto simp: waiting_def in_int64_def)
  have tick: "r_tick r = TickElection"
    using assms by (cases "r_state r") (auto simp: waiting_def node_ok_def role_ok_def)
  have "node_ok ?r" using n by (simp add: node_ok_def role_ok_def)
  then obtain r' where c: "raft_campaign ?r = Inr r'" using raft_campaign_total by blast
  have "asked_votes ?r r'" using raft_campaign_asks [OF c] assms by (simp add: waiting_def)
  then have ask: "asked_votes r r'" by (simp add: asked_votes_def)
  have t: "0 < r_electionTimeout r" using assms by (simp add: waiting_def)
  have "raft_isElectionTimeout ?r rnd = Inr (r_electionElapsed r + 1 - r_electionTimeout r > int rnd mod r_electionTimeout r \<and>
       r_electionTimeout r < r_electionElapsed r + 1)"
    using b t by (simp add: raft_isElectionTimeout_def)
  then show ?thesis using tick b c ask by (simp add: raft_tick_def raft_tickElection_def Let_def)
qed

lemma waiting_next:
  assumes "waiting r" "r_electionElapsed r + 1 < 2 * r_electionTimeout r"
  shows "waiting (r\<lparr>r_electionElapsed := r_electionElapsed r + 1\<rparr>)"
  using assms by (auto simp: waiting_def node_ok_def role_ok_def)

text \<open>C14: A silent group is not stuck: an instance that waits for a leader and only sees the clock asks
  all its peers for their vote, in a new term, after at most twice its election timeout, whatever the
  random numbers, and no tick on the way panics.\<close>

theorem election_timeout_fires:
  assumes "waiting r" "length rnds = nat (2 * r_electionTimeout r - r_electionElapsed r)"
  shows "\<exists>k r'. k \<le> length rnds \<and> raft_ticks r (take k rnds) = Inr r' \<and> asked_votes r r'"
  using assms
proof (induction rnds arbitrary: r)
  case Nil
  then show ?case by (simp add: waiting_def)
next
  case (Cons rnd rnds)
  let ?r = "r\<lparr>r_electionElapsed := r_electionElapsed r + 1\<rparr>"
  let ?P = "r_electionElapsed r + 1 - r_electionTimeout r > int rnd mod r_electionTimeout r \<and>
       r_electionTimeout r < r_electionElapsed r + 1"
  show ?case
  proof (cases ?P)
    case True
    then show ?thesis using waiting_tick [OF Cons.prems(1), of rnd] by (force intro: exI [of _ "Suc 0"])
  next
    case False
    then have t: "raft_tick r rnd = Inr ?r" using waiting_tick [OF Cons.prems(1), of rnd] by (simp split: if_splits)
    have pos: "0 < r_electionTimeout r" using Cons.prems(1) by (simp add: waiting_def)
    have "int rnd mod r_electionTimeout r < r_electionTimeout r" using pos by simp
    then have lt: "r_electionElapsed r + 1 < 2 * r_electionTimeout r" using False pos by linarith
    have "length rnds = nat (2 * r_electionTimeout ?r - r_electionElapsed ?r)" using Cons.prems(2) lt by simp
    then obtain k r' where "k \<le> length rnds" "raft_ticks ?r (take k rnds) = Inr r'" "asked_votes ?r r'"
      using Cons.IH [OF waiting_next [OF Cons.prems(1) lt]] by blast
    then show ?thesis using t by (intro exI [of _ "Suc k"] exI [of _ r']) (simp add: asked_votes_def)
  qed
qed

text \<open>No instance campaigns before its timeout: as long as the elapsed time does not pass the election
  timeout, ticks change nothing but the elapsed time, so a follower that hears its leader in time
  never disturbs it.\<close>

theorem no_early_campaign:
  assumes "waiting r" "r_electionElapsed r + int (length rnds) \<le> r_electionTimeout r"
  shows "raft_ticks r rnds = Inr (r\<lparr>r_electionElapsed := r_electionElapsed r + int (length rnds)\<rparr>)"
  using assms
proof (induction rnds arbitrary: r)
  case (Cons rnd rnds)
  let ?r = "r\<lparr>r_electionElapsed := r_electionElapsed r + 1\<rparr>"
  have pos: "0 < r_electionTimeout r" using Cons.prems(1) by (simp add: waiting_def)
  have t: "raft_tick r rnd = Inr ?r" using waiting_tick [OF Cons.prems(1), of rnd] Cons.prems(2) by (simp split: if_splits)
  have "waiting ?r" by (rule waiting_next [OF Cons.prems(1)]) (use Cons.prems(2) pos in simp)
  then show ?case using t Cons.IH [of ?r] Cons.prems(2) by (simp add: algebra_simps)
qed simp

lemma trio_waiting: "waiting (lp_raft (trio 1)) \<and> r_electionTimeout (lp_raft (trio 1)) = 1 \<and> r_electionElapsed (lp_raft (trio 1)) = 0"
proof -
  have "fresh_ok (lp_raft (trio 1))" using trio_init by (simp add: group_init_def)
  then have "node_ok (lp_raft (trio 1))" by (simp add: fresh_ok_def)
  moreover have "r_state (lp_raft (trio 1)) \<noteq> StateLeader \<and> r_electionTimeout (lp_raft (trio 1)) = 1 \<and>
      r_electionElapsed (lp_raft (trio 1)) = 0 \<and> r_Term (lp_raft (trio 1)) = 1"
    by code_simp
  ultimately show ?thesis by (simp add: waiting_def)
qed

theorem election_timeout_fires_witness:
  "\<exists>k r'. k \<le> 2 \<and> raft_ticks (lp_raft (trio 1)) (take k [5, 6]) = Inr r' \<and> asked_votes (lp_raft (trio 1)) r'"
  using election_timeout_fires [of "lp_raft (trio 1)" "[5, 6]"] trio_waiting by (simp add: numeral_2_eq_2)

theorem no_early_campaign_witness:
  "raft_ticks (lp_raft (trio 1)) [5] = Inr ((lp_raft (trio 1))\<lparr>r_electionElapsed := 1\<rparr>)"
  using no_early_campaign [of "lp_raft (trio 1)" "[5]"] trio_waiting by simp

theorem term_vote_forward_witness:
  "\<exists>lp. mainLoop_step trio_size (trio 1) (EvTick 0) = Inr (Running lp) \<and> r_Term (lp_raft (trio 1)) \<le> r_Term (lp_raft lp)"
proof -
  have "(case mainLoop_step trio_size (trio 1) (EvTick 0) of Inr (Running lp) \<Rightarrow> True | _ \<Rightarrow> False)" by code_simp
  then obtain lp where lp: "mainLoop_step trio_size (trio 1) (EvTick 0) = Inr (Running lp)"
    by (auto split: sum.splits outcome.splits)
  moreover have "unat (r_Term (lp_raft (trio 1))) + 2 < 2 ^ 64" using trio_waiting by (simp add: waiting_def)
  ultimately show ?thesis using term_vote_forward [OF lp] by blast
qed


end
