(* ===== verification/RaftAlias.thy ===== *)
theory RaftAlias
  imports RaftLogRefine
begin

text \<open>
  What \<open>raftLog.slice\<close> of \<open>src/rafts/raftlog.go\<close> does to the array of the storage. The slice that
  \<open>InMemStorage.Entries\<close> returns is a part of \<open>ms.logs\<close>, with the same array behind it, and the
  \<open>append\<close> in \<open>slice\<close> writes the unstable entries into that array when its capacity is
  large enough. \<open>raftLog_slice\<close> gives the value that is returned; here the storage is threaded through as well.
  Without a size limit the write lands behind \<open>ms.logs\<close>, and nothing that is stored changes. With a
  limit that cuts the stored part short it lands inside \<open>ms.logs\<close>.
\<close>

text \<open>\<open>append(xs[p:n], ys...)\<close> in Go, where the array behind \<open>xs\<close> has room for \<open>cap\<close> elements, as it is
  seen through \<open>xs\<close>: with too little room the result is a new array and \<open>xs\<close> stays as it is.\<close>

definition append_in_place :: "nat \<Rightarrow> 'a list \<Rightarrow> nat \<Rightarrow> 'a list \<Rightarrow> 'a list" where
  "append_in_place cap xs n ys =
     (if n + length ys \<le> cap then take (length xs) (take n xs @ ys @ drop (n + length ys) xs) else xs)"

definition raftLog_slice_store ::
  "(Entry \<Rightarrow> u64) \<Rightarrow> nat \<Rightarrow> raftLog \<Rightarrow> u64 \<Rightarrow> u64 \<Rightarrow> u64 \<Rightarrow> ((goerr + Entry list) \<times> InMemStorage) go" where
  "raftLog_slice_store sz cap rl from to maxSize =
     (let st = rl_storage rl in
      if from \<ge> to then Inr (Inr [], st)
      else
        go_bind (raftLog_firstIndex rl) (\<lambda>first.
        go_bind (raftLog_lastIndex rl) (\<lambda>last.
          if from < first \<or> to > last + 1 then Inr (Inl ErrOutOfBound, st)
          else
            go_bind (InMemStorage_LastIndex st) (\<lambda>r.
            case r of
              Inl err \<Rightarrow> Inr (Inl err, st)
            | Inr slasti \<Rightarrow>
                go_bind
                  (if slasti \<ge> from then InMemStorage_Entries sz st from (util_min (slasti + 1) to) maxSize
                   else Inr (Inr [])) (\<lambda>r2.
                case r2 of
                  Inl err \<Rightarrow> Inr (Inl err, st)
                | Inr es \<Rightarrow>
                    go_bind (unstable_entries (rl_unstable rl) (util_max (slasti + 1) from) to maxSize) (\<lambda>us.
                    go_bind
                      (if slasti \<ge> from
                       then go_bind (slice_get (ms_logs st) 0) (\<lambda>d.
                         Inr (st\<lparr>ms_logs := append_in_place cap (ms_logs st) (unat (from - ent_Index d) + length es) us\<rparr>))
                       else Inr st) (\<lambda>st'.
                      Inr (Inr (limitSize sz (es @ us) maxSize), st'))))))))"

section \<open>The value\<close>

lemma append_in_place_Nil [simp]: "append_in_place cap xs n [] = xs"
  by (simp add: append_in_place_def)

lemma append_in_place_end: "length xs \<le> n \<Longrightarrow> append_in_place cap xs n ys = xs"
  by (simp add: append_in_place_def)

lemma append_in_place_length [simp]: "length (append_in_place cap xs n ys) = length xs"
  by (auto simp: append_in_place_def)

section \<open>The storage\<close>

text \<open>Without a limit the stored part is read to its end, or no unstable entry follows.\<close>

lemma stored_part_whole:
  assumes "storage_inv st" "log_base (ms_logs st) < unat from" "from \<le> s" "unat s = log_last (ms_logs st)" "unat (s + 1) = unat s + 1"
    "s + 1 \<le> to" "InMemStorage_Entries sz st from (util_min (s + 1) to) noLimit = Inr (Inr es)" "slice_get (ms_logs st) 0 = Inr d"
  shows "unat (from - ent_Index d) + length es = length (ms_logs st)"
proof -
  let ?L = "ms_logs st"
  note L = log_okD [OF assms(1) [unfolded storage_inv_def]]
  have d: "unat (ent_Index d) = log_base ?L" using assms(8) L(1) by (simp add: log_base_def hd_conv_nth)
  then have off: "unat (from - ent_Index d) = unat from - log_base ?L" using assms(2) unat_minus_u64 [of "ent_Index d" "from"] by simp
  have hi: "util_min (s + 1) to = s + 1" using assms(6) by (simp add: util_min_def)
  have "from \<le> s + 1" using assms(3,5) by (simp add: word_le_nat_alt)
  then have "es = log_slice ?L (unat from) (unat (s + 1))"
    using ms_entries [OF assms(1,2), of "s + 1" sz noLimit] assms(4,5,7) hi by (simp add: limitSize_def)
  then have "length es = unat (s + 1) - unat from" using assms(2-5) L(7) by (simp add: log_slice_def word_le_nat_alt)
  then show ?thesis using off assms(2-5) L(7) by (simp add: word_le_nat_alt)
qed

lemma entries_above_base:
  assumes "storage_inv st" "InMemStorage_Entries sz st lo hi mx = Inr (Inr es)"
  shows "log_base (ms_logs st) < unat lo"
proof -
  obtain f where f: "InMemStorage_firstIndex st = Inr f" "unat f = log_base (ms_logs st) + 1" using ms_first [OF assms(1)] by blast
  then have "f \<le> lo" using assms(2) by (auto simp: InMemStorage_Entries_def not_less split: if_splits)
  then show ?thesis using f(2) by (simp add: word_le_nat_alt)
qed

text \<open>Reading the log without a size limit leaves the storage alone, whatever the capacity of the
  array behind it, and gives the value of \<open>raftLog_slice\<close>.\<close>

theorem slice_keeps_storage:
  assumes "raftLog_wf rl"
  shows "raftLog_slice_store sz cap rl from to noLimit =
    go_bind (raftLog_slice sz rl from to noLimit) (\<lambda>r. Inr (r, rl_storage rl))"
proof -
  let ?st = "rl_storage rl"
  have st: "storage_inv ?st" using assms by (simp add: raftLog_wf_def)
  note L = log_okD [OF st [unfolded storage_inv_def]]
  obtain f where f: "raftLog_firstIndex rl = Inr f" using raftLog_first [OF assms] by blast
  obtain l where l: "raftLog_lastIndex rl = Inr l" using raftLog_last [OF assms] by blast
  obtain s where s: "InMemStorage_lastIndex ?st = Inr s" "unat s = log_last (ms_logs ?st)" using ms_last [OF st] by blast
  have s1: "unat (s + 1) = unat s + 1" using unat_Suc_u64 [of s] s(2) L(6) by simp
  have d: "slice_get (ms_logs ?st) 0 = Inr (ms_logs ?st ! 0)" using L(4) by simp
  have same: "append_in_place cap (ms_logs ?st) (unat (from - ent_Index (ms_logs ?st ! 0)) + length es) us = ms_logs ?st"
    if "from \<le> s" "InMemStorage_Entries sz ?st from (util_min (s + 1) to) noLimit = Inr (Inr es)"
      "unstable_entries (rl_unstable rl) (util_max (s + 1) from) to noLimit = Inr us" for es us
  proof (cases "s + 1 \<le> to")
    case True
    then show ?thesis
      using stored_part_whole [OF st entries_above_base [OF st that(2)] that(1) s(2) s1 True that(2) d] by (simp add: append_in_place_end)
  next
    case False
    have "util_max (s + 1) from = s + 1" using that(1) s1 by (auto simp: util_max_def word_le_nat_alt word_less_nat_alt)
    moreover have "to \<le> s + 1" using False by simp
    ultimately have "us = []" using that(3) by (simp add: unstable_entries_def)
    then show ?thesis by simp
  qed
  show ?thesis
  proof (cases "from \<ge> to \<or> from < f \<or> to > l + 1")
    case True
    then show ?thesis using f l by (auto simp: raftLog_slice_store_def raftLog_slice_def Let_def)
  next
    case False
    define r1 where "r1 = (if s \<ge> from then InMemStorage_Entries sz ?st from (util_min (s + 1) to) noLimit else Inr (Inr []))"
    have "raftLog_slice_store sz cap rl from to noLimit = go_bind r1 (\<lambda>r2. case r2 of Inl err \<Rightarrow> Inr (Inl err, ?st)
        | Inr es \<Rightarrow> go_bind (unstable_entries (rl_unstable rl) (util_max (s + 1) from) to noLimit) (\<lambda>us.
            Inr (Inr (limitSize sz (es @ us) noLimit),
              if s \<ge> from then ?st\<lparr>ms_logs := append_in_place cap (ms_logs ?st) (unat (from - ent_Index (ms_logs ?st ! 0)) + length es) us\<rparr>
              else ?st)))"
      using False f l s(1) d by (simp add: raftLog_slice_store_def Let_def InMemStorage_LastIndex_def r1_def cong: sum.case_cong)
    moreover have "raftLog_slice sz rl from to noLimit = go_bind r1 (\<lambda>r2. case r2 of Inl err \<Rightarrow> Inr (Inl err)
        | Inr es \<Rightarrow> go_bind (unstable_entries (rl_unstable rl) (util_max (s + 1) from) to noLimit) (\<lambda>us.
            Inr (Inr (limitSize sz (es @ us) noLimit))))"
      using False f l s(1) by (simp add: raftLog_slice_def InMemStorage_LastIndex_def r1_def cong: sum.case_cong)
    ultimately show ?thesis
      using same by (cases r1; cases "unstable_entries (rl_unstable rl) (util_max (s + 1) from) to noLimit")
        (auto simp: r1_def split: sum.splits)
  qed
qed

text \<open>A log whose storage has three entries of size 4, with two more that are unstable.\<close>

definition ex_ent :: "u64 \<Rightarrow> u64 \<Rightarrow> Entry" where
  "ex_ent i t = \<lparr>ent_Type = EntryNormal, ent_Index = i, ent_Term = t, ent_Data = []\<rparr>"

definition ex_long :: raftLog where
  "ex_long = \<lparr>rl_storage = NewInMemStorage\<lparr>ms_logs := [zero_Entry, ex_ent 1 1, ex_ent 2 1, ex_ent 3 1]\<rparr>,
     rl_unstable = \<lparr>u_snapshot = None, u_ents = [ex_ent 4 2, ex_ent 5 2], u_offset = 4\<rparr>,
     rl_committed = 3, rl_applied = 0\<rparr>"

lemma ex_long_ok: "raftLog_wf ex_long"
  by (simp add: raftLog_wf_def ex_long_def ex_ent_def storage_inv_def NewInMemStorage_def log_ok_def log_last_def zero_Entry_def)

theorem slice_keeps_storage_witness:
  "raftLog_slice_store (\<lambda>_. 4) 8 ex_long 1 6 noLimit =
     Inr (Inr [ex_ent 1 1, ex_ent 2 1, ex_ent 3 1, ex_ent 4 2, ex_ent 5 2], rl_storage ex_long)"
proof -
  have "raftLog_slice (\<lambda>_. 4) ex_long 1 6 noLimit = Inr (Inr [ex_ent 1 1, ex_ent 2 1, ex_ent 3 1, ex_ent 4 2, ex_ent 5 2])"
    by code_simp
  then show ?thesis using slice_keeps_storage [OF ex_long_ok, of "\<lambda>_. 4" 8 1 6] by simp
qed


end
