(* ===== verification/RaftDefects.thy ===== *)
theory RaftDefects
  imports RaftStable
begin

text \<open>
  What the safety properties of a group stop short of. Members do not agree on committed entries:
  a leader counts replicas of entries of earlier terms, and a follower gives way at its committed
  index. The run below is the classical one.
\<close>

definition ticks :: "u64 \<Rightarrow> action list" where
  "ticks n = [Local n (EvTick 0), Local n (EvTick 0)]"

definition propose :: "u64 \<Rightarrow> byte \<Rightarrow> action" where
  "propose n d = Local n (EvProp \<lparr>pu_Type = EntryNormal, pu_Data = [d]\<rparr>)"

text \<open>Member 1 leads and appends an entry that stays with it; member 3 leads and does the same;
  member 1 leads again, replicates its entry to member 2 and both commit it; member 3 leads again, replicates its
  own entry over it and commits that.\<close>

definition trio_diverge :: "action list" where
  "trio_diverge =
     ticks 1 @ [Deliver 2 1 0, Deliver 1 2 0, propose 1 7] @
     ticks 3 @ ticks 3 @ [Deliver 2 3 3, Deliver 3 2 1, propose 3 9, Local 3 (EvTick 0)] @
     [Deliver 1 3 8] @ ticks 1 @ [Deliver 2 1 7, Deliver 1 2 2, Deliver 2 1 9, Deliver 1 2 3, Deliver 2 1 11, Deliver 1 2 4,
      Deliver 2 1 12, Deliver 1 2 5, Local 1 (EvTick 0), Deliver 2 1 14, Deliver 3 1 15] @
     ticks 3 @ [Deliver 2 3 12, Deliver 3 2 7, Deliver 2 3 14, Deliver 3 2 8, Deliver 2 3 15, Deliver 3 2 9]"

lemma trio_diverged:
  "\<exists>C. group_run trio_size [1, 2, 3] trio_diverge trio = Some C \<and>
     rl_committed (r_logs (lp_raft (C 1))) = 4 \<and> rl_committed (r_logs (lp_raft (C 3))) = 4 \<and>
     map ent_Data (drop 4 (rl_view (r_logs (lp_raft (C 1))))) = [[7]] \<and>
     map ent_Data (drop 4 (rl_view (r_logs (lp_raft (C 3))))) = [[9]]"
proof -
  have "(case group_run trio_size [1, 2, 3] trio_diverge trio of None \<Rightarrow> False | Some C \<Rightarrow>
     rl_committed (r_logs (lp_raft (C 1))) = 4 \<and> rl_committed (r_logs (lp_raft (C 3))) = 4 \<and>
     map ent_Data (drop 4 (rl_view (r_logs (lp_raft (C 1))))) = [[7]] \<and>
     map ent_Data (drop 4 (rl_view (r_logs (lp_raft (C 3))))) = [[9]])"
    by code_simp
  then show ?thesis by (simp split: option.splits)
qed

text \<open>C9: Members can commit different entries at the same index: a group of three that is started afresh
  reaches, without any failure but late messages, a state where members 1 and 3 have both committed the entry at index 4
  and the two entries differ.\<close>

theorem committed_entries_disagree:
  "\<exists>C. (group_step trio_size (set [1, 2, 3]))\<^sup>*\<^sup>* trio C \<and>
     rl_committed (r_logs (lp_raft (C 1))) = 4 \<and> rl_committed (r_logs (lp_raft (C 3))) = 4 \<and>
     map ent_Data (drop 4 (rl_view (r_logs (lp_raft (C 1))))) = [[7]] \<and>
     map ent_Data (drop 4 (rl_view (r_logs (lp_raft (C 3))))) = [[9]]"
proof -
  obtain C where C: "group_run trio_size [1, 2, 3] trio_diverge trio = Some C"
    "rl_committed (r_logs (lp_raft (C 1))) = 4 \<and> rl_committed (r_logs (lp_raft (C 3))) = 4 \<and>
     map ent_Data (drop 4 (rl_view (r_logs (lp_raft (C 1))))) = [[7]] \<and>
     map ent_Data (drop 4 (rl_view (r_logs (lp_raft (C 3))))) = [[9]]"
    using trio_diverged by (elim exE conjE) simp
  show ?thesis using group_run_steps [OF C(1)] C(2) by (intro exI [of _ C] conjI) simp_all
qed

end
