(* ===== verification/RaftRestart.thy ===== *)
theory RaftRestart
  imports RaftStable
begin

text \<open>
  Restarting an instance from its storage. What an application has saved with \<open>SetMeta\<close> and what the storage holds of
  the log comes back; nothing in \<open>raft.go\<close> calls \<open>SetMeta\<close>, and an instance that is restarted without it
  votes a second time in a term.
\<close>

section \<open>What comes back\<close>

lemma NewRaft_total:
  assumes "cfg_Id cfg \<noteq> 0" "cfg_Storage cfg = Some st" "cfg_Inc cfg" "cfg_Outc cfg" "storage_inv st"
  shows "\<exists>r. NewRaft cfg = Inr (Inr r) \<and> r_id r = cfg_Id cfg \<and> \<not> r_stoppedc r \<and> r_peers r = [] \<and> r_electionTimeout r \<noteq> 0 \<and>
    raftLog_inv (r_logs r) \<and> rl_view (r_logs r) = ms_logs st \<and> rl_storage (r_logs r) = st \<and>
    unat (rl_applied (r_logs r)) = log_base (ms_logs st) \<and> u_snapshot (rl_unstable (r_logs r)) = None"
proof -
  obtain rl where rl: "newRaftLog st = Inr rl" "raftLog_inv rl" "rl_view rl = ms_logs st" "rl_storage rl = st"
    "unat (rl_committed rl) = log_base (ms_logs st)" "rl_applied rl = rl_committed rl"
    using newRaftLog_view [OF assms(5)] by blast
  have "u_snapshot (rl_unstable rl) = None" using rl(1) by (auto simp: newRaftLog_def)
  then show ?thesis
    using assms(1-4) rl by (simp add: NewRaft_def RaftConfig_checkAndInitDefault_def Let_def DefaultElectionTick_def)
qed

lemma raft_addNodes_total:
  assumes "raftLog_wf (r_logs r)"
  shows "\<exists>r'. raft_addNodes r ps = Inr r' \<and> same_node r r' \<and> r_logs r' = r_logs r \<and> r_outc r' = r_outc r \<and>
    set (keys (r_peers r')) = set (keys (r_peers r)) \<union> set ps"
  using assms
proof (induction ps arbitrary: r)
  case (Cons p ps)
  obtain l where l: "raftLog_lastIndex (r_logs r) = Inr l" using raftLog_lastIndex_total [OF Cons.prems] by blast
  obtain r1 where r1: "raft_addNode r p = Inr r1" "same_node r r1" "r_logs r1 = r_logs r" "r_outc r1 = r_outc r"
    "set (keys (r_peers r1)) = insert p (set (keys (r_peers r)))"
    using l by (cases "map_of (r_peers r) p") (auto simp: raft_addNode_def same_node_def keys_update dest: map_of_in_keys)
  then show ?case using Cons.IH [of r1] Cons.prems same_node_trans by auto
qed simp

text \<open>C17: An instance restarts where it stopped, if its storage was told where that was: created and restarted on a storage
  whose metadata was set, it is a follower in the saved term (or in term 1, if 0 was saved)
  with the saved vote and commit index, with the stored log, and with the nodes of the snapshot's configuration, if it has one, as its peers. The saved commit index is
  taken over without a test: the instance is fit to run if and only if it lies between the index of the snapshot and the last
  index of the stored log.\<close>

theorem restart_resumes:
  assumes "storage_inv st" "cfg_Storage cfg = Some (InMemStorage_SetMeta st m)" "cfg_Id cfg \<noteq> 0" "cfg_Inc cfg" "cfg_Outc cfg"
  shows "\<exists>r0 r. NewRaft cfg = Inr (Inr r0) \<and> raft_Restart r0 = Inr (None, r) \<and> r_id r = cfg_Id cfg \<and>
    r_state r = StateFollower \<and> r_Term r = max (meta_Term m) 1 \<and> r_Vote r = meta_Vote m \<and> r_Commit r = meta_Commit m \<and>
    rl_committed (r_logs r) = meta_Commit m \<and> rl_view (r_logs r) = ms_logs st \<and>
    set (keys (r_peers r)) = (case snap_Conf (ms_snapshot st) of None \<Rightarrow> {} | Some c \<Rightarrow> set (conf_Nodes c)) \<and>
    (node_ok r \<longleftrightarrow> log_base (ms_logs st) \<le> unat (meta_Commit m) \<and> unat (meta_Commit m) \<le> log_last (ms_logs st))"
proof -
  let ?st = "InMemStorage_SetMeta st m"
  define ns where "ns = (case snap_Conf (ms_snapshot st) of None \<Rightarrow> [] | Some c \<Rightarrow> conf_Nodes c)"
  have st: "storage_inv ?st" "ms_logs ?st = ms_logs st" "ms_meta ?st = m" "ms_snapshot ?st = ms_snapshot st"
    using assms(1) by (simp_all add: InMemStorage_SetMeta_def storage_inv_def)
  obtain r0 where r0: "NewRaft cfg = Inr (Inr r0)" "r_id r0 = cfg_Id cfg" "\<not> r_stoppedc r0" "r_peers r0 = []"
    "r_electionTimeout r0 \<noteq> 0" "raftLog_inv (r_logs r0)" "rl_view (r_logs r0) = ms_logs st" "rl_storage (r_logs r0) = ?st"
    "unat (rl_applied (r_logs r0)) = log_base (ms_logs st)" "u_snapshot (rl_unstable (r_logs r0)) = None"
    using NewRaft_total [OF assms(3,2,4,5) st(1)] st(2) by auto
  define r2 where "r2 = raft_loadMeta (r0\<lparr>r_stoppedc := True\<rparr>) m"
  have view: "rl_view (r_logs r2) = ms_logs st" using r0(7,10) by (simp add: r2_def raft_loadMeta_def rl_view_def)
  have wf: "raftLog_wf (r_logs r2)" using r0(6,10) by (simp add: r2_def raft_loadMeta_def raftLog_inv_def raftLog_wf_def)
  have inv: "raftLog_inv (r_logs r2) \<longleftrightarrow>
      log_base (ms_logs st) \<le> unat (meta_Commit m) \<and> unat (meta_Commit m) \<le> log_last (ms_logs st)"
    using r0(9,10) wf view by (simp add: raftLog_inv_def pending_ok_def) (auto simp: r2_def raft_loadMeta_def word_le_nat_alt)
  obtain r3 where r3: "raft_addNodes r2 ns = Inr r3" "same_node r2 r3" "r_logs r3 = r_logs r2"
    "set (keys (r_peers r3)) = set (keys (r_peers r2)) \<union> set ns"
    using raft_addNodes_total [OF wf] by blast
  have r2f: "r_Term r2 = max (meta_Term m) 1" "r_Vote r2 = meta_Vote m" "r_Commit r2 = meta_Commit m" "r_id r2 = cfg_Id cfg"
    "rl_committed (r_logs r2) = meta_Commit m" "r_peers r2 = []" "r_electionTimeout r2 \<noteq> 0"
    using r0 by (simp_all add: r2_def raft_loadMeta_def)
  obtain r where r: "raft_becomeFollower r3 (r_Term r3) NoneId = Inr r"
    using raft_reset_total [of "r3\<lparr>r_state := StateFollower\<rparr>" "r_Term r3"] r3(3) wf by (auto simp: raft_becomeFollower_def)
  note F = raft_becomeFollower_fields [OF r]
  have "r_electionTimeout r \<noteq> 0" using r r3(2) r2f(7) by (auto simp: raft_becomeFollower_def raft_reset_config same_node_def)
  then have "node_ok r \<longleftrightarrow> raftLog_inv (r_logs r2)" using F r3 r2f by (simp add: node_ok_def same_node_def)
  moreover have "raft_Restart r0 = Inr (None, r)"
    using r0(3,8) st r3(1) r
    by (cases "snap_Conf (ms_snapshot st)") (simp_all add: raft_Restart_def raft_prelude_def InMemStorage_InitialState_def Let_def r2_def ns_def)
  moreover have "set (keys (r_peers r)) = set ns" using raft_becomeFollower_keys [OF r] r3(4) r2f(6) by simp
  moreover have "set ns = (case snap_Conf (ms_snapshot st) of None \<Rightarrow> {} | Some c \<Rightarrow> set (conf_Nodes c))"
    by (simp add: ns_def split: option.splits)
  ultimately show ?thesis using r0(1) F r3 r2f view inv by (intro exI [of _ r0] exI [of _ r]) (simp add: same_node_def)
qed

section \<open>An example\<close>

text \<open>A storage with a snapshot of three members, and instance 2 on it.\<close>

definition conf_storage :: InMemStorage where
  "conf_storage = InMemStorage_ApplySnapshot NewInMemStorage
     \<lparr>snap_Conf = Some \<lparr>conf_Nodes = [1, 2, 3]\<rparr>, snap_Index = 5, snap_Term = 1, snap_Data = []\<rparr>"

definition boot_cfg :: "InMemStorage \<Rightarrow> RaftConfig" where
  "boot_cfg st = \<lparr>cfg_Id = 2, cfg_Storage = Some st, cfg_Tickc = True, cfg_Inc = True, cfg_Outc = True,
     cfg_HeartbeatTick = 1, cfg_ElectionTick = 1, cfg_MaxSizePerMsg = noLimit\<rparr>"

theorem restart_resumes_witness:
  "\<exists>r0 r. NewRaft (boot_cfg (InMemStorage_SetMeta conf_storage \<lparr>meta_Term = 4, meta_Vote = 3, meta_Commit = 5\<rparr>)) = Inr (Inr r0) \<and>
     raft_Restart r0 = Inr (None, r) \<and> r_Term r = 4 \<and> r_Vote r = 3 \<and> node_ok r \<and> set (keys (r_peers r)) = {1, 2, 3}"
proof -
  let ?m = "\<lparr>meta_Term = 4, meta_Vote = 3, meta_Commit = 5\<rparr>"
  have logs: "ms_logs conf_storage = [zero_Entry\<lparr>ent_Index := 5, ent_Term := 1\<rparr>]"
    "snap_Conf (ms_snapshot conf_storage) = Some \<lparr>conf_Nodes = [1, 2, 3]\<rparr>"
    by (simp_all add: conf_storage_def InMemStorage_ApplySnapshot_def)
  have "storage_inv conf_storage" "log_base (ms_logs conf_storage) = 5" "log_last (ms_logs conf_storage) = 5"
    by (simp_all add: storage_inv_def logs log_ok_def log_last_def log_base_def)
  then show ?thesis
    using restart_resumes [of conf_storage "boot_cfg (InMemStorage_SetMeta conf_storage ?m)" ?m] logs(2)
    by (auto simp: boot_cfg_def)
qed

section \<open>What is lost\<close>

definition boot :: "InMemStorage \<Rightarrow> raft option" where
  "boot st = (case NewRaft (boot_cfg st) of
      Inr (Inr r) \<Rightarrow> (case raft_Restart r of Inr (None, r') \<Rightarrow> Some r' | _ \<Rightarrow> None)
    | _ \<Rightarrow> None)"

definition vote_request :: "u64 \<Rightarrow> Message" where
  "vote_request n = zero_Message\<lparr>msg_Type := MsgVote, msg_From := n, msg_To := 2, msg_Term := 2, msg_PrevIndex := 5, msg_PrevTerm := 1\<rparr>"

definition granted :: "raft \<Rightarrow> u64 \<Rightarrow> bool" where
  "granted r n \<longleftrightarrow> list_ex (\<lambda>m. msg_Type m = MsgVoteResp \<and> \<not> msg_Reject m \<and> msg_To m = n \<and> msg_Term m = 2) (r_outc r)"

definition vote_twice :: bool where
  "vote_twice =
     (case boot conf_storage of None \<Rightarrow> False | Some r1 \<Rightarrow>
      (case raft_onMsg trio_size r1 (vote_request 1) of Inl _ \<Rightarrow> False | Inr r1' \<Rightarrow>
       (case boot (rl_storage (r_logs r1')) of None \<Rightarrow> False | Some r2 \<Rightarrow>
        (case raft_onMsg trio_size r2 (vote_request 3) of Inl _ \<Rightarrow> False | Inr r2' \<Rightarrow>
          granted r1' 1 \<and> granted r2' 3))))"

text \<open>C18: The code does not save the term and the vote itself: an instance that grants its vote to node 1, stops, and
  restarts on its own storage grants its vote in the same term to node 3 as well.\<close>

theorem restart_votes_twice:
  "\<exists>r1 r1' r2 r2'. boot conf_storage = Some r1 \<and> raft_onMsg trio_size r1 (vote_request 1) = Inr r1' \<and> granted r1' 1 \<and>
     boot (rl_storage (r_logs r1')) = Some r2 \<and> raft_onMsg trio_size r2 (vote_request 3) = Inr r2' \<and> granted r2' 3"
proof -
  have V: vote_twice by code_simp
  obtain r1 where r1: "boot conf_storage = Some r1"
    using V by (cases "boot conf_storage") (simp_all add: vote_twice_def)
  obtain r1' where r1': "raft_onMsg trio_size r1 (vote_request 1) = Inr r1'"
    using V r1 by (cases "raft_onMsg trio_size r1 (vote_request 1)") (simp_all add: vote_twice_def)
  obtain r2 where r2: "boot (rl_storage (r_logs r1')) = Some r2"
    using V r1 r1' by (cases "boot (rl_storage (r_logs r1'))") (simp_all add: vote_twice_def)
  obtain r2' where r2': "raft_onMsg trio_size r2 (vote_request 3) = Inr r2'"
    using V r1 r1' r2 by (cases "raft_onMsg trio_size r2 (vote_request 3)") (simp_all add: vote_twice_def)
  show ?thesis using V r1 r1' r2 r2' by (simp add: vote_twice_def)
qed

end
