(* ===== verification/Hub.thy ===== *)
theory Hub
  imports RaftPb Complex_Main
begin

text \<open>
  \<open>src/rafts/simulation/hub.go\<close>: a simulated network between instances. A channel is named by a number;
  what \<open>reflect.Select\<close> chose and received, and the random numbers, are arguments. A message that was received is in
  the hands of its own goroutine (\<open>h_transit\<close>) until it is dropped or handed over. \<open>h_loop\<close> is the goroutine of \<open>Run\<close>.
  The rates are rational numbers for \<open>float32\<close>.
\<close>

datatype transit = Arrived Message | Sending Message

record Hub =
  h_running :: bool
  h_ins :: "(nat \<times> u64) list"
  h_incases :: "nat option list"
  h_outs :: "(u64 \<times> nat) list"
  h_real :: bool
  h_droprate :: rat
  h_delayrate :: rat
  h_maxdelay :: int
  h_silent :: bool
  h_loop :: bool
  h_transit :: "transit list"

definition NewHub :: "bool \<Rightarrow> bool \<Rightarrow> Hub" where
  "NewHub rl silent = \<lparr>h_running = False, h_ins = [], h_incases = [], h_outs = [], h_real = rl, h_droprate = 1 / 10,
     h_delayrate = 3 / 10, h_maxdelay = 200, h_silent = silent, h_loop = False, h_transit = []\<rparr>"

definition Hub_SetRealArgs :: "Hub \<Rightarrow> rat \<Rightarrow> rat \<Rightarrow> int \<Rightarrow> bool \<times> Hub" where
  "Hub_SetRealArgs h delayrate droprate maxdelay =
     (if h_running h then (False, h)
      else (True, h\<lparr>h_delayrate := delayrate, h_droprate := droprate, h_maxdelay := maxdelay\<rparr>))"

text \<open>\<open>Register\<close>: \<open>out\<close> is the channel the hub sends to, \<open>inn\<close> the one it receives from.\<close>

definition Hub_Register :: "Hub \<Rightarrow> u64 \<Rightarrow> nat \<Rightarrow> nat \<Rightarrow> Hub" where
  "Hub_Register h nid out inn =
     (let cases = h_incases h @ [Some inn] in
      h\<lparr>h_incases := cases, h_ins := AList.update (length cases - 1) nid (h_ins h), h_outs := AList.update nid out (h_outs h)\<rparr>)"

definition Hub_Run :: "Hub \<Rightarrow> Hub" where
  "Hub_Run h = h\<lparr>h_running := True, h_loop := True\<rparr>"

text \<open>The \<open>default\<close> branch of the loop, when \<open>reflect.Select\<close> yields case \<open>ch\<close> with a message, or with \<open>None\<close> for a closed
  channel. \<open>Select\<close> ignores cases without a channel. The result is \<open>None\<close> when it cannot yield this.\<close>

definition Hub_receive :: "Hub \<Rightarrow> nat \<Rightarrow> Message option \<Rightarrow> Hub option" where
  "Hub_receive h ch val =
     (if \<not> h_loop h \<or> length (h_incases h) \<le> ch \<or> h_incases h ! ch = None then None
      else case map_of (h_ins h) ch of
        None \<Rightarrow> Some (h\<lparr>h_loop := False\<rparr>)
      | Some nid \<Rightarrow>
          (case val of
             None \<Rightarrow> Some (h\<lparr>h_ins := AList.delete ch (h_ins h), h_incases := (h_incases h)[ch := None],
                            h_outs := AList.delete nid (h_outs h)\<rparr>)
           | Some msg \<Rightarrow> Some (h\<lparr>h_transit := h_transit h @ [Arrived msg]\<rparr>)))"

text \<open>What the goroutine of a message decides: \<open>None\<close> drops it. \<open>rand.Intn\<close> panics unless its argument is positive.\<close>

definition Hub_decide :: "Hub \<Rightarrow> rat \<Rightarrow> rat \<Rightarrow> bool go" where
  "Hub_decide h rdrop rdelay =
     (if h_real h then
        if rdrop < h_droprate h then Inr False
        else if rdelay < h_delayrate h then (if h_maxdelay h \<le> 0 then Inl PanicCall else Inr True)
        else Inr True
      else Inr True)"

text \<open>The goroutine \<open>i\<close> runs up to its send; the result says what was dropped.\<close>

definition Hub_transmit :: "Hub \<Rightarrow> nat \<Rightarrow> rat \<Rightarrow> rat \<Rightarrow> (Message option \<times> Hub) go" where
  "Hub_transmit h i rdrop rdelay =
     (if i < length (h_transit h) then
        case h_transit h ! i of
          Arrived msg \<Rightarrow>
            go_bind (Hub_decide h rdrop rdelay) (\<lambda>send.
              if send then Inr (None, h\<lparr>h_transit := (h_transit h)[i := Sending msg]\<rparr>)
              else Inr (Some msg, h\<lparr>h_transit := take i (h_transit h) @ drop (Suc i) (h_transit h)\<rparr>))
        | Sending msg \<Rightarrow> Inr (None, h)
      else Inr (None, h))"

text \<open>The send \<open>h.outs[msg.To] <- msg\<close> of goroutine \<open>i\<close>; on a missing channel it blocks for ever.\<close>

definition Hub_deliver :: "Hub \<Rightarrow> nat \<Rightarrow> (nat \<times> Message \<times> Hub) option" where
  "Hub_deliver h i =
     (if i < length (h_transit h) then
        case h_transit h ! i of
          Arrived msg \<Rightarrow> None
        | Sending msg \<Rightarrow>
            (case map_of (h_outs h) (msg_To msg) of
               None \<Rightarrow> None
             | Some c \<Rightarrow> Some (c, msg, h\<lparr>h_transit := take i (h_transit h) @ drop (Suc i) (h_transit h)\<rparr>))
      else None)"

text \<open>\<open>Stop\<close> hands its signal to the loop between two rounds.\<close>

definition Hub_Stop :: "Hub \<Rightarrow> Hub" where
  "Hub_Stop h = h\<lparr>h_loop := False, h_running := False\<rparr>"

section \<open>Runs of a hub\<close>

text \<open>The history of a hub: what was registered, received, dropped and handed over. An event that is not possible changes
  nothing.\<close>

record hub_log =
  hl_registered :: "(u64 \<times> nat) list"
  hl_received :: "Message list"
  hl_dropped :: "Message list"
  hl_delivered :: "(nat \<times> Message) list"

datatype hub_event =
  HRegister u64 nat nat | HSetRealArgs rat rat int | HRun | HReceive nat "Message option" | HTransmit nat rat rat | HDeliver nat | HStop

fun hub_do :: "hub_event \<Rightarrow> Hub \<times> hub_log \<Rightarrow> (Hub \<times> hub_log) go" where
  "hub_do (HRegister nid out inn) (h, l) = Inr (Hub_Register h nid out inn, l\<lparr>hl_registered := hl_registered l @ [(nid, out)]\<rparr>)"
| "hub_do (HSetRealArgs dl dr mx) (h, l) = Inr (snd (Hub_SetRealArgs h dl dr mx), l)"
| "hub_do HRun (h, l) = Inr (Hub_Run h, l)"
| "hub_do (HReceive ch val) (h, l) =
     (case Hub_receive h ch val of
        None \<Rightarrow> Inr (h, l)
      | Some h' \<Rightarrow> Inr (h', if map_of (h_ins h) ch = None then l else l\<lparr>hl_received := hl_received l @ (case val of None \<Rightarrow> [] | Some m \<Rightarrow> [m])\<rparr>))"
| "hub_do (HTransmit i dr dl) (h, l) =
     go_bind (Hub_transmit h i dr dl) (\<lambda>(d, h').
       Inr (h', l\<lparr>hl_dropped := hl_dropped l @ (case d of None \<Rightarrow> [] | Some m \<Rightarrow> [m])\<rparr>))"
| "hub_do (HDeliver i) (h, l) =
     (case Hub_deliver h i of
        None \<Rightarrow> Inr (h, l)
      | Some (c, m, h') \<Rightarrow> Inr (h', l\<lparr>hl_delivered := hl_delivered l @ [(c, m)]\<rparr>))"
| "hub_do HStop (h, l) = Inr (Hub_Stop h, l)"

fun hub_run :: "hub_event list \<Rightarrow> Hub \<times> hub_log \<Rightarrow> (Hub \<times> hub_log) go" where
  "hub_run [] s = Inr s"
| "hub_run (e # es) s = go_bind (hub_do e s) (hub_run es)"

definition empty_log :: hub_log where
  "empty_log = \<lparr>hl_registered = [], hl_received = [], hl_dropped = [], hl_delivered = []\<rparr>"

section \<open>No message is invented, duplicated or misdelivered\<close>

fun transit_msg :: "transit \<Rightarrow> Message" where
  "transit_msg (Arrived m) = m"
| "transit_msg (Sending m) = m"

definition hub_inv :: "Hub \<times> hub_log \<Rightarrow> bool" where
  "hub_inv s \<longleftrightarrow> (case s of (h, l) \<Rightarrow>
     mset (hl_received l) = mset (hl_dropped l) + mset (map snd (hl_delivered l)) + mset (map transit_msg (h_transit h)) \<and>
     (\<not> h_real h \<longrightarrow> hl_dropped l = []) \<and>
     (\<forall>n c. map_of (h_outs h) n = Some c \<longrightarrow> (n, c) \<in> set (hl_registered l)) \<and>
     (\<forall>c m. (c, m) \<in> set (hl_delivered l) \<longrightarrow> (msg_To m, c) \<in> set (hl_registered l)))"

lemma mset_remove_nth:
  assumes "i < length xs"
  shows "mset (map f xs) = add_mset (f (xs ! i)) (mset (map f (take i xs @ drop (Suc i) xs)))"
proof -
  have "mset (map f (take i xs @ xs ! i # drop (Suc i) xs)) = add_mset (f (xs ! i)) (mset (map f (take i xs @ drop (Suc i) xs)))"
    by simp
  then show ?thesis by (simp only: id_take_nth_drop [OF assms, symmetric])
qed

lemma mset_update_nth:
  "i < length xs \<Longrightarrow> f y = f (xs ! i) \<Longrightarrow> mset (map f (xs[i := y])) = mset (map f xs)"
  by (metis list_update_id map_update)

lemma hub_inv_intro:
  assumes "hub_inv (h, l)" "hl_registered l' = hl_registered l" "h_real h' = h_real h"
    "\<And>n c. map_of (h_outs h') n = Some c \<Longrightarrow> map_of (h_outs h) n = Some c"
    "mset (hl_received l') = mset (hl_dropped l') + mset (map snd (hl_delivered l')) + mset (map transit_msg (h_transit h'))"
    "\<not> h_real h \<Longrightarrow> hl_dropped l = [] \<Longrightarrow> hl_dropped l' = []"
    "\<And>c m. (c, m) \<in> set (hl_delivered l') \<Longrightarrow> (c, m) \<in> set (hl_delivered l) \<or> map_of (h_outs h) (msg_To m) = Some c"
  shows "hub_inv (h', l')"
  using assms unfolding hub_inv_def prod.case by (intro conjI) (simp, simp, metis, metis)

lemma hub_receive_inv:
  assumes "hub_inv (h, l)" "Hub_receive h ch val = Some h'"
  shows "hub_inv (h', if map_of (h_ins h) ch = None then l else l\<lparr>hl_received := hl_received l @ (case val of None \<Rightarrow> [] | Some m \<Rightarrow> [m])\<rparr>)"
proof (rule hub_inv_intro [OF assms(1)])
  have bal: "mset (hl_received l) = mset (hl_dropped l) + mset (map snd (hl_delivered l)) + mset (map transit_msg (h_transit h))"
    using assms(1) by (simp add: hub_inv_def)
  let ?l = "if map_of (h_ins h) ch = None then l else l\<lparr>hl_received := hl_received l @ (case val of None \<Rightarrow> [] | Some m \<Rightarrow> [m])\<rparr>"
  show "mset (hl_received ?l) = mset (hl_dropped ?l) + mset (map snd (hl_delivered ?l)) + mset (map transit_msg (h_transit h'))"
    using assms(2) bal by (simp add: Hub_receive_def split: if_splits option.splits) (auto simp: Hub_receive_def)
qed (use assms(2) in \<open>auto simp: Hub_receive_def delete_conv' split: if_splits option.splits\<close>)

lemma hub_transmit_inv:
  assumes "hub_inv (h, l)" "Hub_transmit h i dr dl = Inr (d, h')"
  shows "hub_inv (h', l\<lparr>hl_dropped := hl_dropped l @ (case d of None \<Rightarrow> [] | Some m \<Rightarrow> [m])\<rparr>)"
proof (cases "i < length (h_transit h) \<and> (\<exists>m. h_transit h ! i = Arrived m)")
  case True
  then obtain m where m: "i < length (h_transit h)" "h_transit h ! i = Arrived m" by blast
  obtain b where b: "Hub_decide h dr dl = Inr b" using assms(2) m by (auto simp: Hub_transmit_def)
  have real: "\<not> b \<Longrightarrow> h_real h" using b by (simp add: Hub_decide_def split: if_splits)
  have bal: "mset (hl_received l) = mset (hl_dropped l) + mset (map snd (hl_delivered l)) + mset (map transit_msg (h_transit h))"
    using assms(1) by (simp add: hub_inv_def)
  have R: "if b then d = None \<and> h' = h\<lparr>h_transit := (h_transit h)[i := Sending m]\<rparr>
      else d = Some m \<and> h' = h\<lparr>h_transit := take i (h_transit h) @ drop (Suc i) (h_transit h)\<rparr>"
    using assms(2) m b by (simp add: Hub_transmit_def split: if_splits)
  show ?thesis
  proof (rule hub_inv_intro [OF assms(1)])
    show "mset (hl_received (l\<lparr>hl_dropped := hl_dropped l @ (case d of None \<Rightarrow> [] | Some m \<Rightarrow> [m])\<rparr>)) =
      mset (hl_dropped (l\<lparr>hl_dropped := hl_dropped l @ (case d of None \<Rightarrow> [] | Some m \<Rightarrow> [m])\<rparr>)) +
      mset (map snd (hl_delivered (l\<lparr>hl_dropped := hl_dropped l @ (case d of None \<Rightarrow> [] | Some m \<Rightarrow> [m])\<rparr>))) +
      mset (map transit_msg (h_transit h'))"
      using bal R mset_update_nth [OF m(1), of transit_msg "Sending m"] mset_remove_nth [OF m(1), of transit_msg] m(2)
      by (cases b) simp_all
  qed (use R real in \<open>auto split: if_splits\<close>)
next
  case False
  then have "d = None" "h' = h" using assms(2) by (auto simp: Hub_transmit_def split: if_splits transit.splits)
  then show ?thesis using assms(1) by (simp add: hub_inv_def)
qed

lemma hub_deliver_inv:
  assumes "hub_inv (h, l)" "Hub_deliver h i = Some (c, m, h')"
  shows "hub_inv (h', l\<lparr>hl_delivered := hl_delivered l @ [(c, m)]\<rparr>)"
proof -
  have D: "i < length (h_transit h)" "h_transit h ! i = Sending m" "map_of (h_outs h) (msg_To m) = Some c"
    "h' = h\<lparr>h_transit := take i (h_transit h) @ drop (Suc i) (h_transit h)\<rparr>"
    using assms(2) by (auto simp: Hub_deliver_def split: if_splits transit.splits option.splits)
  show ?thesis
  proof (rule hub_inv_intro [OF assms(1)])
    show "mset (hl_received (l\<lparr>hl_delivered := hl_delivered l @ [(c, m)]\<rparr>)) =
      mset (hl_dropped (l\<lparr>hl_delivered := hl_delivered l @ [(c, m)]\<rparr>)) +
      mset (map snd (hl_delivered (l\<lparr>hl_delivered := hl_delivered l @ [(c, m)]\<rparr>))) + mset (map transit_msg (h_transit h'))"
      using assms(1) D mset_remove_nth [OF D(1), of transit_msg] by (simp add: hub_inv_def)
  qed (use D in auto)
qed

lemma hub_do_inv:
  assumes "hub_do e (h, l) = Inr s'" "hub_inv (h, l)"
  shows "hub_inv s'"
proof (cases e)
  case (HRegister nid out inn)
  then show ?thesis using assms by (auto simp: hub_inv_def Hub_Register_def Let_def update_conv' split: if_splits)
next
  case (HSetRealArgs dl dr mx)
  then show ?thesis using assms by (cases "h_running h") (auto simp: hub_inv_def Hub_SetRealArgs_def)
next
  case (HReceive ch val)
  then show ?thesis using assms hub_receive_inv [OF assms(2), of ch val] by (cases "Hub_receive h ch val") auto
next
  case (HTransmit i dr dl)
  then show ?thesis using assms hub_transmit_inv [OF assms(2), of i dr dl] by auto
next
  case (HDeliver i)
  then show ?thesis using assms hub_deliver_inv [OF assms(2), of i] by (cases "Hub_deliver h i") auto
qed (use assms in \<open>auto simp: hub_inv_def Hub_Run_def Hub_Stop_def\<close>)

lemma hub_run_inv: "hub_run es s = Inr s' \<Longrightarrow> hub_inv s \<Longrightarrow> hub_inv s'"
proof (induction es arbitrary: s)
  case (Cons e es)
  then obtain s1 where "hub_do e s = Inr s1" "hub_run es s1 = Inr s'" by auto
  then show ?case using Cons hub_do_inv by (metis surj_pair)
qed simp

text \<open>C37: The simulated network neither invents nor duplicates messages and never misdelivers: in every run of a hub, whatever is
  received, delayed and dropped and in whatever order the goroutines run, the messages received are exactly those dropped, those
  handed over and those still in transit, with multiplicities; a hub that does not simulate a real network
  drops none; and every message was handed to a channel that was registered for its addressee.\<close>

theorem hub_conserves:
  assumes "hub_run es (NewHub rl silent, empty_log) = Inr (h, l)"
  shows "mset (hl_received l) = mset (hl_dropped l) + mset (map snd (hl_delivered l)) + mset (map transit_msg (h_transit h)) \<and>
    (\<not> h_real h \<longrightarrow> hl_dropped l = []) \<and> (\<forall>c m. (c, m) \<in> set (hl_delivered l) \<longrightarrow> (msg_To m, c) \<in> set (hl_registered l))"
proof -
  have "hub_inv (NewHub rl silent, empty_log)" by (simp add: hub_inv_def NewHub_def empty_log_def)
  from hub_run_inv [OF assms this] show ?thesis by (simp add: hub_inv_def)
qed

theorem hub_conserves_witness:
  "\<exists>h l. hub_run [HRegister 1 10 11, HRegister 2 20 21, HRun, HReceive 0 (Some (zero_Message\<lparr>msg_To := 2\<rparr>)), HTransmit 0 (1/2) (1/5),
     HDeliver 0] (NewHub True False, empty_log) = Inr (h, l) \<and> hl_delivered l = [(20, zero_Message\<lparr>msg_To := 2\<rparr>)] \<and>
     hl_received l = [zero_Message\<lparr>msg_To := 2\<rparr>] \<and> mset (hl_received l) = mset (hl_dropped l) + mset (map snd (hl_delivered l)) + mset (map transit_msg (h_transit h))"
proof -
  let ?es = "[HRegister 1 10 11, HRegister 2 20 21, HRun, HReceive 0 (Some (zero_Message\<lparr>msg_To := 2\<rparr>)), HTransmit 0 (1/2) (1/5), HDeliver 0]"
  have "case hub_run ?es (NewHub True False, empty_log) of Inl _ \<Rightarrow> False
    | Inr (h, l) \<Rightarrow> hl_delivered l = [(20, zero_Message\<lparr>msg_To := 2\<rparr>)] \<and> hl_received l = [zero_Message\<lparr>msg_To := 2\<rparr>]" by code_simp
  then obtain h l where R: "hub_run ?es (NewHub True False, empty_log) = Inr (h, l)"
    "hl_delivered l = [(20, zero_Message\<lparr>msg_To := 2\<rparr>)]" "hl_received l = [zero_Message\<lparr>msg_To := 2\<rparr>]"
    by (auto split: sum.split_asm)
  from hub_conserves [OF R(1)] show ?thesis using R by blast
qed

end
