(* ===== verification/HubGroup.thy ===== *)
theory HubGroup
  imports Hub RaftStable
begin

text \<open>
  A group of instances connected by the simulated network, as \<open>raft_test.go\<close> sets them up: every member
  is registered with its own channels, the hub receives from a member's \<open>outc\<close> in order, and hands
  messages to a member's \<open>inc\<close>. Such a group is one of those of \<open>RaftCluster\<close>, whatever the hub drops or delays.
\<close>

section \<open>The system\<close>

text \<open>The names of a member's channels.\<close>

definition inc_of :: "u64 \<Rightarrow> nat" where
  "inc_of n = 2 * unat n"

definition outc_of :: "u64 \<Rightarrow> nat" where
  "outc_of n = 2 * unat n + 1"

record hub_sys =
  hs_group :: cluster
  hs_hub :: Hub
  hs_taken :: "u64 \<Rightarrow> nat"

fun hub_connect :: "u64 list \<Rightarrow> Hub \<Rightarrow> Hub" where
  "hub_connect [] h = h"
| "hub_connect (n # ns) h = hub_connect ns (Hub_Register h n (inc_of n) (outc_of n))"

definition hub_start :: "bool \<Rightarrow> u64 list \<Rightarrow> cluster \<Rightarrow> hub_sys" where
  "hub_start rl ns C = \<lparr>hs_group = C, hs_hub = Hub_Run (hub_connect ns (NewHub rl True)), hs_taken = (\<lambda>_. 0)\<rparr>"

text \<open>A step: an event of a member, the hub receiving a member's next message, the goroutine of a message deciding on it, or
  handing it to a member, which handles it.\<close>

inductive hub_step :: "(Entry \<Rightarrow> u64) \<Rightarrow> u64 set \<Rightarrow> hub_sys \<Rightarrow> hub_sys \<Rightarrow> bool" for sz N where
  hub_local: "n \<in> N \<Longrightarrow> local_event N ev \<Longrightarrow> term_room (hs_group S n) \<Longrightarrow> (\<And>k. k \<in> N \<Longrightarrow> log_room (hs_group S k)) \<Longrightarrow>
    mainLoop_step sz (hs_group S n) ev = Inr (Running lp) \<Longrightarrow> hub_step sz N S (S\<lparr>hs_group := (hs_group S)(n := lp)\<rparr>)"
| hub_receive: "n \<in> N \<Longrightarrow> ch < length (h_incases (hs_hub S)) \<Longrightarrow> h_incases (hs_hub S) ! ch = Some (outc_of n) \<Longrightarrow>
    hs_taken S n < length (r_outc (lp_raft (hs_group S n))) \<Longrightarrow>
    Hub_receive (hs_hub S) ch (Some (r_outc (lp_raft (hs_group S n)) ! hs_taken S n)) = Some h \<Longrightarrow>
    hub_step sz N S (S\<lparr>hs_hub := h, hs_taken := (hs_taken S)(n := Suc (hs_taken S n))\<rparr>)"
| hub_transmit: "Hub_transmit (hs_hub S) i r1 r2 = Inr (d, h) \<Longrightarrow> hub_step sz N S (S\<lparr>hs_hub := h\<rparr>)"
| hub_deliver: "Hub_deliver (hs_hub S) i = Some (c, m, h) \<Longrightarrow> n \<in> N \<Longrightarrow> c = inc_of n \<Longrightarrow> term_room (hs_group S n) \<Longrightarrow>
    (\<And>k. k \<in> N \<Longrightarrow> log_room (hs_group S k)) \<Longrightarrow>
    mainLoop_step sz (hs_group S n) (EvMsg m) = Inr (Running lp) \<Longrightarrow>
    hub_step sz N S (S\<lparr>hs_hub := h, hs_group := (hs_group S)(n := lp)\<rparr>)"

section \<open>Refinement\<close>

text \<open>Every channel the hub sends to is that of its node, and every message it carries was sent by a member.\<close>

definition hub_sys_inv :: "u64 set \<Rightarrow> hub_sys \<Rightarrow> bool" where
  "hub_sys_inv N S \<longleftrightarrow> (\<forall>n c. map_of (h_outs (hs_hub S)) n = Some c \<longrightarrow> c = inc_of n) \<and>
     (\<forall>t \<in> set (h_transit (hs_hub S)). transit_msg t \<in> cluster_net N (hs_group S))"

lemma inc_of_inj: "inc_of n = inc_of m \<longleftrightarrow> n = m"
  using u64_eq_iff [of n m] by (simp add: inc_of_def)

lemma hub_connect_inv:
  "(\<And>n c. map_of (h_outs h) n = Some c \<Longrightarrow> c = inc_of n) \<Longrightarrow> h_transit h = [] \<Longrightarrow>
   (\<forall>n c. map_of (h_outs (hub_connect ns h)) n = Some c \<longrightarrow> c = inc_of n) \<and> h_transit (hub_connect ns h) = []"
proof (induction ns arbitrary: h)
  case (Cons a ns)
  show ?case unfolding hub_connect.simps
    by (rule Cons.IH) (use Cons.prems in \<open>auto simp: Hub_Register_def Let_def update_conv' split: if_splits\<close>)
qed simp

lemma hub_start_inv: "hub_sys_inv N (hub_start rl ns C)"
  using hub_connect_inv [of "NewHub rl True" ns] by (simp add: hub_sys_inv_def hub_start_def Hub_Run_def NewHub_def)

text \<open>What a member has sent stays in its history.\<close>

lemma net_grows:
  assumes "rep E (lp_raft (C n)) (lp_raft lp)" "m \<in> cluster_net N C"
  shows "m \<in> cluster_net N (C(n := lp))"
proof -
  obtain k where k: "k \<in> N" "m \<in> set (r_outc (lp_raft (C k)))" using assms(2) by (auto simp: cluster_net_def)
  have "m \<in> set (r_outc (lp_raft ((C(n := lp)) k)))" using k(2) assms(1) by (cases "k = n") (auto simp: rep_def)
  then show ?thesis using k(1) unfolding cluster_net_def by blast
qed

lemma group_step_net:
  assumes "group_step sz N C C'" "group_inv N A C" "m \<in> cluster_net N C"
  shows "m \<in> cluster_net N C'"
proof -
  have st: "cluster_step sz N C C'" and room: "\<forall>n \<in> N. log_room (C n)" using assms(1) by (simp_all add: group_step_def)
  from st show ?thesis
  proof cases
    case (deliver n x lp)
    have "pay_ok UNIV x" using assms(2) deliver(3) by (simp add: group_inv_def)
    moreover have "raft_onMsg sz (lp_raft (C n)) x = Inr (lp_raft lp)" using deliver(6) by (auto simp: mainLoop_step_def)
    ultimately have "rep UNIV (lp_raft (C n)) (lp_raft lp)"
      using rep_onMsg [OF group_rep_refl [OF assms(2) deliver(2)]] by blast
    then show ?thesis using net_grows assms(3) deliver(1) by blast
  next
    case (local_ev n ev lp)
    note D = group_invD [OF assms(2) local_ev(2)]
    have "event_ok (lp_raft (C n)) ev"
      using room local_ev(2,3) log_room_last [OF D(3)] by (cases ev) (auto simp: event_ok_def)
    then have "rep UNIV (lp_raft (C n)) (lp_raft lp)"
      using rep_local [OF group_rep_refl [OF assms(2) local_ev(2)] local_ev(5,3) _ _ D(6)] D(4) by blast
    then show ?thesis using net_grows assms(3) local_ev(1) by blast
  qed
qed

lemma set_remove_nth: "set (take i xs @ drop (Suc i) xs) \<subseteq> set xs"
  by (auto dest: in_set_takeD in_set_dropD)

lemma hub_step_sim:
  assumes "hub_step sz N S S'" "hub_sys_inv N S" "group_inv N A (hs_group S)"
  shows "hub_sys_inv N S' \<and> (hs_group S' = hs_group S \<or> group_step sz N (hs_group S) (hs_group S'))"
  using assms(1)
proof cases
  case (hub_local n ev lp)
  have st: "group_step sz N (hs_group S) (hs_group S')"
    using hub_local cluster_step.local_ev by (auto simp: group_step_def)
  then show ?thesis using assms(2) group_step_net [OF st assms(3)] hub_local(1) by (auto simp: hub_sys_inv_def)
next
  case (hub_receive n ch h)
  let ?m = "r_outc (lp_raft (hs_group S n)) ! hs_taken S n"
  have m: "?m \<in> cluster_net N (hs_group S)" using hub_receive(2) nth_mem [OF hub_receive(5)] unfolding cluster_net_def by blast
  have h: "h_outs h = h_outs (hs_hub S) \<and> set (h_transit h) \<subseteq> insert (Arrived ?m) (set (h_transit (hs_hub S)))"
    using hub_receive(6) by (auto simp: Hub_receive_def split: if_splits option.splits)
  have "hub_sys_inv N S'" unfolding hub_sys_inv_def hub_receive(1)
    using assms(2) m h by (auto simp: hub_sys_inv_def)
  then show ?thesis using hub_receive(1) by simp
next
  case (hub_transmit i r1 r2 d h)
  have h: "h_outs h = h_outs (hs_hub S) \<and> transit_msg ` set (h_transit h) \<subseteq> transit_msg ` set (h_transit (hs_hub S))"
  proof (cases "i < length (h_transit (hs_hub S)) \<and> (\<exists>m. h_transit (hs_hub S) ! i = Arrived m)")
    case True
    then obtain m where m: "i < length (h_transit (hs_hub S))" "h_transit (hs_hub S) ! i = Arrived m" by blast
    have "m \<in> transit_msg ` set (h_transit (hs_hub S))" using m by (metis image_eqI nth_mem transit_msg.simps(1))
    then show ?thesis using hub_transmit(2) m
      by (auto simp: Hub_transmit_def split: if_splits dest!: set_update_subset_insert [THEN subsetD] in_set_takeD in_set_dropD)
  next
    case False
    then show ?thesis using hub_transmit(2) by (auto simp: Hub_transmit_def split: if_splits transit.splits)
  qed
  have "hub_sys_inv N S'" unfolding hub_sys_inv_def hub_transmit(1)
    using assms(2) h by (auto simp: hub_sys_inv_def)
  then show ?thesis using hub_transmit(1) by simp
next
  case (hub_deliver i c m h n lp)
  have D: "i < length (h_transit (hs_hub S))" "h_transit (hs_hub S) ! i = Sending m" "map_of (h_outs (hs_hub S)) (msg_To m) = Some c"
    "h_outs h = h_outs (hs_hub S)" "set (h_transit h) \<subseteq> set (h_transit (hs_hub S))"
    using hub_deliver(2) set_remove_nth [of i "h_transit (hs_hub S)"]
    by (auto simp: Hub_deliver_def split: if_splits transit.splits option.splits)
  have "m \<in> cluster_net N (hs_group S)" using assms(2) D(1,2) nth_mem [OF D(1)] by (force simp: hub_sys_inv_def)
  moreover have "inc_of n = inc_of (msg_To m)" using assms(2) D(3) hub_deliver(4) unfolding hub_sys_inv_def by blast
  then have "msg_To m = n" by (simp add: inc_of_inj)
  ultimately have st: "group_step sz N (hs_group S) (hs_group S')"
    using hub_deliver cluster_step.deliver by (auto simp: group_step_def)
  then show ?thesis using assms(2) group_step_net [OF st assms(3)] hub_deliver(1) D(4,5) by (auto simp: hub_sys_inv_def)
qed

lemma hub_steps_sim:
  assumes "(hub_step sz N)\<^sup>*\<^sup>* (hub_start rl ns C0) S" "group_init N C0"
  shows "hub_sys_inv N S \<and> (group_step sz N)\<^sup>*\<^sup>* C0 (hs_group S)"
  using assms(1)
proof (induction rule: rtranclp_induct)
  case base
  then show ?case using hub_start_inv by (simp add: hub_start_def)
next
  case (step S S')
  obtain A where "group_inv N A (hs_group S)" using group_reachable_inv [OF assms(2)] step.IH by blast
  from hub_step_sim [OF step.hyps(2) _ this] step.IH show ?case by (metis rtranclp.rtrancl_into_rtrancl)
qed

section \<open>Running such a group\<close>

datatype hub_action = HLocal u64 event | HTake u64 nat | HGo nat rat rat | HHand nat u64

fun hub_exec :: "(Entry \<Rightarrow> u64) \<Rightarrow> u64 list \<Rightarrow> hub_action \<Rightarrow> hub_sys \<Rightarrow> hub_sys option" where
  "hub_exec sz ns (HLocal n ev) S =
     (if n \<in> set ns \<and> local_event (set ns) ev \<and> term_room (hs_group S n) \<and> list_all (\<lambda>k. log_room (hs_group S k)) ns
      then case mainLoop_step sz (hs_group S n) ev of Inr (Running lp) \<Rightarrow> Some (S\<lparr>hs_group := (hs_group S)(n := lp)\<rparr>) | _ \<Rightarrow> None
      else None)"
| "hub_exec sz ns (HTake n ch) S =
     (if n \<in> set ns \<and> ch < length (h_incases (hs_hub S)) \<and> h_incases (hs_hub S) ! ch = Some (outc_of n) \<and>
         hs_taken S n < length (r_outc (lp_raft (hs_group S n)))
      then map_option (\<lambda>h. S\<lparr>hs_hub := h, hs_taken := (hs_taken S)(n := Suc (hs_taken S n))\<rparr>)
             (Hub_receive (hs_hub S) ch (Some (r_outc (lp_raft (hs_group S n)) ! hs_taken S n)))
      else None)"
| "hub_exec sz ns (HGo i r1 r2) S =
     (case Hub_transmit (hs_hub S) i r1 r2 of Inl _ \<Rightarrow> None | Inr (d, h) \<Rightarrow> Some (S\<lparr>hs_hub := h\<rparr>))"
| "hub_exec sz ns (HHand i n) S =
     (case Hub_deliver (hs_hub S) i of
        None \<Rightarrow> None
      | Some (c, m, h) \<Rightarrow>
          if n \<in> set ns \<and> c = inc_of n \<and> term_room (hs_group S n) \<and> list_all (\<lambda>k. log_room (hs_group S k)) ns
          then case mainLoop_step sz (hs_group S n) (EvMsg m) of
                 Inr (Running lp) \<Rightarrow> Some (S\<lparr>hs_hub := h, hs_group := (hs_group S)(n := lp)\<rparr>) | _ \<Rightarrow> None
          else None)"

fun hub_execs :: "(Entry \<Rightarrow> u64) \<Rightarrow> u64 list \<Rightarrow> hub_action list \<Rightarrow> hub_sys \<Rightarrow> hub_sys option" where
  "hub_execs sz ns [] S = Some S"
| "hub_execs sz ns (a # acts) S = Option.bind (hub_exec sz ns a S) (hub_execs sz ns acts)"

lemma hub_exec_step: "hub_exec sz ns a S = Some S' \<Longrightarrow> hub_step sz (set ns) S S'"
proof (induction sz ns a S rule: hub_exec.induct)
  case (1 sz ns n ev S)
  then show ?case by (auto simp: list_all_iff split: if_splits sum.splits outcome.splits intro: hub_step.hub_local)
next
  case (2 sz ns n ch S)
  then show ?case by (auto split: if_splits intro: hub_step.hub_receive)
next
  case (3 sz ns i r1 r2 S)
  then show ?case by (auto split: sum.splits intro: hub_step.hub_transmit)
next
  case (4 sz ns i n S)
  then obtain m h lp where "Hub_deliver (hs_hub S) i = Some (inc_of n, m, h)" "n \<in> set ns" "term_room (hs_group S n)"
    "\<And>k. k \<in> set ns \<Longrightarrow> log_room (hs_group S k)" "mainLoop_step sz (hs_group S n) (EvMsg m) = Inr (Running lp)"
    "S' = S\<lparr>hs_hub := h, hs_group := (hs_group S)(n := lp)\<rparr>"
    by (auto simp: list_all_iff split: option.splits if_splits sum.splits outcome.splits)
  then show ?case using hub_step.hub_deliver [of S i "inc_of n" m h n "set ns" sz lp] by blast
qed

lemma hub_execs_steps: "hub_execs sz ns acts S = Some S' \<Longrightarrow> (hub_step sz (set ns))\<^sup>*\<^sup>* S S'"
proof (induction acts arbitrary: S)
  case (Cons a acts)
  then show ?case by (auto simp: Option.bind_eq_Some_conv dest: hub_exec_step intro: converse_rtranclp_into_rtranclp)
qed simp

section \<open>Properties\<close>

text \<open>C7: Instances connected by the simulated network, which drops, delays and reorders as it pleases, form a group as in
  \<open>RaftCluster\<close>: every state they reach is one the group can reach. So a term has at most one leader, and no
  message that the hub hands over makes its receiver panic.\<close>

theorem hub_group_safe:
  assumes "group_init N C0" "(hub_step sz N)\<^sup>*\<^sup>* (hub_start rl ns C0) S"
  shows "(group_step sz N)\<^sup>*\<^sup>* C0 (hs_group S) \<and>
    (\<forall>n \<in> N. \<forall>k \<in> N. r_state (lp_raft (hs_group S n)) = StateLeader \<and> r_state (lp_raft (hs_group S k)) = StateLeader \<and>
       r_Term (lp_raft (hs_group S n)) = r_Term (lp_raft (hs_group S k)) \<longrightarrow> n = k) \<and>
    (\<forall>n \<in> N. \<forall>i m h. Hub_deliver (hs_hub S) i = Some (inc_of n, m, h) \<longrightarrow> (\<exists>res. mainLoop_step sz (hs_group S n) (EvMsg m) = Inr res))"
proof (intro conjI ballI allI impI)
  note R = hub_steps_sim [OF assms(2,1)]
  show "(group_step sz N)\<^sup>*\<^sup>* C0 (hs_group S)" using R by blast
  have I: "cluster_init N C0" using assms(1) by (simp add: group_init_def)
  show "n = k" if "n \<in> N" "k \<in> N" "r_state (lp_raft (hs_group S n)) = StateLeader \<and> r_state (lp_raft (hs_group S k)) = StateLeader \<and>
       r_Term (lp_raft (hs_group S n)) = r_Term (lp_raft (hs_group S k))" for n k
    using cluster_leader_unique [OF I group_steps_cluster that(1,2)] R that(3) by blast
  obtain A where A: "group_inv N A (hs_group S)" using group_reachable_inv [OF assms(1)] R by blast
  show "\<exists>res. mainLoop_step sz (hs_group S n) (EvMsg m) = Inr res"
    if n: "n \<in> N" and D: "Hub_deliver (hs_hub S) i = Some (inc_of n, m, h)" for n i m h
  proof -
    have "i < length (h_transit (hs_hub S))" "h_transit (hs_hub S) ! i = Sending m"
      using D by (auto simp: Hub_deliver_def split: if_splits transit.splits option.splits)
    then have "m \<in> cluster_net N (hs_group S)" using R by (metis hub_sys_inv_def nth_mem transit_msg.simps(2))
    then have "event_ok (lp_raft (hs_group S n)) (EvMsg m)" using group_msg_ok(1) [OF A n] by (simp add: event_ok_def)
    then show ?thesis using mainLoop_step_total [OF group_invD(3) [OF A n]] by blast
  qed
qed

theorem hub_group_safe_witness:
  "\<exists>S. (hub_step trio_size (set [1, 2, 3]))\<^sup>*\<^sup>* (hub_start True [1, 2, 3] trio) S \<and> r_state (lp_raft (hs_group S 1)) = StateLeader \<and>
     (group_step trio_size (set [1, 2, 3]))\<^sup>*\<^sup>* trio (hs_group S)"
proof -
  let ?acts = "[HLocal 1 (EvTick 0), HLocal 1 (EvTick 0), HTake 1 0, HTake 1 0, HGo 1 0 0, HGo 0 (1/2) (1/4), HHand 0 2, HTake 2 1,
    HGo 0 (1/2) (1/2), HHand 0 1]"
  have "case hub_execs trio_size [1, 2, 3] ?acts (hub_start True [1, 2, 3] trio) of None \<Rightarrow> False
    | Some S \<Rightarrow> r_state (lp_raft (hs_group S 1)) = StateLeader" by code_simp
  then obtain S where S: "hub_execs trio_size [1, 2, 3] ?acts (hub_start True [1, 2, 3] trio) = Some S"
    "r_state (lp_raft (hs_group S 1)) = StateLeader" by (auto split: option.split_asm)
  show ?thesis using hub_group_safe [OF trio_init hub_execs_steps [OF S(1)]] hub_execs_steps [OF S(1)] S(2) by blast
qed

end
