(* ===== verification/Retry.thy ===== *)
theory Retry
  imports Prelude Complex_Main
begin

text \<open>
  \<open>src/util/retry.go\<close>: exponential backoff. \<open>time.Duration\<close> is a number of nanoseconds. The \<open>float64\<close>
  computation of the waiting time is modelled by exact rational arithmetic: rounding is left out.
  \<open>rnd\<close> is what \<open>rand.Float64()\<close> returned, and \<open>sel\<close> which case of the \<open>select\<close> in \<open>Next\<close> was taken.
\<close>

record RetryOption =
  ro_InitBackoff :: int
  ro_Base :: rat
  ro_RandomFactor :: rat
  ro_MaxBackoff :: int
  ro_MaxAttempts :: int

record Retry =
  rt_opts :: RetryOption
  rt_attemptsCount :: nat
  rt_isReset :: bool

datatype select = TimerFired | StopperClosed

definition RetryOption_initDefault :: "RetryOption \<Rightarrow> RetryOption" where
  "RetryOption_initDefault opts =
     (let o1 = (if ro_InitBackoff opts \<le> 0 then opts\<lparr>ro_InitBackoff := 50\<rparr> else opts);
          o2 = (if ro_Base o1 \<le> 0 then o1\<lparr>ro_Base := 2\<rparr> else o1)
      in if ro_RandomFactor o2 \<le> 0 then o2\<lparr>ro_RandomFactor := 12 / 100\<rparr> else o2)"

definition NewRetry :: "RetryOption \<Rightarrow> Retry" where
  "NewRetry opts = \<lparr>rt_opts = RetryOption_initDefault opts, rt_attemptsCount = 0, rt_isReset = False\<rparr>"

definition Retry_Reset :: "Retry \<Rightarrow> Retry" where
  "Retry_Reset r = r\<lparr>rt_attemptsCount := 0, rt_isReset := True\<rparr>"

definition truncate :: "rat \<Rightarrow> int" where
  "truncate x = (if x < 0 then \<lceil>x\<rceil> else \<lfloor>x\<rfloor>)"

definition Retry_waitTime :: "Retry \<Rightarrow> rat \<Rightarrow> int" where
  "Retry_waitTime r rnd =
     (let opts = rt_opts r;
          backoff = of_int (ro_InitBackoff opts) * ro_Base opts ^ rt_attemptsCount r;
          backoff' = (if backoff > of_int (ro_MaxBackoff opts) then of_int (ro_MaxBackoff opts) else backoff);
          delta = backoff' * ro_RandomFactor opts
      in truncate (backoff' - delta + rnd * (2 * delta + 1)))"

definition Retry_Next :: "Retry \<Rightarrow> select \<Rightarrow> bool \<times> Retry" where
  "Retry_Next r sel =
     (if rt_isReset r then (True, r\<lparr>rt_isReset := False\<rparr>)
      else if ro_MaxAttempts (rt_opts r) \<noteq> 0 \<and> int (rt_attemptsCount r) \<ge> ro_MaxAttempts (rt_opts r) then (False, r)
      else case sel of
        TimerFired \<Rightarrow> (True, r\<lparr>rt_attemptsCount := rt_attemptsCount r + 1\<rparr>)
      | StopperClosed \<Rightarrow> (False, r))"

text \<open>The answers of successive calls of \<open>Next\<close>.\<close>

fun retry_run :: "select list \<Rightarrow> Retry \<Rightarrow> bool list" where
  "retry_run [] r = []"
| "retry_run (sel # sels) r = (let (b, r') = Retry_Next r sel in b # retry_run sels r')"

lemma retry_run_bound:
  assumes "\<not> rt_isReset r" "0 < ro_MaxAttempts (rt_opts r)" "int (rt_attemptsCount r) \<le> ro_MaxAttempts (rt_opts r)"
  shows "int (count_list (retry_run sels r) True) + int (rt_attemptsCount r) \<le> ro_MaxAttempts (rt_opts r)"
  using assms
proof (induction sels arbitrary: r)
  case (Cons sel sels)
  show ?case
    using Cons.prems Cons.IH [of r] Cons.IH [of "r\<lparr>rt_attemptsCount := rt_attemptsCount r + 1\<rparr>"]
    by (auto simp: Retry_Next_def Let_def split: select.splits)
qed simp

lemma initDefault_sel [simp]:
  "ro_MaxAttempts (RetryOption_initDefault opts) = ro_MaxAttempts opts"
  "ro_MaxBackoff (RetryOption_initDefault opts) = ro_MaxBackoff opts"
  "0 < ro_InitBackoff (RetryOption_initDefault opts)" "0 < ro_Base (RetryOption_initDefault opts)"
  "0 < ro_RandomFactor (RetryOption_initDefault opts)"
  by (auto simp: RetryOption_initDefault_def Let_def not_le)

section \<open>Properties\<close>

text \<open>C40: A loop over \<open>Next\<close> with \<open>MaxAttempts\<close> n > 0 ends: whatever the stopper does, \<open>Next\<close> answers true
  at most n times, so among any n + 1 calls one answers false.\<close>

theorem retry_terminates:
  assumes "0 < ro_MaxAttempts opts"
  shows "int (count_list (retry_run sels (NewRetry opts)) True) \<le> ro_MaxAttempts opts \<and>
    (ro_MaxAttempts opts < int (length sels) \<longrightarrow> False \<in> set (retry_run sels (NewRetry opts)))"
proof -
  have bound: "int (count_list (retry_run sels (NewRetry opts)) True) \<le> ro_MaxAttempts opts"
    using retry_run_bound [of "NewRetry opts" sels] assms by (simp add: NewRetry_def)
  have all: "False \<notin> set bs \<Longrightarrow> count_list bs True = length bs" for bs by (induction bs) auto
  have "length (retry_run sels r) = length sels" for r by (induction sels arbitrary: r) (auto simp: Let_def split: prod.split)
  then show ?thesis using bound all [of "retry_run sels (NewRetry opts)"] by fastforce
qed

theorem retry_terminates_witness:
  "False \<in> set (retry_run [TimerFired, TimerFired, TimerFired]
     (NewRetry \<lparr>ro_InitBackoff = 0, ro_Base = 0, ro_RandomFactor = 0, ro_MaxBackoff = 9, ro_MaxAttempts = 2\<rparr>))"
  using retry_terminates [of "\<lparr>ro_InitBackoff = 0, ro_Base = 0, ro_RandomFactor = 0, ro_MaxBackoff = 9, ro_MaxAttempts = 2\<rparr>"
      "[TimerFired, TimerFired, TimerFired]"]
  by (simp del: retry_run.simps)

text \<open>The waiting time is never negative and exceeds the maximal backoff by at most the random
  factor (and one nanosecond); in particular options that leave \<open>MaxBackoff\<close> unset wait no time at all
  between attempts, however often they retry.\<close>

theorem retry_wait_bounded:
  assumes "r = (NewRetry opts)\<lparr>rt_attemptsCount := n\<rparr>" "0 \<le> ro_MaxBackoff opts" "ro_RandomFactor opts \<le> 1"
    "0 \<le> rnd" "rnd < 1"
  shows "0 \<le> Retry_waitTime r rnd \<and>
    of_int (Retry_waitTime r rnd) < (1 + ro_RandomFactor (rt_opts r)) * of_int (ro_MaxBackoff opts) + 1 \<and>
    (ro_MaxBackoff opts = 0 \<longrightarrow> Retry_waitTime r rnd = 0)"
proof -
  let ?f = "ro_RandomFactor (rt_opts r)" and ?M = "of_int (ro_MaxBackoff opts) :: rat"
  let ?init = "of_int (ro_InitBackoff (rt_opts r)) * ro_Base (rt_opts r) ^ n"
  let ?b = "if ?init > ?M then ?M else ?init"
  let ?x = "?b - ?b * ?f + rnd * (2 * (?b * ?f) + 1)"
  have opts: "rt_opts r = RetryOption_initDefault opts" "rt_attemptsCount r = n" using assms(1) by (simp_all add: NewRetry_def)
  have f: "0 < ?f" "?f \<le> 1" using assms(3) opts by (auto simp: RetryOption_initDefault_def Let_def)
  have "0 \<le> ?init" using opts by (intro mult_nonneg_nonneg zero_le_power) (simp_all add: less_imp_le)
  then have b: "0 \<le> ?b" "?b \<le> ?M" using assms(2) by auto
  have d: "0 \<le> ?b * ?f" "?b * ?f \<le> ?b" "?b * ?f \<le> ?M * ?f"
    using b f by (simp_all add: mult_left_le mult_right_mono)
  have w: "Retry_waitTime r rnd = truncate ?x" by (simp add: Retry_waitTime_def opts Let_def)
  have x0: "0 \<le> ?x" using d assms(4) by simp
  have "rnd * (2 * (?b * ?f) + 1) < 2 * (?b * ?f) + 1" using d(1) assms(5) by simp
  then have x1: "?x < ?M + ?M * ?f + 1" using b d by linarith
  have t: "truncate ?x = \<lfloor>?x\<rfloor>" using x0 by (simp add: truncate_def)
  have fl: "0 \<le> \<lfloor>?x\<rfloor>" "of_int \<lfloor>?x\<rfloor> \<le> ?x" using x0 by simp_all
  have "\<lfloor>?x\<rfloor> = 0" if "ro_MaxBackoff opts = 0"
    using x0 x1 that by (simp add: floor_eq_iff)
  then show ?thesis using w t fl x1 by (auto simp: algebra_simps)
qed

theorem retry_wait_bounded_witness:
  "Retry_waitTime (NewRetry \<lparr>ro_InitBackoff = 0, ro_Base = 0, ro_RandomFactor = 0, ro_MaxBackoff = 0, ro_MaxAttempts = 0\<rparr>) (1 / 2) = 0"
proof -
  let ?o = "\<lparr>ro_InitBackoff = 0, ro_Base = 0, ro_RandomFactor = 0, ro_MaxBackoff = 0, ro_MaxAttempts = 0\<rparr>"
  have "NewRetry ?o = (NewRetry ?o)\<lparr>rt_attemptsCount := 0\<rparr>" by (simp add: NewRetry_def)
  from retry_wait_bounded [OF this, of "1 / 2"] show ?thesis by simp
qed

end
