(* ===== verification/RaftContainer.thy ===== *)
theory RaftContainer
  imports Raft Retry "HOL-Library.Multiset"
begin

text \<open>
  \<open>src/rafts/raft_container.go\<close>: the raft instances of one server node and the exchange of messages
  between nodes. A \<open>*Raft\<close> is an address in \<open>rc_heap\<close>: the same instance can be added, removed and added again.
  Of its channels the model keeps histories: \<open>r_outc\<close> is what the instance sent, \<open>ra_taken\<close> how much of that was received from
  \<open>outc\<close>, and \<open>ra_inc\<close> what it received from \<open>inc\<close>. The goroutines are data: \<open>rc_redirects\<close> are those that run \<open>redirect\<close>,
  any number of them for an instance, each with the message it has taken from \<open>outc\<close> and
  not yet put into the pipe; \<open>rc_senders\<close> are those of \<open>Start\<close>, each with the message it is sending. Every
  receive and every send on a channel is a step of its own. The mutex is the flag \<open>rc_locked\<close>, since one method can return
  while holding it.

  The \<open>Router\<close> is an interface: its methods are the parameters \<open>lookup\<close> and \<open>setRoute\<close> over a state \<open>'r\<close>, and the locale
  \<open>router\<close> is what a router promises; the repository's implementation is the \<open>testRouter\<close> of
  \<open>raft_container_test.go\<close>. gRPC is not part of the repository: \<open>rpc addr m w\<close> is the call \<open>client.Pipe\<close> over a connection that
  was dialled to the address \<open>addr\<close>, where \<open>w\<close> is the state of the other nodes and the answer \<open>None\<close> is an error. What
  the properties assume of it are the hypotheses \<open>grpc_unary\<close> and \<open>grpc_answers\<close>.
\<close>

section \<open>Data\<close>

record raftObj =
  ra_raft :: raft
  ra_inc :: "Message list"
  ra_taken :: nat

record localRaft =
  lr_Raft :: nat
  lr_removed :: nat

record redirector =
  rd_local :: localRaft
  rd_held :: "Message option"

record 'r RaftContainer =
  rc_meta :: NodeMeta
  rc_started :: bool
  rc_pipe :: "Message list"
  rc_router :: 'r
  rc_locked :: bool
  rc_locals :: "(u64 \<times> localRaft) list"
  rc_nodes :: "(u64 \<times> NodeMeta) list"
  rc_redirects :: "redirector list"
  rc_senders :: "Message option list"
  rc_heap :: "nat \<Rightarrow> raftObj"
  rc_channels :: nat

datatype 'a progress = Returns 'a | Waits | BlocksForever

definition defaultPipeBufferSize :: nat where
  "defaultPipeBufferSize = 64"


section \<open>Operations\<close>

definition NewContainerMeta :: "u64 \<Rightarrow> string \<Rightarrow> string \<Rightarrow> NodeMeta" where
  "NewContainerMeta nid host port = \<lparr>node_Id = nid, node_Host = host, node_Port = port\<rparr>"

definition NewRaftContainer :: "NodeMeta \<Rightarrow> 'r \<Rightarrow> (nat \<Rightarrow> raftObj) \<Rightarrow> 'r RaftContainer" where
  "NewRaftContainer meta router heap =
     \<lparr>rc_meta = meta, rc_started = False, rc_pipe = [], rc_router = router, rc_locked = False, rc_locals = [], rc_nodes = [],
      rc_redirects = [], rc_senders = [], rc_heap = heap, rc_channels = 0\<rparr>"

text \<open>\<open>Add\<close> returns without unlocking when the instance is already there. The channel \<open>removed\<close> it makes is a new one.\<close>

definition RaftContainer_Add :: "'r RaftContainer \<Rightarrow> nat option \<Rightarrow> 'r RaftContainer progress" where
  "RaftContainer_Add rc ro =
     (case ro of
        None \<Rightarrow> Returns rc
      | Some a \<Rightarrow>
          let rid = r_id (ra_raft (rc_heap rc a)) in
          if rc_locked rc then BlocksForever
          else if map_of (rc_locals rc) rid \<noteq> None then Returns (rc\<lparr>rc_locked := True\<rparr>)
          else
            let l = \<lparr>lr_Raft = a, lr_removed = rc_channels rc\<rparr>;
                rc1 = rc\<lparr>rc_locals := AList.update rid l (rc_locals rc), rc_channels := Suc (rc_channels rc)\<rparr>
            in Returns (if rc_started rc1 then rc1\<lparr>rc_redirects := rc_redirects rc1 @ [\<lparr>rd_local = l, rd_held = None\<rparr>]\<rparr> else rc1))"

text \<open>\<open>Remove\<close> sends on the unbuffered channel \<open>removed\<close>, and waits until a goroutine of the instance receives in its
  \<open>select\<close>, which then ends.\<close>

definition RaftContainer_Remove :: "'r RaftContainer \<Rightarrow> u64 \<Rightarrow> 'r RaftContainer progress" where
  "RaftContainer_Remove rc nid =
     (if rc_locked rc then BlocksForever
      else case map_of (rc_locals rc) nid of
        None \<Rightarrow> Returns rc
      | Some l \<Rightarrow>
          if \<lparr>rd_local = l, rd_held = None\<rparr> \<in> set (rc_redirects rc)
          then Returns (rc\<lparr>rc_locals := AList.delete nid (rc_locals rc),
                           rc_redirects := remove1 \<lparr>rd_local = l, rd_held = None\<rparr> (rc_redirects rc)\<rparr>)
          else Waits)"

definition RaftContainer_Start :: "'r RaftContainer \<Rightarrow> 'r RaftContainer" where
  "RaftContainer_Start rc =
     rc\<lparr>rc_redirects := rc_redirects rc @ map (\<lambda>(nid, l). \<lparr>rd_local = l, rd_held = None\<rparr>) (rc_locals rc),
        rc_started := True, rc_senders := rc_senders rc @ [None]\<rparr>"

text \<open>The goroutine of \<open>Start\<close> receives a message from the pipe and calls \<open>send\<close> with it; later that call returns.\<close>

definition RaftContainer_sender_receive :: "'r RaftContainer \<Rightarrow> nat \<Rightarrow> 'r RaftContainer option" where
  "RaftContainer_sender_receive rc j =
     (if j < length (rc_senders rc) \<and> rc_senders rc ! j = None
      then case rc_pipe rc of
        [] \<Rightarrow> None
      | m # ms \<Rightarrow> Some (rc\<lparr>rc_pipe := ms, rc_senders := (rc_senders rc)[j := Some m]\<rparr>)
      else None)"

definition RaftContainer_sender_done :: "'r RaftContainer \<Rightarrow> nat \<Rightarrow> 'r RaftContainer option" where
  "RaftContainer_sender_done rc j =
     (if j < length (rc_senders rc) \<and> rc_senders rc ! j \<noteq> None
      then Some (rc\<lparr>rc_senders := (rc_senders rc)[j := None]\<rparr>) else None)"

text \<open>\<open>Stop\<close> sends one value on \<open>stopc\<close>. One of the goroutines that wait on it takes it: a sender or a \<open>redirect\<close> in its
  \<open>select\<close>, which ends, or a sender that waits in \<open>Retry.Next\<close>, whose \<open>Stopper\<close> is \<open>stopc\<close> too and which then gives up
  its message.\<close>

datatype stop_receiver = StopSender nat | StopRedirect nat | StopRetry nat

definition RaftContainer_Stop :: "'r RaftContainer \<Rightarrow> stop_receiver \<Rightarrow> 'r RaftContainer option" where
  "RaftContainer_Stop rc who =
     (case who of
        StopSender j \<Rightarrow>
          if j < length (rc_senders rc) \<and> rc_senders rc ! j = None
          then Some (rc\<lparr>rc_senders := take j (rc_senders rc) @ drop (Suc j) (rc_senders rc), rc_started := False\<rparr>) else None
      | StopRedirect i \<Rightarrow>
          if i < length (rc_redirects rc) \<and> rd_held (rc_redirects rc ! i) = None
          then Some (rc\<lparr>rc_redirects := take i (rc_redirects rc) @ drop (Suc i) (rc_redirects rc), rc_started := False\<rparr>) else None
      | StopRetry j \<Rightarrow>
          if j < length (rc_senders rc) \<and> rc_senders rc ! j \<noteq> None
          then Some (rc\<lparr>rc_senders := (rc_senders rc)[j := None], rc_started := False\<rparr>) else None)"



text \<open>The steps of a goroutine that runs \<open>redirect\<close>: its \<open>select\<close> receives a message of the instance, which is only possible when there
  is one; the message goes to the pipe, which is only possible when there is room; or \<open>stoppedc\<close> yields a value and the goroutine
  ends. (The other two ends are in \<open>Remove\<close> and \<open>Stop\<close>, whose sends it receives.)\<close>

datatype redirect_case = FromOutc | ToPipe | FromStoppedc

definition RaftContainer_redirect_step :: "redirect_case \<Rightarrow> 'r RaftContainer \<Rightarrow> nat \<Rightarrow> 'r RaftContainer option" where
  "RaftContainer_redirect_step sel rc i =
     (if i \<ge> length (rc_redirects rc) then None
      else
        let g = rc_redirects rc ! i; a = lr_Raft (rd_local g); r = rc_heap rc a in
        case rd_held g of
          None \<Rightarrow>
            (case sel of
               FromOutc \<Rightarrow>
                 if ra_taken r < length (r_outc (ra_raft r)) then
                   Some (rc\<lparr>rc_redirects := (rc_redirects rc)[i := g\<lparr>rd_held := Some (r_outc (ra_raft r) ! ra_taken r)\<rparr>],
                            rc_heap := (rc_heap rc)(a := r\<lparr>ra_taken := Suc (ra_taken r)\<rparr>)\<rparr>)
                 else None
             | ToPipe \<Rightarrow> None
             | FromStoppedc \<Rightarrow> Some (rc\<lparr>rc_redirects := take i (rc_redirects rc) @ drop (Suc i) (rc_redirects rc)\<rparr>))
        | Some m \<Rightarrow>
            if sel = ToPipe \<and> length (rc_pipe rc) < defaultPipeBufferSize then
              Some (rc\<lparr>rc_pipe := rc_pipe rc @ [m], rc_redirects := (rc_redirects rc)[i := g\<lparr>rd_held := None\<rparr>]\<rparr>)
            else None)"

text \<open>\<open>send\<close>. The list of choices drives the calls of \<open>Retry.Next\<close>: \<open>Pending\<close> is a loop that is still
  running when they are used up. A connection is dialled once for a node id and used again later. A failed call leaves
  \<open>resp\<close> nil, and reading its \<open>State\<close> panics.\<close>

datatype send_result = Delivered | PeerStopped | Cancelled | Pending

definition node_addr :: "NodeMeta \<Rightarrow> string" where
  "node_addr c = node_Host c @ node_Port c"

fun send_loop ::
  "('r \<Rightarrow> u64 \<Rightarrow> NodeMeta option) \<Rightarrow> ('r \<Rightarrow> u64 \<Rightarrow> NodeMeta \<Rightarrow> 'r) \<Rightarrow>
   (string \<Rightarrow> Message \<Rightarrow> 'w \<Rightarrow> Response option \<times> 'w) \<Rightarrow> Message \<Rightarrow> select list \<Rightarrow> Retry \<Rightarrow> 'r RaftContainer \<Rightarrow> 'w \<Rightarrow>
   (send_result \<times> 'r RaftContainer \<times> 'w) go" where
  "send_loop lookup setRoute rpc m [] r rc w = Inr (Pending, rc, w)"
| "send_loop lookup setRoute rpc m (sel # sels) r rc w =
     (let (again, r1) = Retry_Next r sel in
      if \<not> again then Inr (Cancelled, rc, w)
      else case lookup (rc_router rc) (msg_To m) of
        None \<Rightarrow> send_loop lookup setRoute rpc m sels r1 rc w
      | Some c \<Rightarrow>
          let rc1 = (if map_of (rc_nodes rc) (node_Id c) = None
                     then rc\<lparr>rc_nodes := AList.update (node_Id c) c (rc_nodes rc)\<rparr> else rc)
          in case map_of (rc_nodes rc1) (node_Id c) of
            None \<Rightarrow> Inl NilDereference
          | Some dest \<Rightarrow>
              let (resp, w1) = rpc (node_addr dest) m w in
              case resp of
                None \<Rightarrow> Inl NilDereference
              | Some p \<Rightarrow>
                  (case resp_State p of
                     StateOk \<Rightarrow> Inr (Delivered, rc1, w1)
                   | StateRaftStopped \<Rightarrow> Inr (PeerStopped, rc1, w1)
                   | StateRaftNotExist \<Rightarrow>
                       (case resp_Container p of
                          None \<Rightarrow> send_loop lookup setRoute rpc m sels r1 rc1 w1
                        | Some cm \<Rightarrow>
                            send_loop lookup setRoute rpc m sels (Retry_Reset r1)
                              (rc1\<lparr>rc_router := setRoute (rc_router rc1) (msg_To m) cm\<rparr>) w1)
                   | StateFailed \<Rightarrow> send_loop lookup setRoute rpc m sels r1 rc1 w1))"


section \<open>The router\<close>

locale router =
  fixes lookup :: "'r \<Rightarrow> u64 \<Rightarrow> NodeMeta option" and setRoute :: "'r \<Rightarrow> u64 \<Rightarrow> NodeMeta \<Rightarrow> 'r"
  assumes lookup_set: "lookup (setRoute s rid m) rid' = (if rid' = rid then Some m else lookup s rid')"
begin

text \<open>After a container has answered that an instance is elsewhere, the next attempt goes there.\<close>

lemma redirected:
  assumes "lookup (rc_router rc) (msg_To m) = Some c" "rpc (node_addr c) m w = (Some p, w')" "map_of (rc_nodes rc) (node_Id c) = None"
    "resp_State p = StateRaftNotExist" "resp_Container p = Some c'" "node_Id c' \<noteq> node_Id c"
    "map_of (rc_nodes rc) (node_Id c') = None" "rpc (node_addr c') m w' = (Some p', w'')" "resp_State p' = StateOk" "\<not> rt_isReset r"
    "ro_MaxAttempts (rt_opts r) = 0"
  shows "\<exists>rc'. send_loop lookup setRoute rpc m [TimerFired, sel] r rc w = Inr (Delivered, rc', w'') \<and>
    lookup (rc_router rc') (msg_To m) = Some c'"
  using assms by (simp add: Retry_Next_def Retry_Reset_def lookup_set update_conv')

end

record testRouter =
  tr_store :: "(u64 \<times> NodeMeta) list"

definition newTestRouter :: testRouter where
  "newTestRouter = \<lparr>tr_store = []\<rparr>"

definition testRouter_Lookup :: "testRouter \<Rightarrow> u64 \<Rightarrow> NodeMeta option" where
  "testRouter_Lookup tr nid = map_of (tr_store tr) nid"

definition testRouter_SetRoute :: "testRouter \<Rightarrow> u64 \<Rightarrow> NodeMeta \<Rightarrow> testRouter" where
  "testRouter_SetRoute tr rid meta = tr\<lparr>tr_store := AList.update rid meta (tr_store tr)\<rparr>"

interpretation tr: router testRouter_Lookup testRouter_SetRoute
  by unfold_locales (simp add: testRouter_Lookup_def testRouter_SetRoute_def update_conv')

section \<open>The remote call\<close>








text \<open>The address that the first attempt calls.\<close>

definition send_addr :: "'r RaftContainer \<Rightarrow> NodeMeta \<Rightarrow> string" where
  "send_addr rc c = node_addr (case map_of (rc_nodes rc) (node_Id c) of None \<Rightarrow> c | Some d \<Rightarrow> d)"



section \<open>An example\<close>

text \<open>A container without instances that knows the route to instance 2, and the container that has it. The other nodes are a list of
  the containers by their addresses, and for every call to come whether the instance is ready to receive.\<close>

definition ex_raft :: "raft option" where
  "ex_raft = (case NewRaft \<lparr>cfg_Id = 2, cfg_Storage = Some NewInMemStorage, cfg_Tickc = True, cfg_Inc = True, cfg_Outc = True,
       cfg_HeartbeatTick = 0, cfg_ElectionTick = 0, cfg_MaxSizePerMsg = noLimit\<rparr> of
     Inr (Inr r) \<Rightarrow> Some (r\<lparr>r_stoppedc := True\<rparr>) | _ \<Rightarrow> None)"

definition ex_heap :: "raft \<Rightarrow> nat \<Rightarrow> raftObj" where
  "ex_heap r = (\<lambda>_. \<lparr>ra_raft = r, ra_inc = [], ra_taken = 0\<rparr>)"

definition ex_sender :: "raft \<Rightarrow> testRouter RaftContainer" where
  "ex_sender r = NewRaftContainer (NewContainerMeta 1 ''a'' '':1'')
     (testRouter_SetRoute newTestRouter 2 (NewContainerMeta 9 ''b'' '':2'')) (ex_heap r)"

definition ex_remote :: "raft \<Rightarrow> testRouter RaftContainer" where
  "ex_remote r = (NewRaftContainer (NewContainerMeta 9 ''b'' '':2'') newTestRouter (ex_heap r))
     \<lparr>rc_locals := [(2, \<lparr>lr_Raft = 0, lr_removed = 0\<rparr>)]\<rparr>"

definition ex_msg :: Message where
  "ex_msg = zero_Message\<lparr>msg_To := 2\<rparr>"

type_synonym ex_nodes = "(string \<times> testRouter RaftContainer) list \<times> bool list"

definition ex_listener :: "ex_nodes \<Rightarrow> string \<Rightarrow> testRouter RaftContainer option" where
  "ex_listener w = map_of (fst w)"



definition ex_world :: "raft \<Rightarrow> bool list \<Rightarrow> ex_nodes" where
  "ex_world r bs = ([(''c:9'', NewRaftContainer (NewContainerMeta 3 ''c'' '':9'') newTestRouter (ex_heap r)), (''b:2'', ex_remote r)], bs)"



lemma ex_raft_running: obtains r where "ex_raft = Some r" "r_id r = 2" "\<not> raft_IsStopped r"
proof -
  have "(case ex_raft of None \<Rightarrow> False | Some r \<Rightarrow> r_id r = 2 \<and> \<not> raft_IsStopped r)" by code_simp
  then show thesis using that by (auto split: option.splits)
qed

lemma ex_sel:
  "msg_To ex_msg = 2" "map_of (rc_locals (ex_sender r)) 2 = None" "rc_locked (ex_sender r) = False"
  "testRouter_Lookup (rc_router (ex_sender r)) 2 = Some (NewContainerMeta 9 ''b'' '':2'')"
  "send_addr (ex_sender r) (NewContainerMeta 9 ''b'' '':2'') = ''b:2''"
  "ex_listener (ex_world r bs) ''b:2'' = Some (ex_remote r)"
  "map_of (rc_locals (ex_remote r)) 2 = Some \<lparr>lr_Raft = 0, lr_removed = 0\<rparr>"
  "rc_heap (ex_remote r) 0 = \<lparr>ra_raft = r, ra_inc = [], ra_taken = 0\<rparr>"
  by (simp_all add: ex_msg_def ex_sender_def ex_remote_def NewRaftContainer_def tr.lookup_set ex_listener_def ex_world_def
      send_addr_def node_addr_def NewContainerMeta_def ex_heap_def)

section \<open>Properties of send\<close>






text \<open>Adding an instance that is already there locks the container for good: \<open>Add\<close> returns without
  releasing the mutex, and every later \<open>Add\<close> or \<open>Remove\<close> blocks for ever.\<close>

theorem add_twice_locks:
  assumes "RaftContainer_Add rc (Some a) = Returns rc1" "RaftContainer_Add rc1 (Some a) = Returns rc2"
  shows "RaftContainer_Add rc2 (Some b) = BlocksForever \<and> RaftContainer_Remove rc2 n = BlocksForever"
  using assms by (auto simp: RaftContainer_Add_def RaftContainer_Remove_def update_conv' Let_def split: if_splits)

theorem add_twice_locks_witness:
  "\<exists>r rc1 rc2. RaftContainer_Add (ex_sender r) (Some 0) = Returns rc1 \<and> RaftContainer_Add rc1 (Some 0) = Returns rc2 \<and>
     RaftContainer_Remove rc2 2 = BlocksForever"
proof -
  obtain r where r: "ex_raft = Some r" "r_id r = 2" using ex_raft_running by blast
  have h: "ra_raft (rc_heap (ex_sender r) 0) = r" by (simp add: ex_sender_def NewRaftContainer_def ex_heap_def)
  obtain rc1 where 1: "RaftContainer_Add (ex_sender r) (Some 0) = Returns rc1"
    by (simp add: RaftContainer_Add_def h r(2) ex_sel Let_def)
  have "rc_locked rc1 = False" "map_of (rc_locals rc1) 2 \<noteq> None" "rc_heap rc1 = rc_heap (ex_sender r)"
    using 1 r(2) h by (auto simp: RaftContainer_Add_def ex_sel update_conv' Let_def split: if_splits)
  then obtain rc2 where 2: "RaftContainer_Add rc1 (Some 0) = Returns rc2" using r(2) h by (simp add: RaftContainer_Add_def)
  from add_twice_locks [OF 1 2] 1 2 show ?thesis by blast
qed

section \<open>From the instances to the senders\<close>

text \<open>What happens in a running container, one step at a time and in any order. An event gives the new state, the messages it puts into the pipe,
  each with the instance it came from, and those it takes out; an event that is not possible does not happen.\<close>

datatype container_event =
    RedirectStep redirect_case nat
  | SenderReceives nat
  | SenderDone nat
  | CallStart
  | CallStop stop_receiver
  | CallAdd "nat option"
  | CallRemove u64
  | RaftSends nat Message

definition raft_sends :: "'r RaftContainer \<Rightarrow> nat \<Rightarrow> Message \<Rightarrow> 'r RaftContainer" where
  "raft_sends rc a m =
     (let r = rc_heap rc a in
      rc\<lparr>rc_heap := (rc_heap rc)(a := r\<lparr>ra_raft := (ra_raft r)\<lparr>r_outc := r_outc (ra_raft r) @ [m]\<rparr>\<rparr>)\<rparr>)"

definition container_next :: "container_event \<Rightarrow> 'r RaftContainer \<Rightarrow> 'r RaftContainer option" where
  "container_next ev rc =
     (case ev of
        RedirectStep sel i \<Rightarrow> RaftContainer_redirect_step sel rc i
      | SenderReceives j \<Rightarrow> RaftContainer_sender_receive rc j
      | SenderDone j \<Rightarrow> RaftContainer_sender_done rc j
      | CallStart \<Rightarrow> Some (RaftContainer_Start rc)
      | CallStop who \<Rightarrow> RaftContainer_Stop rc who
      | CallAdd ro \<Rightarrow> (case RaftContainer_Add rc ro of Returns rc' \<Rightarrow> Some rc' | _ \<Rightarrow> None)
      | CallRemove nid \<Rightarrow> (case RaftContainer_Remove rc nid of Returns rc' \<Rightarrow> Some rc' | _ \<Rightarrow> None)
      | RaftSends a m \<Rightarrow> Some (raft_sends rc a m))"

definition puts :: "container_event \<Rightarrow> 'r RaftContainer \<Rightarrow> (nat \<times> Message) list" where
  "puts ev rc =
     (case ev of
        RedirectStep ToPipe i \<Rightarrow>
          (case rd_held (rc_redirects rc ! i) of None \<Rightarrow> [] | Some m \<Rightarrow> [(lr_Raft (rd_local (rc_redirects rc ! i)), m)])
      | _ \<Rightarrow> [])"

definition takes :: "container_event \<Rightarrow> 'r RaftContainer \<Rightarrow> Message list" where
  "takes ev rc = (case ev of SenderReceives j \<Rightarrow> take 1 (rc_pipe rc) | _ \<Rightarrow> [])"

fun container_run :: "container_event list \<Rightarrow> 'r RaftContainer \<Rightarrow> 'r RaftContainer \<times> (nat \<times> Message) list \<times> Message list" where
  "container_run [] rc = (rc, [], [])"
| "container_run (ev # evs) rc =
     (case container_next ev rc of
        None \<Rightarrow> container_run evs rc
      | Some rc1 \<Rightarrow> (case container_run evs rc1 of (rc', ps, ts) \<Rightarrow> (rc', puts ev rc @ ps, takes ev rc @ ts)))"

text \<open>The goroutines of an instance, the messages they hold, and what was received from \<open>outc\<close> between two states.\<close>

definition of_raft :: "nat \<Rightarrow> redirector \<Rightarrow> bool" where
  "of_raft a g \<longleftrightarrow> lr_Raft (rd_local g) = a"

definition held_in :: "nat \<Rightarrow> redirector list \<Rightarrow> Message list" where
  "held_in a gs = List.map_filter rd_held (filter (of_raft a) gs)"

definition taken_from :: "nat \<Rightarrow> 'r RaftContainer \<Rightarrow> 'r RaftContainer \<Rightarrow> Message list" where
  "taken_from a rc rc' =
     take (ra_taken (rc_heap rc' a) - ra_taken (rc_heap rc a)) (drop (ra_taken (rc_heap rc a)) (r_outc (ra_raft (rc_heap rc' a))))"

definition from_raft :: "nat \<Rightarrow> (nat \<times> Message) list \<Rightarrow> Message list" where
  "from_raft a ps = map snd (filter (\<lambda>p. fst p = a) ps)"

text \<open>An instance only sends, and its messages are only received in order.\<close>

definition advances :: "raftObj \<Rightarrow> raftObj \<Rightarrow> bool" where
  "advances r r' \<longleftrightarrow> ra_taken r \<le> ra_taken r' \<and> (ra_taken r < ra_taken r' \<longrightarrow> ra_taken r' \<le> length (r_outc (ra_raft r'))) \<and>
     (\<exists>ms. r_outc (ra_raft r') = r_outc (ra_raft r) @ ms)"

lemma advances_refl [simp]: "advances r r"
  by (simp add: advances_def)

lemma advances_trans: "advances r r1 \<Longrightarrow> advances r1 r2 \<Longrightarrow> advances r r2"
  by (fastforce simp: advances_def)

lemma held_in_simps [simp]:
  "held_in a [] = []" "held_in a (gs @ hs) = held_in a gs @ held_in a hs"
  "held_in a (g # gs) = (if of_raft a g then (case rd_held g of None \<Rightarrow> held_in a gs | Some m \<Rightarrow> m # held_in a gs) else held_in a gs)"
  by (simp_all add: held_in_def List.map_filter_def split: option.splits)

lemma from_raft_simps [simp]: "from_raft a [] = []" "from_raft a (ps @ qs) = from_raft a ps @ from_raft a qs"
  "from_raft a (p # ps) = (if fst p = a then snd p # from_raft a ps else from_raft a ps)"
  by (simp_all add: from_raft_def)

lemma taken_from_trans:
  assumes "advances (rc_heap rc a) (rc_heap rc1 a)" "advances (rc_heap rc1 a) (rc_heap rc2 a)"
  shows "taken_from a rc rc2 = taken_from a rc rc1 @ taken_from a rc1 rc2"
proof -
  let ?t = "\<lambda>rc. ra_taken (rc_heap rc a)" and ?o = "\<lambda>rc. r_outc (ra_raft (rc_heap rc a))"
  have t: "?t rc \<le> ?t rc1" "?t rc1 \<le> ?t rc2" using assms by (simp_all add: advances_def)
  obtain ms where o: "?o rc2 = ?o rc1 @ ms" using assms(2) by (auto simp: advances_def)
  have "take (?t rc1 - ?t rc) (drop (?t rc) (?o rc2)) = take (?t rc1 - ?t rc) (drop (?t rc) (?o rc1))"
  proof (cases "?t rc < ?t rc1")
    case True
    then have "?t rc1 \<le> length (?o rc1)" using assms(1) by (simp add: advances_def)
    then show ?thesis by (simp add: o)
  qed (use t in simp)
  then show ?thesis
    using take_drop_split [of "?t rc1 - ?t rc" "?t rc2 - ?t rc" "drop (?t rc) (?o rc2)"] t by (simp add: taken_from_def)
qed

text \<open>A step loses and duplicates nothing, and with one goroutine for an instance it keeps the order.\<close>

definition flows :: "nat \<Rightarrow> 'r RaftContainer \<Rightarrow> (nat \<times> Message) list \<Rightarrow> 'r RaftContainer \<Rightarrow> bool" where
  "flows a rc ps rc' \<longleftrightarrow> advances (rc_heap rc a) (rc_heap rc' a) \<and>
     mset (held_in a (rc_redirects rc)) + mset (taken_from a rc rc') = mset (from_raft a ps) + mset (held_in a (rc_redirects rc'))"

definition ordered :: "nat \<Rightarrow> 'r RaftContainer \<Rightarrow> (nat \<times> Message) list \<Rightarrow> 'r RaftContainer \<Rightarrow> bool" where
  "ordered a rc ps rc' \<longleftrightarrow> length (filter (of_raft a) (rc_redirects rc')) \<le> 1 \<and>
     held_in a (rc_redirects rc) @ taken_from a rc rc' = from_raft a ps @ held_in a (rc_redirects rc')"

text \<open>Steps that start or end idle goroutines, and touch no message.\<close>

lemma flows_idle:
  assumes "rc_heap rc' = rc_heap rc" "held_in a (rc_redirects rc') = held_in a (rc_redirects rc)"
  shows "flows a rc [] rc'"
    "length (filter (of_raft a) (rc_redirects rc')) \<le> length (filter (of_raft a) (rc_redirects rc)) \<Longrightarrow>
     length (filter (of_raft a) (rc_redirects rc)) \<le> 1 \<Longrightarrow> ordered a rc [] rc'"
  using assms by (simp_all add: flows_def ordered_def taken_from_def)

lemma held_alone: "filter (of_raft a) gs = [] \<Longrightarrow> held_in a gs = []"
  by (simp add: held_in_def List.map_filter_def)

lemma redirect_step_flows:
  assumes "RaftContainer_redirect_step sel rc i = Some rc1"
  shows "flows a rc (puts (RedirectStep sel i) rc) rc1"
    "length (filter (of_raft a) (rc_redirects rc)) \<le> 1 \<Longrightarrow> ordered a rc (puts (RedirectStep sel i) rc) rc1"
proof -
  let ?gs = "rc_redirects rc" and ?g = "rc_redirects rc ! i" and ?b = "lr_Raft (rd_local (rc_redirects rc ! i))"
  let ?r = "rc_heap rc ?b"
  have i: "i < length ?gs" using assms by (simp add: RaftContainer_redirect_step_def split: if_splits)
  define ys where "ys = take i ?gs"
  define zs where "zs = drop (Suc i) ?gs"
  have gs: "?gs = ys @ ?g # zs" "\<And>x. ?gs[i := x] = ys @ x # zs" "take i ?gs @ drop (Suc i) ?gs = ys @ zs"
    using i by (simp_all add: ys_def zs_def id_take_nth_drop upd_conv_take_nth_drop)
  have hold: "held_in a ?gs = held_in a (ys @ ?g # zs)" "filter (of_raft a) ?gs = filter (of_raft a) (ys @ ?g # zs)" using gs(1) by simp_all
  consider (outc) "sel = FromOutc" "rd_held ?g = None" "ra_taken ?r < length (r_outc (ra_raft ?r))"
      "rc1 = rc\<lparr>rc_redirects := ?gs[i := ?g\<lparr>rd_held := Some (r_outc (ra_raft ?r) ! ra_taken ?r)\<rparr>],
        rc_heap := (rc_heap rc)(?b := ?r\<lparr>ra_taken := Suc (ra_taken ?r)\<rparr>)\<rparr>"
    | (stopped) "sel = FromStoppedc" "rd_held ?g = None" "rc1 = rc\<lparr>rc_redirects := take i ?gs @ drop (Suc i) ?gs\<rparr>"
    | (pipe) m where "sel = ToPipe" "rd_held ?g = Some m"
      "rc1 = rc\<lparr>rc_pipe := rc_pipe rc @ [m], rc_redirects := ?gs[i := ?g\<lparr>rd_held := None\<rparr>]\<rparr>"
    using assms i by (auto simp: RaftContainer_redirect_step_def Let_def split: option.splits redirect_case.splits if_splits)
  note cases = this
  show "flows a rc (puts (RedirectStep sel i) rc) rc1"
  proof (cases rule: cases)
    case outc
    then show ?thesis
      by (auto simp: flows_def puts_def hold gs(2) taken_from_def advances_def of_raft_def take_Suc_conv_app_nth hd_drop_conv_nth)
  next
    case stopped
    then show ?thesis using flows_idle(1) [of rc1 rc a] by (simp add: puts_def hold gs(3))
  next
    case pipe
    then show ?thesis by (auto simp: flows_def puts_def hold gs(2) taken_from_def of_raft_def)
  qed
  assume one: "length (filter (of_raft a) ?gs) \<le> 1"
  have rest: "filter (of_raft a) ys = []" "filter (of_raft a) zs = []" if "of_raft a ?g"
    using one that unfolding hold(2) by simp_all
  show "ordered a rc (puts (RedirectStep sel i) rc) rc1"
  proof (cases rule: cases)
    case outc
    then show ?thesis using one rest rest [THEN held_alone]
      by (auto simp: ordered_def puts_def hold gs(2) taken_from_def of_raft_def take_Suc_conv_app_nth hd_drop_conv_nth)
  next
    case stopped
    then show ?thesis using flows_idle(2) [of rc1 rc a] one by (simp add: puts_def hold gs(3))
  next
    case pipe
    then show ?thesis using one rest rest [THEN held_alone]
      by (auto simp: ordered_def puts_def hold gs(2) taken_from_def of_raft_def)
  qed
qed

lemma held_in_idle [simp]: "held_in a (map (\<lambda>(nid, l). \<lparr>rd_local = l, rd_held = None\<rparr>) ls) = []"
  by (induction ls) auto

lemma Add_flows: "RaftContainer_Add rc ro = Returns rc1 \<Longrightarrow> flows a rc [] rc1 \<and> rc_pipe rc1 = rc_pipe rc"
  by (auto simp: RaftContainer_Add_def Let_def split: option.splits if_splits intro!: flows_idle(1))

lemma Remove_flows:
  assumes "RaftContainer_Remove rc nid = Returns rc1"
  shows "flows a rc [] rc1 \<and> rc_pipe rc1 = rc_pipe rc"
    "length (filter (of_raft a) (rc_redirects rc)) \<le> 1 \<Longrightarrow> ordered a rc [] rc1"
proof -
  have "rc1 = rc \<or> (\<exists>l ys zs. rc_redirects rc = ys @ \<lparr>rd_local = l, rd_held = None\<rparr> # zs \<and>
      rc1 = rc\<lparr>rc_locals := AList.delete nid (rc_locals rc), rc_redirects := ys @ zs\<rparr>)"
    using assms by (auto simp: RaftContainer_Remove_def remove1_append dest!: split_list_first split: option.splits if_splits) blast
  then show "flows a rc [] rc1 \<and> rc_pipe rc1 = rc_pipe rc"
    "length (filter (of_raft a) (rc_redirects rc)) \<le> 1 \<Longrightarrow> ordered a rc [] rc1"
    using flows_idle [of rc1 rc a] by (auto simp: of_raft_def)
qed

lemma Stop_flows:
  assumes "RaftContainer_Stop rc who = Some rc1"
  shows "flows a rc [] rc1 \<and> rc_pipe rc1 = rc_pipe rc"
    "length (filter (of_raft a) (rc_redirects rc)) \<le> 1 \<Longrightarrow> ordered a rc [] rc1"
proof -
  have "rc_heap rc1 = rc_heap rc \<and> rc_pipe rc1 = rc_pipe rc \<and> held_in a (rc_redirects rc1) = held_in a (rc_redirects rc) \<and>
      length (filter (of_raft a) (rc_redirects rc1)) \<le> length (filter (of_raft a) (rc_redirects rc))"
  proof (cases who)
    case (StopRedirect i)
    then have i: "i < length (rc_redirects rc)" "rd_held (rc_redirects rc ! i) = None"
      and rc1: "rc1 = rc\<lparr>rc_redirects := take i (rc_redirects rc) @ drop (Suc i) (rc_redirects rc), rc_started := False\<rparr>"
      using assms by (auto simp: RaftContainer_Stop_def split: if_splits)
    have "held_in a (rc_redirects rc) = held_in a (take i (rc_redirects rc) @ rc_redirects rc ! i # drop (Suc i) (rc_redirects rc))"
      "filter (of_raft a) (rc_redirects rc) = filter (of_raft a) (take i (rc_redirects rc) @ rc_redirects rc ! i # drop (Suc i) (rc_redirects rc))"
      using i(1) by (simp_all flip: id_take_nth_drop)
    then show ?thesis using i(2) rc1 by simp
  qed (use assms in \<open>auto simp: RaftContainer_Stop_def split: if_splits\<close>)
  then show "flows a rc [] rc1 \<and> rc_pipe rc1 = rc_pipe rc"
    "length (filter (of_raft a) (rc_redirects rc)) \<le> 1 \<Longrightarrow> ordered a rc [] rc1"
    using flows_idle [of rc1 rc a] by simp_all
qed

lemma raft_sends_flows: "flows a rc [] (raft_sends rc b m)"
  "length (filter (of_raft a) (rc_redirects rc)) \<le> 1 \<Longrightarrow> ordered a rc [] (raft_sends rc b m)"
  by (simp_all add: flows_def ordered_def raft_sends_def taken_from_def advances_def Let_def)

definition adds_goroutines :: "container_event \<Rightarrow> bool" where
  "adds_goroutines ev \<longleftrightarrow> (case ev of CallStart \<Rightarrow> True | CallAdd _ \<Rightarrow> True | _ \<Rightarrow> False)"

lemma container_next_flows:
  assumes "container_next ev rc = Some rc1"
  shows "rc_pipe rc @ map snd (puts ev rc) = takes ev rc @ rc_pipe rc1 \<and> flows a rc (puts ev rc) rc1"
    "length (filter (of_raft a) (rc_redirects rc)) \<le> 1 \<Longrightarrow> \<not> adds_goroutines ev \<Longrightarrow> ordered a rc (puts ev rc) rc1"
proof -
  have no: "puts ev rc = [] \<and> takes ev rc = []" if "\<nexists>sel i. ev = RedirectStep sel i" "\<nexists>j. ev = SenderReceives j"
    using that by (cases ev) (auto simp: puts_def takes_def)
  show "rc_pipe rc @ map snd (puts ev rc) = takes ev rc @ rc_pipe rc1 \<and> flows a rc (puts ev rc) rc1"
  proof (cases ev)
    case (RedirectStep sel i)
    then have s: "RaftContainer_redirect_step sel rc i = Some rc1" using assms by (simp add: container_next_def)
    have "rc_pipe rc @ map snd (puts ev rc) = takes ev rc @ rc_pipe rc1"
      using s RedirectStep by (auto simp: RaftContainer_redirect_step_def puts_def takes_def Let_def split: option.splits redirect_case.splits if_splits)
    then show ?thesis using redirect_step_flows(1) [OF s] RedirectStep by simp
  next
    case (SenderReceives j)
    then show ?thesis using assms
      by (auto simp: container_next_def RaftContainer_sender_receive_def puts_def takes_def split: if_splits list.splits intro: flows_idle(1))
  next
    case (SenderDone j)
    then show ?thesis using assms no by (auto simp: container_next_def RaftContainer_sender_done_def split: if_splits intro: flows_idle(1))
  next
    case CallStart
    then show ?thesis using assms no by (auto simp: container_next_def RaftContainer_Start_def intro: flows_idle(1))
  next
    case (CallStop who)
    then show ?thesis using assms no Stop_flows(1) [of rc who rc1 a] by (simp add: container_next_def)
  next
    case (CallAdd ro)
    then show ?thesis using assms no Add_flows [of rc ro rc1 a] by (auto simp: container_next_def split: progress.splits)
  next
    case (CallRemove nid)
    then show ?thesis using assms no Remove_flows(1) [of rc nid rc1 a] by (auto simp: container_next_def split: progress.splits)
  next
    case (RaftSends b m)
    then show ?thesis using assms no raft_sends_flows(1) by (auto simp: container_next_def raft_sends_def Let_def)
  qed
  assume one: "length (filter (of_raft a) (rc_redirects rc)) \<le> 1" and "\<not> adds_goroutines ev"
  then show "ordered a rc (puts ev rc) rc1"
  proof (cases ev)
    case (RedirectStep sel i)
    then show ?thesis using redirect_step_flows(2) one assms by (simp add: container_next_def)
  next
    case (SenderReceives j)
    then show ?thesis using assms one
      by (auto simp: container_next_def RaftContainer_sender_receive_def puts_def split: if_splits list.splits intro: flows_idle(2))
  next
    case (SenderDone j)
    then show ?thesis using assms no one
      by (auto simp: container_next_def RaftContainer_sender_done_def split: if_splits intro: flows_idle(2))
  next
    case (CallStop who)
    then show ?thesis using assms no one Stop_flows(2) [of rc who rc1 a] by (simp add: container_next_def)
  next
    case (CallRemove nid)
    then show ?thesis using assms no one Remove_flows(2) [of rc nid rc1 a] by (auto simp: container_next_def split: progress.splits)
  next
    case (RaftSends b m)
    then show ?thesis using assms no one raft_sends_flows(2) by (auto simp: container_next_def)
  qed (simp_all add: adds_goroutines_def)
qed

lemma chain_sum: "h + r = p + h1 \<Longrightarrow> h1 + r1 = p1 + h2 \<Longrightarrow> h + (r + r1) = p + p1 + (h2 :: 'a multiset)"
  by (metis union_assoc)

lemma chain_append: "h @ r = p @ h1 \<Longrightarrow> h1 @ r1 = p1 @ h2 \<Longrightarrow> h @ r @ r1 = p @ p1 @ h2"
  by (metis append_assoc)

lemma container_run_flows:
  assumes "container_run evs rc = (rc', ps, ts)"
  shows "rc_pipe rc @ map snd ps = ts @ rc_pipe rc' \<and> flows a rc ps rc' \<and>
    (length (filter (of_raft a) (rc_redirects rc)) \<le> 1 \<and> (\<forall>ev \<in> set evs. \<not> adds_goroutines ev) \<longrightarrow> ordered a rc ps rc')"
  using assms
proof (induction evs arbitrary: rc ps ts)
  case Nil
  then show ?case by (auto simp: flows_def ordered_def taken_from_def)
next
  case (Cons ev evs)
  show ?case
  proof (cases "container_next ev rc")
    case None
    then show ?thesis using Cons by auto
  next
    case (Some rc1)
    obtain ps1 ts1 where run: "container_run evs rc1 = (rc', ps1, ts1)" "ps = puts ev rc @ ps1" "ts = takes ev rc @ ts1"
      using Cons.prems Some by (auto split: prod.splits)
    note IH = Cons.IH [OF run(1)]
    note S = container_next_flows [OF Some, where a = a]
    have rec: "taken_from a rc rc' = taken_from a rc rc1 @ taken_from a rc1 rc'"
      using taken_from_trans [of rc a rc1 rc'] S(1) IH by (simp add: flows_def)
    have "flows a rc ps rc'"
      using S(1) IH advances_trans [of "rc_heap rc a" "rc_heap rc1 a" "rc_heap rc' a"]
        chain_sum [of "mset (held_in a (rc_redirects rc))" "mset (taken_from a rc rc1)" "mset (from_raft a (puts ev rc))"]
      by (simp add: flows_def rec run(2))
    moreover have "ordered a rc ps rc'" if "length (filter (of_raft a) (rc_redirects rc)) \<le> 1" "\<forall>ev \<in> set (ev # evs). \<not> adds_goroutines ev"
    proof -
      have 1: "ordered a rc (puts ev rc) rc1" using S(2) that by simp
      then have "ordered a rc1 ps1 rc'" using IH that(2) by (simp add: ordered_def)
      with 1 show ?thesis
        using chain_append [of "held_in a (rc_redirects rc)" "taken_from a rc rc1" "from_raft a (puts ev rc)"]
        by (simp add: ordered_def rec run(2))
    qed
    moreover have "rc_pipe rc @ map snd ps = ts @ rc_pipe rc'" 
      using S(1) IH run(2,3) chain_append [of "rc_pipe rc" "map snd (puts ev rc)" "takes ev rc" "rc_pipe rc1" "map snd ps1" ts1 "rc_pipe rc'"] by simp
    ultimately show ?thesis by blast
  qed
qed

text \<open>C23: Between the instances and the senders nothing is lost and nothing made up. In every run of a container, with its goroutines
  interleaved in any way, \<open>Start\<close>, \<open>Stop\<close>, \<open>Add\<close> and \<open>Remove\<close> included: the pipe is a queue from the goroutines to the senders; and for every instance
  the messages put into the pipe and those its goroutines still hold are, with multiplicities, those they held before and those they have received from
  the instance since. In a run without \<open>Start\<close> and \<open>Add\<close> the messages of an instance with at most one goroutine stay in order.\<close>

theorem redirect_conserves:
  assumes "container_run evs rc = (rc', ps, ts)"
  shows "rc_pipe rc @ map snd ps = ts @ rc_pipe rc' \<and>
    mset (held_in a (rc_redirects rc)) + mset (taken_from a rc rc') = mset (from_raft a ps) + mset (held_in a (rc_redirects rc')) \<and>
    (length (filter (of_raft a) (rc_redirects rc)) \<le> 1 \<and> (\<forall>ev \<in> set evs. \<not> adds_goroutines ev) \<longrightarrow>
       held_in a (rc_redirects rc) @ taken_from a rc rc' = from_raft a ps @ held_in a (rc_redirects rc'))"
  using container_run_flows [OF assms, of a] by (simp add: flows_def ordered_def)

text \<open>An instance that has sent two messages, in a container that has been started.\<close>

definition ex_mail :: "u64 \<Rightarrow> Message" where
  "ex_mail t = zero_Message\<lparr>msg_Term := t, msg_To := 2\<rparr>"

definition ex_two :: "raft \<Rightarrow> testRouter RaftContainer" where
  "ex_two r = RaftContainer_Start ((ex_remote r)\<lparr>rc_heap := (\<lambda>_. \<lparr>ra_raft = r\<lparr>r_outc := [ex_mail 1, ex_mail 2]\<rparr>, ra_inc = [], ra_taken = 0\<rparr>)\<rparr>)"

theorem redirect_conserves_witness:
  "\<exists>r rc' ps ts. ex_raft = Some r \<and> container_run [RedirectStep FromOutc 0, RedirectStep ToPipe 0, SenderReceives 0, RedirectStep FromOutc 0]
     (ex_two r) = (rc', ps, ts) \<and> from_raft 0 ps @ held_in 0 (rc_redirects rc') = [ex_mail 1, ex_mail 2]"
proof -
  let ?evs = "[RedirectStep FromOutc 0, RedirectStep ToPipe 0, SenderReceives 0, RedirectStep FromOutc 0]"
  obtain r where r: "ex_raft = Some r" using ex_raft_running by blast
  obtain rc' ps ts where R: "container_run ?evs (ex_two r) = (rc', ps, ts)" by (metis prod.exhaust)
  have start: "rc_redirects (ex_two r) = [\<lparr>rd_local = \<lparr>lr_Raft = 0, lr_removed = 0\<rparr>, rd_held = None\<rparr>]"
    by (simp add: ex_two_def RaftContainer_Start_def ex_remote_def NewRaftContainer_def)
  have "taken_from 0 (ex_two r) (fst (container_run ?evs (ex_two r))) = [ex_mail 1, ex_mail 2]"
    by (simp add: ex_two_def RaftContainer_Start_def ex_remote_def NewRaftContainer_def container_next_def RaftContainer_redirect_step_def
        RaftContainer_sender_receive_def defaultPipeBufferSize_def puts_def takes_def taken_from_def Let_def)
  then have "taken_from 0 (ex_two r) rc' = [ex_mail 1, ex_mail 2]" using R by simp
  moreover have "held_in 0 (rc_redirects (ex_two r)) @ taken_from 0 (ex_two r) rc' = from_raft 0 ps @ held_in 0 (rc_redirects rc')"
    using redirect_conserves [OF R, of 0] start by (simp add: of_raft_def adds_goroutines_def)
  ultimately show ?thesis using r R start by (intro exI [of _ r] exI) (auto simp: of_raft_def)
qed

text \<open>With two goroutines for an instance, which \<open>Stop\<close> and \<open>Start\<close> can leave, its messages can change places.\<close>

lemma redirect_reorders:
  "rc_pipe (fst (container_run [CallStop (StopSender 0), CallStart, RedirectStep FromOutc 0, RedirectStep FromOutc 1,
     RedirectStep ToPipe 1, RedirectStep ToPipe 0] (ex_two r))) = [ex_mail 2, ex_mail 1]"
  by (simp add: ex_two_def RaftContainer_Start_def ex_remote_def NewRaftContainer_def container_next_def RaftContainer_redirect_step_def
      RaftContainer_Stop_def defaultPipeBufferSize_def puts_def takes_def Let_def)

end
