(* ===== verification/GlobalPb.thy ===== *)
theory GlobalPb
  imports RaftPb
begin

text \<open>
  The remaining messages of \<open>src/globalpb/data.proto\<close> and \<open>src/globalpb/data.go\<close>. A hybrid
  timestamp is ordered by its wall time and then by its logical time, which makes it an instance
  of \<open>linorder\<close>.
\<close>

record Timestamp =
  ts_WallTime :: int
  ts_LogicalTime :: int

record Value =
  val_RawBytes :: "byte list"
  val_Timestamp :: "Timestamp option"

definition MakeValueFromBytesAndTimestamp :: "byte list \<Rightarrow> Timestamp option \<Rightarrow> Value" where
  "MakeValueFromBytesAndTimestamp val t = \<lparr>val_RawBytes = val, val_Timestamp = t\<rparr>"

definition zero_Timestamp :: Timestamp where
  "zero_Timestamp = \<lparr>ts_WallTime = 0, ts_LogicalTime = 0\<rparr>"

instantiation Timestamp_ext :: (linorder) linorder
begin

definition less_eq_Timestamp_ext :: "'a Timestamp_scheme \<Rightarrow> 'a Timestamp_scheme \<Rightarrow> bool" where
  "less_eq_Timestamp_ext s t \<longleftrightarrow> ts_WallTime s < ts_WallTime t \<or> ts_WallTime s = ts_WallTime t \<and>
     (ts_LogicalTime s < ts_LogicalTime t \<or> ts_LogicalTime s = ts_LogicalTime t \<and>
       Timestamp.more s \<le> Timestamp.more t)"

definition less_Timestamp_ext :: "'a Timestamp_scheme \<Rightarrow> 'a Timestamp_scheme \<Rightarrow> bool" where
  "less_Timestamp_ext s t \<longleftrightarrow> s \<le> t \<and> \<not> t \<le> s"

instance
proof
  fix s t u :: "'a Timestamp_scheme"
  show "s < t \<longleftrightarrow> s \<le> t \<and> \<not> t \<le> s" by (rule less_Timestamp_ext_def)
  show "s \<le> s" by (simp add: less_eq_Timestamp_ext_def)
  show "s \<le> t \<Longrightarrow> t \<le> u \<Longrightarrow> s \<le> u" by (auto simp: less_eq_Timestamp_ext_def)
  show "s \<le> t \<Longrightarrow> t \<le> s \<Longrightarrow> s = t" by (auto simp: less_eq_Timestamp_ext_def intro: Timestamp.equality)
  show "s \<le> t \<or> t \<le> s" by (auto simp: less_eq_Timestamp_ext_def)
qed

end

lemma Timestamp_less_iff:
  "(s :: Timestamp) < t \<longleftrightarrow> ts_WallTime s < ts_WallTime t \<or>
     ts_WallTime s = ts_WallTime t \<and> ts_LogicalTime s < ts_LogicalTime t"
  by (auto simp: less_Timestamp_ext_def less_eq_Timestamp_ext_def)

end
