(* ===== verification/Gossip.thy ===== *)
theory Gossip
  imports GlobalPb "HOL-Library.Sublist"
begin

text \<open>
  The store of shared information: \<open>src/shared/info.go\<close>, \<open>node_set.go\<close>, \<open>keys.go\<close> and \<open>store.go\<close>,
  with the messages of \<open>src/shared/shared.proto\<close>. Maps are association lists; the reading of the
  system clock is the argument \<open>now\<close> of the operations that take one. A regular expression
  is matched by the parameter \<open>re\<close>. A callback function is named by a number, and starting
  it in a goroutine is recorded in \<open>st_spawned\<close>.
\<close>

section \<open>Messages\<close>

record Node =
  nd_HighWaterStamp :: int
  nd_MinHops :: "32 word"

record Info =
  inf_Value :: "Value option"
  inf_TtlStamp :: int
  inf_OrigStamp :: int
  inf_Hops :: "32 word"
  inf_NodeId :: u64
  inf_PeerId :: u64

type_synonym infos = "(string \<times> Info) list"
type_synonym nodes = "(u64 \<times> Node) list"

section \<open>info.go\<close>

definition monotonicUnixNano :: "int \<Rightarrow> int \<Rightarrow> int" where
  "monotonicUnixNano lastStamp now = (if now \<le> lastStamp then wrap_int64 (lastStamp + 1) else now)"

text \<open>\<open>newInfo\<close> returns the info and the new value of \<open>monoTime.last\<close>; \<open>now\<close> and \<open>now'\<close> are its two
  readings of the clock.\<close>

definition newInfo :: "u64 \<Rightarrow> byte list \<Rightarrow> int \<Rightarrow> int \<Rightarrow> int \<Rightarrow> int \<Rightarrow> (Info \<times> int) go" where
  "newInfo nodeId val ttl now now' lastStamp =
     (if nodeId = 0 then Inl PanicCall
      else
        let orig = monotonicUnixNano lastStamp now' in
        Inr (\<lparr>inf_Value = Some (MakeValueFromBytesAndTimestamp val (Some \<lparr>ts_WallTime = now, ts_LogicalTime = 0\<rparr>)),
              inf_TtlStamp = (if ttl = 0 then 2 ^ 63 - 1 else wrap_int64 (orig + ttl)),
              inf_OrigStamp = orig, inf_Hops = 0, inf_NodeId = nodeId, inf_PeerId = 0\<rparr>, orig))"

definition Info_isExpired :: "Info \<Rightarrow> int \<Rightarrow> bool" where
  "Info_isExpired i now \<longleftrightarrow> now > inf_TtlStamp i"

definition Info_isFresh :: "Info \<Rightarrow> u64 \<Rightarrow> Node option \<Rightarrow> bool" where
  "Info_isFresh i thisNodeId node =
     (case node of
        None \<Rightarrow> True
      | Some n \<Rightarrow>
          if thisNodeId = inf_NodeId i then False
          else inf_OrigStamp i > nd_HighWaterStamp n \<or>
            inf_OrigStamp i = nd_HighWaterStamp n \<and> inf_Hops i < nd_MinHops n)"

section \<open>node_set.go\<close>

record nodeSet =
  ns_nodes :: "(u64 \<times> unit) list"
  ns_maxsize :: int

definition newNodeSet :: "int \<Rightarrow> nodeSet" where
  "newNodeSet maxsize = \<lparr>ns_nodes = [], ns_maxsize = maxsize\<rparr>"

definition nodeSet_len :: "nodeSet \<Rightarrow> nat" where
  "nodeSet_len ns = length (ns_nodes ns)"

definition nodeSet_setMaxSize :: "nodeSet \<Rightarrow> int \<Rightarrow> nodeSet" where
  "nodeSet_setMaxSize ns n = ns\<lparr>ns_maxsize := n\<rparr>"

definition nodeSet_hasSpace :: "nodeSet \<Rightarrow> bool" where
  "nodeSet_hasSpace ns \<longleftrightarrow> int (nodeSet_len ns) < ns_maxsize ns"

definition nodeSet_addNode :: "nodeSet \<Rightarrow> u64 \<Rightarrow> nodeSet" where
  "nodeSet_addNode ns nodeId = ns\<lparr>ns_nodes := AList.update nodeId () (ns_nodes ns)\<rparr>"

definition nodeSet_removeNode :: "nodeSet \<Rightarrow> u64 \<Rightarrow> nodeSet" where
  "nodeSet_removeNode ns nodeId =
     (if map_of (ns_nodes ns) nodeId \<noteq> None then ns\<lparr>ns_nodes := AList.delete nodeId (ns_nodes ns)\<rparr> else ns)"

definition nodeSet_hasNode :: "nodeSet \<Rightarrow> u64 \<Rightarrow> bool" where
  "nodeSet_hasNode ns nodeId \<longleftrightarrow> map_of (ns_nodes ns) nodeId \<noteq> None"

definition nodeSet_asSlice :: "nodeSet \<Rightarrow> u64 list" where
  "nodeSet_asSlice ns = map fst (ns_nodes ns)"

section \<open>keys.go\<close>

definition separator :: string where
  "separator = '':''"

definition KeyNodeIdPrefix :: string where
  "KeyNodeIdPrefix = ''node''"

definition KeySentinel :: string where
  "KeySentinel = ''sentinel''"

fun strings_Join :: "string list \<Rightarrow> string \<Rightarrow> string" where
  "strings_Join [] sep = []"
| "strings_Join [x] sep = x"
| "strings_Join (x # y # xs) sep = x @ sep @ strings_Join (y # xs) sep"

fun digits :: "nat \<Rightarrow> nat list" where
  "digits n = (if n < 10 then [n] else digits (n div 10) @ [n mod 10])"

declare digits.simps [simp del]

definition FormatUint10 :: "u64 \<Rightarrow> string" where
  "FormatUint10 n = map (\<lambda>d. char_of (48 + d)) (digits (unat n))"

definition MakeKey :: "string list \<Rightarrow> string" where
  "MakeKey components = strings_Join components separator"

definition MakeNodeIdKey :: "u64 \<Rightarrow> string" where
  "MakeNodeIdKey nodeId = MakeKey [KeyNodeIdPrefix, FormatUint10 nodeId]"

section \<open>store.go\<close>

datatype store_error = ErrNotFresh

record callback =
  cb_id :: nat
  cb_pattern :: string
  cb_f :: nat

record store =
  st_meta :: NodeMeta
  st_infos :: infos
  st_nodes :: nodes
  st_callbacks :: "callback list"
  st_spawned :: "(nat \<times> string \<times> Value) list"

definition newStore :: "NodeMeta \<Rightarrow> store" where
  "newStore meta = \<lparr>st_meta = meta, st_infos = [], st_nodes = [], st_callbacks = [], st_spawned = []\<rparr>"

text \<open>\<open>visitInfos\<close>: its loop over the infos, where \<open>f\<close> works on a state \<open>'u\<close> and may return an error;
  the infos that had expired are deleted on the way. The result is the error, the state and the
  infos that are left.\<close>

fun visit_loop :: "int \<Rightarrow> (string \<Rightarrow> Info \<Rightarrow> 'u \<Rightarrow> 'e option \<times> 'u) \<Rightarrow> infos \<Rightarrow> infos \<Rightarrow> 'u \<Rightarrow> 'e option \<times> 'u \<times> infos" where
  "visit_loop now f [] infos u = (None, u, infos)"
| "visit_loop now f ((k, i) # rest) infos u =
     (if Info_isExpired i now then visit_loop now f rest (AList.delete k infos) u
      else case f k i u of
        (Some err, u') \<Rightarrow> (Some err, u', infos)
      | (None, u') \<Rightarrow> visit_loop now f rest infos u')"

definition store_visitInfos ::
  "store \<Rightarrow> int \<Rightarrow> (string \<Rightarrow> Info \<Rightarrow> 'u \<Rightarrow> 'e option \<times> 'u) \<Rightarrow> 'u \<Rightarrow> 'e option \<times> 'u \<times> store" where
  "store_visitInfos s now f u =
     (case visit_loop now f (st_infos s) (st_infos s) u of (err, u', infos) \<Rightarrow> (err, u', s\<lparr>st_infos := infos\<rparr>))"

text \<open>In Go the map that \<open>getNodes\<close> returns is a new one, but its values are pointers to the store's own \<open>Node\<close>s; here they are copied, as
  they are when the request is encoded.\<close>

definition store_getNodes :: "store \<Rightarrow> nodes" where
  "store_getNodes s = st_nodes s"

definition store_delta :: "store \<Rightarrow> int \<Rightarrow> nodes \<Rightarrow> (infos \<times> store) go" where
  "store_delta s now nodes =
     (case store_visitInfos s now
        (\<lambda>key info ret.
          (None :: unit option,
           if Info_isFresh info (node_Id (st_meta s)) (map_of nodes (inf_NodeId info))
           then AList.update key info ret else ret)) [] of
        (Some err, _, _) \<Rightarrow> Inl PanicCall
      | (None, ret, s') \<Rightarrow> Inr (ret, s'))"

definition store_addInfo :: "store \<Rightarrow> string \<Rightarrow> Info \<Rightarrow> (store_error option \<times> store) go" where
  "store_addInfo s key info =
     (if inf_NodeId info = 0 then Inl PanicCall
      else
        go_bind
          (case map_of (st_infos s) key of
             None \<Rightarrow> Inr False
           | Some i \<Rightarrow>
               (case inf_Value i of
                  None \<Rightarrow> Inl NilDereference
                | Some v \<Rightarrow>
                    (case val_Timestamp v of
                       None \<Rightarrow> Inl NilDereference
                     | Some ts \<Rightarrow>
                         let existingTime = ts_WallTime ts; newTime = ts_WallTime ts in
                         Inr (existingTime > newTime \<or> existingTime = newTime \<and> inf_Hops i \<le> inf_Hops info))))
          (\<lambda>stale.
            if stale then Inr (Some ErrNotFresh, s)
            else
              Inr (None, s\<lparr>st_infos := AList.update key info (st_infos s),
                st_nodes :=
                  (case map_of (st_nodes s) (inf_NodeId info) of
                     Some node \<Rightarrow>
                       AList.update (inf_NodeId info)
                         \<lparr>nd_HighWaterStamp = (if nd_HighWaterStamp node < inf_OrigStamp info
                            then inf_OrigStamp info else nd_HighWaterStamp node),
                          nd_MinHops = (if nd_MinHops node > inf_Hops info then inf_Hops info else nd_MinHops node)\<rparr>
                         (st_nodes s)
                   | None \<Rightarrow>
                       AList.update (inf_NodeId info)
                         \<lparr>nd_HighWaterStamp = inf_OrigStamp info, nd_MinHops = inf_Hops info\<rparr> (st_nodes s))\<rparr>)))"

fun store_combine_loop :: "store \<Rightarrow> infos \<Rightarrow> nat \<Rightarrow> store_error option \<Rightarrow> (nat \<times> store_error option \<times> store) go" where
  "store_combine_loop s [] freshCount err = Inr (freshCount, err, s)"
| "store_combine_loop s ((k, i) # rest) freshCount err =
     (let copy = i\<lparr>inf_Hops := inf_Hops i + 1, inf_PeerId := node_Id (st_meta s)\<rparr> in
      if inf_OrigStamp copy = 0 then Inl PanicCall
      else
        go_bind (store_addInfo s k copy) (\<lambda>(addErr, s').
          case addErr of
            None \<Rightarrow> store_combine_loop s' rest (Suc freshCount) err
          | Some e \<Rightarrow> store_combine_loop s' rest freshCount (if e \<noteq> ErrNotFresh then Some e else err)))"

definition store_combine :: "store \<Rightarrow> infos \<Rightarrow> (nat \<times> store_error option \<times> store) go" where
  "store_combine s delta = store_combine_loop s delta 0 None"

definition store_getInfo :: "store \<Rightarrow> int \<Rightarrow> string \<Rightarrow> Info option \<times> store" where
  "store_getInfo s now key =
     (case map_of (st_infos s) key of
        Some i \<Rightarrow>
          if Info_isExpired i now then (None, s\<lparr>st_infos := AList.delete key (st_infos s)\<rparr>) else (Some i, s)
      | None \<Rightarrow> (None, s))"

fun mostDistant_loop :: "nodes \<Rightarrow> u64 \<Rightarrow> 32 word \<Rightarrow> u64 \<times> 32 word" where
  "mostDistant_loop [] nodeId maxHops = (nodeId, maxHops)"
| "mostDistant_loop ((nid, n) # rest) nodeId maxHops =
     (if nd_MinHops n > maxHops then mostDistant_loop rest nid (nd_MinHops n)
      else mostDistant_loop rest nodeId maxHops)"

definition store_mostDistant :: "store \<Rightarrow> u64 \<times> int" where
  "store_mostDistant s =
     (let (nodeId, maxHops) = mostDistant_loop (st_nodes s) 0 0 in (nodeId, int (unat maxHops)))"

fun leastUseful_loop :: "(u64 \<times> int) list \<Rightarrow> u64 \<Rightarrow> int \<Rightarrow> u64" where
  "leastUseful_loop [] nodeId minCnt = nodeId"
| "leastUseful_loop ((nid, cnt) # rest) nodeId minCnt =
     (if cnt < minCnt then leastUseful_loop rest nid cnt else leastUseful_loop rest nodeId minCnt)"

definition store_leastUseful :: "store \<Rightarrow> int \<Rightarrow> nodeSet \<Rightarrow> (u64 \<times> store) go" where
  "store_leastUseful s now nodes =
     (let statistics = map (\<lambda>(nid, _). (nid, 0)) (ns_nodes nodes) in
      case store_visitInfos s now
        (\<lambda>_ info st.
          (None :: unit option,
           if map_of (ns_nodes nodes) (inf_NodeId info) \<noteq> None
           then AList.map_entry (inf_NodeId info) (\<lambda>c. c + 1) st else st)) statistics of
        (Some err, _, _) \<Rightarrow> Inl PanicCall
      | (None, st, s') \<Rightarrow> Inr (leastUseful_loop st 0 0, s'))"

text \<open>\<open>registerCallback\<close>: the new callback is named by \<open>cid\<close>, the address of the allocated object, which
  the function it returns (\<open>store_unregister\<close>) looks for.\<close>

definition store_registerCallback ::
  "(string \<Rightarrow> string \<Rightarrow> bool) \<Rightarrow> store \<Rightarrow> int \<Rightarrow> nat \<Rightarrow> string \<Rightarrow> nat \<Rightarrow> store go" where
  "store_registerCallback re s now cid pattern f =
     (let s1 = s\<lparr>st_callbacks := st_callbacks s @ [\<lparr>cb_id = cid, cb_pattern = pattern, cb_f = f\<rparr>]\<rparr> in
      case store_visitInfos s1 now
        (\<lambda>key info (calls, fault).
          (None :: unit option,
           if re pattern key then
             (case inf_Value info of
                None \<Rightarrow> (calls, True)
              | Some v \<Rightarrow> (calls @ [(f, key, v)], fault))
           else (calls, fault))) ([], False) of
        (Some err, _, _) \<Rightarrow> Inl PanicCall
      | (None, (calls, fault), s2) \<Rightarrow>
          if fault then Inl NilDereference else Inr (s2\<lparr>st_spawned := st_spawned s2 @ calls\<rparr>))"

fun unregister_loop :: "callback list \<Rightarrow> nat \<Rightarrow> nat list \<Rightarrow> callback list" where
  "unregister_loop cbs cid [] = cbs"
| "unregister_loop cbs cid (i # is) =
     (if cb_id (cbs ! i) = cid then
        let n = length cbs in take (n - 1) (cbs[i := cbs ! (n - 1), n - 1 := cbs ! i])
      else unregister_loop cbs cid is)"

definition store_unregister :: "store \<Rightarrow> nat \<Rightarrow> store" where
  "store_unregister s cid =
     s\<lparr>st_callbacks := unregister_loop (st_callbacks s) cid [0 ..< length (st_callbacks s)]\<rparr>"

definition store_processCallback :: "(string \<Rightarrow> string \<Rightarrow> bool) \<Rightarrow> store \<Rightarrow> string \<Rightarrow> Value \<Rightarrow> store" where
  "store_processCallback re s key val =
     s\<lparr>st_spawned := st_spawned s @
        map (\<lambda>cb. (cb_f cb, key, val)) (filter (\<lambda>cb. re (cb_pattern cb) key) (st_callbacks s))\<rparr>"

end
