(* ===== verification/GossipSpec.thy ===== *)
theory GossipSpec
  imports Gossip
begin

text \<open>
  What the store of shared information guarantees: its invariant, what a delta contains, what
  combining a delta changes, and the order of the stamps it hands out.
\<close>

section \<open>Association lists\<close>

lemma update_new: "k \<notin> set (keys m) \<Longrightarrow> AList.update k v m = m @ [(k, v)]"
  by (induction m) auto

lemma delete_filter: "AList.delete k m = filter (\<lambda>p. fst p \<noteq> k) m"
  by (induction m) auto

lemma delete_absent: "k \<notin> set (keys m) \<Longrightarrow> AList.delete k m = m"
  by (induction m) auto

lemma delete_append: "AList.delete k (m @ m') = AList.delete k m @ AList.delete k m'"
  by (simp add: delete_filter)

lemma update_set: "p \<in> set (AList.update k v m) \<Longrightarrow> p = (k, v) \<or> p \<in> set m"
  by (induction m) (auto split: if_splits)

lemma keys_filter: "set (keys (filter P m)) \<subseteq> set (keys m)"
  by (auto simp: keys_def)

lemma distinct_keys_filter: "distinct (keys m) \<Longrightarrow> distinct (keys (filter P m))"
  by (simp add: keys_def distinct_map_filter)

section \<open>Node sets\<close>

lemma nodeSet_hasNode_iff: "nodeSet_hasNode ns n \<longleftrightarrow> n \<in> set (nodeSet_asSlice ns)"
  using map_of_None_keys [of "ns_nodes ns" n] by (auto simp: nodeSet_hasNode_def nodeSet_asSlice_def keys_def)

lemma nodeSet_asSlice_simps [simp]:
  "set (nodeSet_asSlice (nodeSet_addNode ns n)) = insert n (set (nodeSet_asSlice ns))"
  "set (nodeSet_asSlice (nodeSet_removeNode ns n)) = set (nodeSet_asSlice ns) - {n}"
  "nodeSet_asSlice (nodeSet_setMaxSize ns k) = nodeSet_asSlice ns" "nodeSet_asSlice (newNodeSet k) = []"
proof -
  show "set (nodeSet_asSlice (nodeSet_addNode ns n)) = insert n (set (nodeSet_asSlice ns))"
    using keys_update [of n "()" "ns_nodes ns"] by (simp add: nodeSet_asSlice_def nodeSet_addNode_def keys_def)
  show "set (nodeSet_asSlice (nodeSet_removeNode ns n)) = set (nodeSet_asSlice ns) - {n}"
    using keys_delete [of n "ns_nodes ns"] map_of_None_keys [of "ns_nodes ns" n]
    by (auto simp: nodeSet_asSlice_def nodeSet_removeNode_def keys_def)
qed (simp_all add: nodeSet_asSlice_def nodeSet_setMaxSize_def newNodeSet_def)

section \<open>Keys\<close>

definition ParseUint10 :: "string \<Rightarrow> nat" where
  "ParseUint10 s = foldl (\<lambda>a c. 10 * a + (of_char c - 48)) 0 s"

lemma digits_less: "d \<in> set (digits n) \<Longrightarrow> d < 10"
  by (induction n rule: digits.induct) (subst (asm) digits.simps, auto split: if_splits)

lemma foldl_digits: "foldl (\<lambda>a d. 10 * a + d) 0 (digits n) = n"
  by (induction n rule: digits.induct) (subst digits.simps, auto)

lemma ParseUint10_digits: "(\<And>d. d \<in> set ds \<Longrightarrow> d < 10) \<Longrightarrow>
    foldl (\<lambda>a c. 10 * a + (of_char c - 48)) x (map (\<lambda>d. char_of (48 + d)) ds) = foldl (\<lambda>a d. 10 * a + d) (x :: nat) ds"
proof (induction ds arbitrary: x)
  case (Cons d ds)
  then have "d < 10" by simp
  then have "(48 + d) mod 256 = 48 + d" by simp
  then show ?case using Cons by simp
qed simp

lemma ParseUint10_Format: "ParseUint10 (FormatUint10 n) = unat n"
  by (simp add: ParseUint10_def FormatUint10_def ParseUint10_digits digits_less foldl_digits)

section \<open>Visiting the infos\<close>

abbreviation live :: "int \<Rightarrow> string \<times> Info \<Rightarrow> bool" where
  "live now p \<equiv> \<not> Info_isExpired (snd p) now"

lemma visit_loop_all:
  assumes "\<And>k i u. fst (f k i u) = None" "distinct (keys (pre @ rest))"
  shows "visit_loop now f rest (pre @ rest) u =
    (None, foldl (\<lambda>u p. snd (f (fst p) (snd p) u)) u (filter (live now) rest), pre @ filter (live now) rest)"
  using assms(2)
proof (induction rest arbitrary: pre u)
  case (Cons p rest)
  obtain k i where p: "p = (k, i)" by fastforce
  show ?case
  proof (cases "Info_isExpired i now")
    case True
    have "AList.delete k (pre @ (k, i) # rest) = pre @ rest"
      using Cons.prems p by (simp add: delete_append delete_absent)
    then show ?thesis using Cons.IH [of pre u] Cons.prems True p by simp
  next
    case False
    obtain u' where f: "f k i u = (None, u')" using assms(1) [of k i u] by (cases "f k i u") auto
    show ?thesis using Cons.IH [of "pre @ [p]" u'] Cons.prems False p f by simp
  qed
qed simp

lemma store_visitInfos_all:
  assumes "\<And>k i u. fst (f k i u) = None" "distinct (keys (st_infos s))"
  shows "store_visitInfos s now f u =
    (None, foldl (\<lambda>u p. snd (f (fst p) (snd p) u)) u (filter (live now) (st_infos s)),
     s\<lparr>st_infos := filter (live now) (st_infos s)\<rparr>)"
  using visit_loop_all [of f "[]" "st_infos s" now u] assms by (simp add: store_visitInfos_def)

lemma foldl_collect:
  "distinct (keys (acc @ ps)) \<Longrightarrow>
   foldl (\<lambda>ret p. if P p then AList.update (fst p) (snd p) ret else ret) acc ps = acc @ filter P ps"
proof (induction ps arbitrary: acc)
  case (Cons p ps)
  have "fst p \<notin> set (keys acc)" using Cons.prems by (auto simp: keys_def)
  moreover have "distinct (keys (acc @ ps))" using Cons.prems by (auto simp: keys_def)
  ultimately show ?case using Cons.IH [of acc] Cons.IH [of "acc @ [p]"] Cons.prems by (simp add: update_new)
qed simp

lemma store_delta_eq:
  assumes "distinct (keys (st_infos s))"
  shows "store_delta s now nodes =
    Inr (filter (\<lambda>p. live now p \<and> Info_isFresh (snd p) (node_Id (st_meta s)) (map_of nodes (inf_NodeId (snd p)))) (st_infos s),
         s\<lparr>st_infos := filter (live now) (st_infos s)\<rparr>)"
  using foldl_collect [of "[]" "filter (live now) (st_infos s)"] distinct_keys_filter [OF assms, of "live now"]
  by (simp add: store_delta_def store_visitInfos_all [OF _ assms] if_distrib [of snd] filter_filter conj_commute
      split_beta cong: if_cong)

section \<open>The invariant of a store\<close>

definition info_ok :: "Info \<Rightarrow> bool" where
  "info_ok i \<longleftrightarrow> inf_NodeId i \<noteq> 0 \<and> inf_OrigStamp i \<noteq> 0 \<and>
     (\<exists>v ts. inf_Value i = Some v \<and> val_Timestamp v = Some ts)"

definition covers :: "Node \<Rightarrow> Info \<Rightarrow> bool" where
  "covers n i \<longleftrightarrow> inf_OrigStamp i \<le> nd_HighWaterStamp n \<and> nd_MinHops n \<le> inf_Hops i"

definition store_ok :: "store \<Rightarrow> bool" where
  "store_ok s \<longleftrightarrow> distinct (keys (st_infos s)) \<and> distinct (keys (st_nodes s)) \<and>
     (\<forall>(k, i) \<in> set (st_infos s). info_ok i \<and> (\<exists>n. map_of (st_nodes s) (inf_NodeId i) = Some n \<and> covers n i))"

lemma store_okD:
  assumes "store_ok s" "map_of (st_infos s) k = Some i"
  shows "info_ok i" "\<exists>n. map_of (st_nodes s) (inf_NodeId i) = Some n \<and> covers n i"
  using assms by (auto simp: store_ok_def dest!: map_of_SomeD)

lemma store_ok_new: "store_ok (newStore meta)"
  by (simp add: store_ok_def newStore_def)

lemma store_ok_filter: "store_ok s \<Longrightarrow> store_ok (s\<lparr>st_infos := filter P (st_infos s)\<rparr>)"
  by (auto simp: store_ok_def distinct_keys_filter)

text \<open>Every branch of \<open>addInfo\<close>.\<close>

definition node_merge :: "Info \<Rightarrow> Node option \<Rightarrow> Node" where
  "node_merge i n = (case n of
     None \<Rightarrow> \<lparr>nd_HighWaterStamp = inf_OrigStamp i, nd_MinHops = inf_Hops i\<rparr>
   | Some n \<Rightarrow> \<lparr>nd_HighWaterStamp = max (nd_HighWaterStamp n) (inf_OrigStamp i), nd_MinHops = min (nd_MinHops n) (inf_Hops i)\<rparr>)"

definition store_insert :: "store \<Rightarrow> string \<Rightarrow> Info \<Rightarrow> store" where
  "store_insert s k i = s\<lparr>st_infos := AList.update k i (st_infos s),
     st_nodes := AList.update (inf_NodeId i) (node_merge i (map_of (st_nodes s) (inf_NodeId i))) (st_nodes s)\<rparr>"

definition outdone :: "store \<Rightarrow> string \<Rightarrow> Info \<Rightarrow> bool" where
  "outdone s k i \<longleftrightarrow> (\<exists>j. map_of (st_infos s) k = Some j \<and> inf_Hops j \<le> inf_Hops i)"

lemma store_addInfo_eq:
  assumes "store_ok s" "inf_NodeId i \<noteq> 0"
  shows "store_addInfo s k i = Inr (if outdone s k i then (Some ErrNotFresh, s) else (None, store_insert s k i))"
proof -
  have merge: "(case n of
      Some node \<Rightarrow> AList.update x \<lparr>nd_HighWaterStamp = (if nd_HighWaterStamp node < inf_OrigStamp i
            then inf_OrigStamp i else nd_HighWaterStamp node),
          nd_MinHops = (if nd_MinHops node > inf_Hops i then inf_Hops i else nd_MinHops node)\<rparr> m
    | None \<Rightarrow> AList.update x \<lparr>nd_HighWaterStamp = inf_OrigStamp i, nd_MinHops = inf_Hops i\<rparr> m) =
    AList.update x (node_merge i n) m" for n x and m :: nodes
    by (auto simp: node_merge_def max_def min_def split: option.splits)
  show ?thesis
  proof (cases "map_of (st_infos s) k")
    case None
    then show ?thesis using assms(2) by (simp add: store_addInfo_def outdone_def store_insert_def merge)
  next
    case (Some j)
    obtain v ts where "inf_Value j = Some v" "val_Timestamp v = Some ts"
      using store_okD(1) [OF assms(1) Some] by (auto simp: info_ok_def)
    then show ?thesis using Some assms(2) by (simp add: store_addInfo_def outdone_def store_insert_def merge Let_def)
  qed
qed

lemma store_ok_insert:
  assumes "store_ok s" "info_ok i"
  shows "store_ok (store_insert s k i)"
proof -
  let ?m = "node_merge i (map_of (st_nodes s) (inf_NodeId i))"
  have cov: "covers (node_merge i x) i" for x
    by (auto simp: covers_def node_merge_def split: option.splits)
  have keep: "covers (node_merge i (Some n)) j" if "covers n j" for n j
    using that by (auto simp: covers_def node_merge_def min_def)
  have "info_ok j \<and> (\<exists>n. map_of (st_nodes (store_insert s k i)) (inf_NodeId j) = Some n \<and> covers n j)"
    if "(k', j) \<in> set (st_infos (store_insert s k i))" for k' j
  proof (cases "(k', j) \<in> set (st_infos s)")
    case True
    then obtain n where n: "info_ok j" "map_of (st_nodes s) (inf_NodeId j) = Some n" "covers n j"
      using assms(1) by (auto simp: store_ok_def)
    then show ?thesis using keep [OF n(3)] by (auto simp: store_insert_def update_conv')
  next
    case False
    then have "j = i" using that by (auto simp: store_insert_def dest: update_set)
    then show ?thesis using assms(2) cov by (simp add: store_insert_def update_conv')
  qed
  then show ?thesis
    using assms(1) by (auto simp: store_ok_def store_insert_def distinct_keys_update)
qed

lemma store_ok_addInfo:
  "store_ok s \<Longrightarrow> info_ok i \<Longrightarrow> store_addInfo s k i = Inr (e, s') \<Longrightarrow> store_ok s'"
  using store_addInfo_eq [of s i k] store_ok_insert [of s i k] by (auto simp: info_ok_def split: if_splits)

lemma store_ok_getInfo: "store_ok s \<Longrightarrow> store_ok (snd (store_getInfo s now k))"
  by (auto simp: store_getInfo_def delete_filter store_ok_filter split: option.splits)

section \<open>Combining a delta\<close>

definition delta_ok :: "infos \<Rightarrow> bool" where
  "delta_ok d \<longleftrightarrow> (\<forall>(k, i) \<in> set d. info_ok i)"

definition received :: "store \<Rightarrow> Info \<Rightarrow> Info" where
  "received s i = i\<lparr>inf_Hops := inf_Hops i + 1, inf_PeerId := node_Id (st_meta s)\<rparr>"

lemma received_ok [simp]: "info_ok (received s i) = info_ok i"
  by (simp add: info_ok_def received_def)

lemma store_insert_meta [simp]: "st_meta (store_insert s k i) = st_meta s"
  by (simp add: store_insert_def)

lemma received_insert [simp]: "received (store_insert s k j) i = received s i"
  by (simp add: received_def)

text \<open>One info of the delta: kept out when the store has one with no more hops, else stored.\<close>

lemma store_combine_loop_Cons:
  assumes "store_ok s" "info_ok i"
  shows "store_combine_loop s ((k, i) # rest) c err =
    (if outdone s k (received s i) then store_combine_loop s rest c err
     else store_combine_loop (store_insert s k (received s i)) rest (Suc c) err)"
  using store_addInfo_eq [OF assms(1), of "received s i" k] assms(2)
  by (auto simp: received_def info_ok_def Let_def)

lemma outdone_insert_same: "outdone (store_insert s k i) k i"
  by (simp add: outdone_def store_insert_def update_conv')

lemma outdone_insert:
  "outdone s k j \<Longrightarrow> \<not> outdone s k' i \<Longrightarrow> outdone (store_insert s k' i) k j"
  by (auto simp: outdone_def store_insert_def update_conv')

lemma store_combine_loop_ok:
  assumes "store_ok s" "delta_ok d"
  shows "\<exists>n s'. store_combine_loop s d c err = Inr (c + n, err, s') \<and> n \<le> length d \<and> store_ok s' \<and> st_meta s' = st_meta s \<and>
    (\<forall>(k, i) \<in> set d. outdone s' k (received s i)) \<and>
    (\<forall>k j. outdone s k j \<longrightarrow> outdone s' k j) \<and>
    (\<forall>k. k \<notin> set (keys d) \<longrightarrow> map_of (st_infos s') k = map_of (st_infos s) k)"
  using assms
proof (induction d arbitrary: s c)
  case (Cons p d)
  obtain k i where p: "p = (k, i)" by fastforce
  have i: "info_ok i" and d: "delta_ok d" using Cons.prems(2) p by (auto simp: delta_ok_def)
  note eq = store_combine_loop_Cons [OF Cons.prems(1) i, of k d c err]
  show ?case
  proof (cases "outdone s k (received s i)")
    case True
    then show ?thesis using Cons.IH [OF Cons.prems(1) d, of c] eq p by force
  next
    case False
    let ?s = "store_insert s k (received s i)"
    obtain n s' where s': "store_combine_loop ?s d (Suc c) err = Inr (Suc c + n, err, s')" "n \<le> length d" "store_ok s'"
      "st_meta s' = st_meta s" "\<forall>(k, i) \<in> set d. outdone s' k (received s i)" "\<forall>k j. outdone ?s k j \<longrightarrow> outdone s' k j"
      "\<forall>k. k \<notin> set (keys d) \<longrightarrow> map_of (st_infos s') k = map_of (st_infos ?s) k"
      using Cons.IH [OF store_ok_insert [OF Cons.prems(1), of "received s i" k] d, of "Suc c"] i
      unfolding received_insert store_insert_meta received_ok by blast
    have "outdone s' k (received s i)" using s'(6) outdone_insert_same by blast
    moreover have "outdone s' k' j" if "outdone s k' j" for k' j using outdone_insert [OF that False] s'(6) by blast
    moreover have "map_of (st_infos ?s) k' = map_of (st_infos s) k'" if "k' \<noteq> k" for k'
      using that by (simp add: store_insert_def update_conv')
    ultimately show ?thesis using s' eq p False by (intro exI [of _ "Suc n"] exI [of _ s']) auto
  qed
qed simp

lemma store_combine_outdone:
  assumes "store_ok s" "delta_ok d" "\<forall>(k, i) \<in> set d. outdone s k (received s i)"
  shows "store_combine_loop s d c err = Inr (c, err, s)"
  using assms
proof (induction d)
  case (Cons p d)
  then show ?case using store_combine_loop_Cons [OF Cons.prems(1), of "snd p" "fst p" d c err]
    by (cases p) (auto simp: delta_ok_def)
qed simp

section \<open>Ranking the nodes\<close>

lemma mostDistant_loop_max:
  "h0 \<le> snd (mostDistant_loop ns n0 h0) \<and> (\<forall>p \<in> set ns. nd_MinHops (snd p) \<le> snd (mostDistant_loop ns n0 h0)) \<and>
   (mostDistant_loop ns n0 h0 = (n0, h0) \<or>
    (\<exists>n. (fst (mostDistant_loop ns n0 h0), n) \<in> set ns \<and> nd_MinHops n = snd (mostDistant_loop ns n0 h0)))"
proof (induction ns arbitrary: n0 h0)
  case (Cons p ns)
  obtain k n where p: "p = (k, n)" by fastforce
  show ?case
  proof (cases "nd_MinHops n > h0")
    case True
    then show ?thesis using Cons.IH [of "nd_MinHops n" k] p by (auto simp: less_imp_le intro: order_trans)
  next
    case False
    then show ?thesis using Cons.IH [of h0 n0] p by (auto intro: order_trans)
  qed
qed simp

lemma leastUseful_loop_nonneg: "\<forall>p \<in> set st. 0 \<le> snd p \<Longrightarrow> leastUseful_loop st n 0 = n"
  by (induction st) auto

lemma map_entry_nonneg: "\<forall>p \<in> set st. 0 \<le> snd p \<Longrightarrow> \<forall>p \<in> set (AList.map_entry k (\<lambda>c. c + 1) st). (0 :: int) \<le> snd p"
proof (induction st)
  case (Cons a st)
  then show ?case by (cases a) auto
qed simp

lemma foldl_nonneg:
  fixes st :: "(u64 \<times> int) list"
  assumes "\<forall>p \<in> set st. 0 \<le> snd p"
  shows "\<forall>p \<in> set (foldl (\<lambda>st q. if P q then AList.map_entry (g q) (\<lambda>c. c + 1) st else st) st qs). 0 \<le> snd p"
  using assms
proof (induction qs arbitrary: st)
  case (Cons q qs)
  then show ?case using map_entry_nonneg [of st "g q"] by (cases "P q") simp_all
qed simp

section \<open>Callbacks\<close>

lemma mset_swap_last:
  assumes "i < length xs"
  shows "mset (take (length xs - 1) (xs[i := xs ! (length xs - 1), length xs - 1 := xs ! i])) = mset xs - {#xs ! i#}"
proof -
  let ?n = "length xs - 1"
  let ?ys = "xs[i := xs ! ?n, ?n := xs ! i]"
  have n: "?n < length xs" "?n < length ?ys" using assms by auto
  have "take (Suc ?n) ?ys = ?ys" using assms by (intro take_all) auto
  then have "?ys = take ?n ?ys @ [?ys ! ?n]"
    using take_Suc_conv_app_nth [OF n(2)] by (simp only:)
  then have "mset ?ys = add_mset (?ys ! ?n) (mset (take ?n ?ys))"
    by (metis add_mset_add_single mset.simps mset_append)
  moreover have "?ys ! ?n = xs ! i" using nth_list_update_eq [of ?n "xs[i := xs ! ?n]" "xs ! i"] n(1) by simp
  moreover have "mset ?ys = mset xs" using mset_swap [OF n(1) assms] by (simp add: list_update_swap)
  ultimately show ?thesis by (metis add_mset_remove_trivial)
qed

lemma unregister_loop_eq:
  assumes "\<And>i. i \<in> set is \<Longrightarrow> i < length cbs"
  shows "mset (unregister_loop cbs cid is) = mset cbs \<and> (\<forall>i \<in> set is. cb_id (cbs ! i) \<noteq> cid) \<or>
    (\<exists>i \<in> set is. cb_id (cbs ! i) = cid \<and> mset (unregister_loop cbs cid is) = mset cbs - {#cbs ! i#})"
  using assms
proof (induction "is")
  case (Cons a as)
  show ?case
  proof (cases "cb_id (cbs ! a) = cid")
    case True
    have "a < length cbs" using Cons.prems by simp
    then show ?thesis using True mset_swap_last [of a cbs] by (intro disjI2 bexI [of _ a]) (simp_all only: unregister_loop.simps Let_def if_True list.set_intros, simp_all)
  next
    case False
    then show ?thesis using Cons.IH Cons.prems by auto
  qed
qed simp

section \<open>An example store\<close>

definition ex_info :: "u64 \<Rightarrow> int \<Rightarrow> 32 word \<Rightarrow> int \<Rightarrow> Info" where
  "ex_info n orig hops wall = \<lparr>inf_Value = Some \<lparr>val_RawBytes = [1], val_Timestamp = Some \<lparr>ts_WallTime = wall, ts_LogicalTime = 0\<rparr>\<rparr>,
     inf_TtlStamp = 1000, inf_OrigStamp = orig, inf_Hops = hops, inf_NodeId = n, inf_PeerId = 0\<rparr>"

definition ex_store :: store where
  "ex_store = store_insert (newStore \<lparr>node_Id = 1, node_Host = ''h'', node_Port = ''p''\<rparr>) ''a'' (ex_info 1 10 0 10)"

lemma ex_store_ok: "store_ok ex_store"
  unfolding ex_store_def by (intro store_ok_insert store_ok_new) (simp add: info_ok_def ex_info_def)

section \<open>Properties\<close>

text \<open>What a node sends: the delta against a peer's table of nodes consists of exactly the infos
  that have not expired and are fresh for the peer, and computing it only drops expired infos.\<close>

theorem delta_exact:
  assumes "store_ok s"
  shows "\<exists>d s'. store_delta s now nodes = Inr (d, s') \<and> store_ok s' \<and>
    (\<forall>k i. (k, i) \<in> set d \<longleftrightarrow> (k, i) \<in> set (st_infos s) \<and> \<not> Info_isExpired i now \<and>
       Info_isFresh i (node_Id (st_meta s)) (map_of nodes (inf_NodeId i))) \<and>
    (\<forall>k i. (k, i) \<in> set (st_infos s') \<longleftrightarrow> (k, i) \<in> set (st_infos s) \<and> \<not> Info_isExpired i now)"
  using store_delta_eq [of s now nodes] store_ok_filter [OF assms] assms by (auto simp: store_ok_def)

theorem delta_exact_witness:
  "\<exists>d s'. store_delta ex_store 20 [] = Inr (d, s') \<and> (''a'', ex_info 1 10 0 10) \<in> set d"
proof -
  obtain d s' where d: "store_delta ex_store 20 [] = Inr (d, s')"
    "\<forall>k i. (k, i) \<in> set d \<longleftrightarrow> (k, i) \<in> set (st_infos ex_store) \<and> \<not> Info_isExpired i 20 \<and>
       Info_isFresh i (node_Id (st_meta ex_store)) (map_of [] (inf_NodeId i))"
    using delta_exact [OF ex_store_ok, of 20 "[]"] by blast
  have "(''a'', ex_info 1 10 0 10) \<in> set (st_infos ex_store)"
    by (simp add: ex_store_def store_insert_def newStore_def)
  then have "(''a'', ex_info 1 10 0 10) \<in> set d"
    using d(2) by (simp add: Info_isExpired_def Info_isFresh_def ex_info_def)
  then show ?thesis using d(1) by blast
qed

text \<open>What a node receives: combining a delta of well-formed infos never panics and reports no
  error, keeps the store's invariant (every node's high-water stamp and least hops cover its infos),
  leaves the keys outside the delta alone, and afterwards holds an info for every key of the delta
  that is no further from its origin than the one received, one hop on.\<close>

theorem combine_effect:
  assumes "store_ok s" "delta_ok d"
  shows "\<exists>n s'. store_combine s d = Inr (n, None, s') \<and> n \<le> length d \<and> store_ok s' \<and>
    (\<forall>k i. (k, i) \<in> set d \<longrightarrow> (\<exists>j. map_of (st_infos s') k = Some j \<and> inf_Hops j \<le> inf_Hops i + 1)) \<and>
    (\<forall>k. k \<notin> fst ` set d \<longrightarrow> map_of (st_infos s') k = map_of (st_infos s) k)"
proof -
  obtain n s' where "store_combine_loop s d 0 None = Inr (0 + n, None, s')" "n \<le> length d" "store_ok s'"
    "\<forall>(k, i) \<in> set d. outdone s' k (received s i)"
    "\<forall>k. k \<notin> set (keys d) \<longrightarrow> map_of (st_infos s') k = map_of (st_infos s) k"
    using store_combine_loop_ok [OF assms, of 0 None] by blast
  then show ?thesis
    by (intro exI [of _ n] exI [of _ s']) (fastforce simp: store_combine_def outdone_def received_def keys_def)
qed

theorem combine_effect_witness:
  "\<exists>n s'. store_combine ex_store [(''b'', ex_info 2 7 3 5)] = Inr (n, None, s') \<and>
     (\<exists>j. map_of (st_infos s') ''b'' = Some j \<and> inf_Hops j \<le> 4) \<and>
     map_of (st_infos s') ''a'' = Some (ex_info 1 10 0 10)"
proof -
  have "delta_ok [(''b'', ex_info 2 7 3 5)]" by (simp add: delta_ok_def info_ok_def ex_info_def)
  from combine_effect [OF ex_store_ok this] obtain n s' where
    c: "store_combine ex_store [(''b'', ex_info 2 7 3 5)] = Inr (n, None, s')"
      "\<exists>j. map_of (st_infos s') ''b'' = Some j \<and> inf_Hops j \<le> inf_Hops (ex_info 2 7 3 5) + 1"
      "map_of (st_infos s') ''a'' = map_of (st_infos ex_store) ''a''"
    by auto
  have "map_of (st_infos ex_store) ''a'' = Some (ex_info 1 10 0 10)" by (simp add: ex_store_def store_insert_def newStore_def)
  then show ?thesis using c by (auto simp: ex_info_def)
qed

text \<open>C26: Combining is idempotent: a delta that arrives a second time changes nothing and counts no
  fresh info.\<close>

theorem combine_idempotent:
  assumes "store_ok s" "delta_ok d" "store_combine s d = Inr (n, err, s')"
  shows "store_combine s' d = Inr (0, None, s')"
proof -
  obtain n' where c: "store_combine_loop s d 0 None = Inr (0 + n', None, s')" "store_ok s'" "st_meta s' = st_meta s"
    "\<forall>(k, i) \<in> set d. outdone s' k (received s i)"
    using store_combine_loop_ok [OF assms(1,2), of 0 None] assms(3) by (auto simp: store_combine_def)
  have "\<forall>(k, i) \<in> set d. outdone s' k (received s' i)" using c(3,4) by (simp add: received_def)
  then show ?thesis using store_combine_outdone [OF c(2) assms(2)] by (simp add: store_combine_def)
qed

theorem combine_idempotent_witness:
  "\<exists>n err s'. store_combine ex_store [(''b'', ex_info 2 7 3 5)] = Inr (n, err, s') \<and>
     store_combine s' [(''b'', ex_info 2 7 3 5)] = Inr (0, None, s')"
proof -
  have d: "delta_ok [(''b'', ex_info 2 7 3 5)]" by (simp add: delta_ok_def info_ok_def ex_info_def)
  obtain n err s' where c: "store_combine ex_store [(''b'', ex_info 2 7 3 5)] = Inr (n, err, s')"
    using store_combine_loop_ok [OF ex_store_ok d, of 0 None] by (auto simp: store_combine_def)
  show ?thesis using combine_idempotent [OF ex_store_ok d c] c by blast
qed

text \<open>An update does not replace the value it updates: \<open>addInfo\<close> compares the stored time with
  itself, so an info for a key that is present is rejected whatever its timestamp, unless it has
  strictly fewer hops. In particular a node cannot change an info of its own (0 hops).\<close>

theorem update_rejected:
  assumes "store_ok s" "map_of (st_infos s) k = Some i" "inf_NodeId j \<noteq> 0" "inf_Hops i \<le> inf_Hops j"
  shows "store_addInfo s k j = Inr (Some ErrNotFresh, s)"
  using store_addInfo_eq [OF assms(1,3), of k] assms(2,4) by (simp add: outdone_def)

theorem update_rejected_witness:
  "store_addInfo ex_store ''a'' (ex_info 1 20 0 99) = Inr (Some ErrNotFresh, ex_store)"
  by (rule update_rejected [OF ex_store_ok, where i = "ex_info 1 10 0 10"])
    (simp_all add: ex_store_def store_insert_def newStore_def ex_info_def)

text \<open>Once a peer knows anything of this node, no info that this node originated is in the delta
  computed for the peer, however new it is: \<open>isFresh\<close> compares the originator with the sending
  node.\<close>

theorem own_infos_withheld:
  assumes "store_ok s" "map_of nodes (node_Id (st_meta s)) \<noteq> None" "store_delta s now nodes = Inr (d, s')"
    "(k, i) \<in> set d"
  shows "inf_NodeId i \<noteq> node_Id (st_meta s)"
proof -
  have "(k, i) \<in> set (filter (\<lambda>p. live now p \<and> Info_isFresh (snd p) (node_Id (st_meta s)) (map_of nodes (inf_NodeId (snd p)))) (st_infos s))"
    using store_delta_eq [of s now nodes] assms(1,3,4) by (simp add: store_ok_def)
  then show ?thesis using assms(2) by (auto simp: Info_isFresh_def split: option.splits if_splits)
qed

theorem own_infos_withheld_witness:
  "\<exists>d s'. store_delta (store_insert ex_store ''b'' (ex_info 2 7 3 5)) 20 [(1, \<lparr>nd_HighWaterStamp = 0, nd_MinHops = 0\<rparr>)] = Inr (d, s') \<and>
     (''b'', ex_info 2 7 3 5) \<in> set d \<and> inf_NodeId (ex_info 2 7 3 5) \<noteq> 1"
proof -
  let ?s = "store_insert ex_store ''b'' (ex_info 2 7 3 5)" and ?N = "[(1, \<lparr>nd_HighWaterStamp = 0, nd_MinHops = 0\<rparr>)]"
  have ok: "store_ok ?s" by (intro store_ok_insert ex_store_ok) (simp add: info_ok_def ex_info_def)
  have sel: "node_Id (st_meta ?s) = 1" "st_infos ?s = [(''a'', ex_info 1 10 0 10), (''b'', ex_info 2 7 3 5)]"
    by (simp_all add: ex_store_def store_insert_def newStore_def)
  have d: "store_delta ?s 20 ?N = Inr ([(''b'', ex_info 2 7 3 5)], ?s\<lparr>st_infos := st_infos ?s\<rparr>)"
    using ok sel by (subst store_delta_eq) (simp_all add: store_ok_def ex_info_def Info_isExpired_def Info_isFresh_def)
  show ?thesis using own_infos_withheld [OF ok _ d] d sel(1) by auto
qed

text \<open>The least useful peer is never found: \<open>leastUseful\<close> looks for a count below 0 and always
  answers node 0, so that no client is ever culled.\<close>

theorem leastUseful_none:
  assumes "store_ok s"
  shows "\<exists>s'. store_leastUseful s now ns = Inr (0, s')"
proof -
  let ?st = "map (\<lambda>(nid, _). (nid, 0 :: int)) (ns_nodes ns)"
  have d: "distinct (keys (st_infos s))" using assms by (simp add: store_ok_def)
  have "\<forall>p \<in> set ?st. 0 \<le> snd p" by auto
  note nn = foldl_nonneg [OF this, of "\<lambda>q. map_of (ns_nodes ns) (inf_NodeId (snd q)) \<noteq> None"
      "\<lambda>q. inf_NodeId (snd q)" "filter (live now) (st_infos s)"]
  show ?thesis
    using leastUseful_loop_nonneg [OF nn, of 0]
    by (simp add: store_leastUseful_def store_visitInfos_all [OF _ d] if_distrib [of snd] Let_def cong: if_cong)
qed

theorem leastUseful_none_witness: "\<exists>s'. store_leastUseful ex_store 20 (nodeSet_addNode (newNodeSet 3) 2) = Inr (0, s')"
  by (rule leastUseful_none [OF ex_store_ok])

text \<open>The key of a node determines the node: the decimal number in \<open>MakeNodeIdKey\<close> reads back as
  the node id, so different nodes have different keys, all of which have the prefix \<open>node:\<close>.\<close>

theorem nodeIdKey_roundtrip:
  "prefix (KeyNodeIdPrefix @ separator) (MakeNodeIdKey n) \<and>
   ParseUint10 (drop (length (KeyNodeIdPrefix @ separator)) (MakeNodeIdKey n)) = unat n"
  by (simp add: MakeNodeIdKey_def MakeKey_def KeyNodeIdPrefix_def separator_def ParseUint10_Format)

text \<open>The stamps of new infos increase strictly however the clock moves: an info created after
  another has the larger \<open>OrigStamp\<close> (short of the end of \<open>int64\<close>), is not older than the clock, and
  with \<open>ttl\<close> 0 never expires.\<close>

theorem newInfo_stamps:
  assumes "newInfo n val ttl now now' m = Inr (i, m')" "newInfo n2 val2 ttl2 now2 now2' m' = Inr (i2, m2)"
    "m' < 2 ^ 63 - 1" "- (2 ^ 63) \<le> m'"
  shows "inf_OrigStamp i < inf_OrigStamp i2 \<and> now2' \<le> inf_OrigStamp i2 \<and> m2 = inf_OrigStamp i2 \<and>
    (ttl2 = 0 \<longrightarrow> (\<forall>t < 2 ^ 63. \<not> Info_isExpired i2 t))"
  using assms
  by (auto simp: newInfo_def monotonicUnixNano_def Let_def Info_isExpired_def in_int64_def split: if_splits)

theorem newInfo_stamps_witness:
  "\<exists>i m' i2 m2. newInfo 1 [] 0 5 5 0 = Inr (i, m') \<and> newInfo 1 [] 0 3 3 m' = Inr (i2, m2) \<and> inf_OrigStamp i < inf_OrigStamp i2"
proof -
  obtain i m' where i: "newInfo 1 [] 0 5 5 0 = Inr (i, m')" "m' = 5"
    by (simp add: newInfo_def monotonicUnixNano_def Let_def)
  obtain i2 m2 where i2: "newInfo 1 [] 0 3 3 m' = Inr (i2, m2)"
    by (simp add: newInfo_def monotonicUnixNano_def Let_def)
  show ?thesis using newInfo_stamps [OF i(1) i2] i i2 by auto
qed

text \<open>Unregistering a callback removes that callback and no other.\<close>

theorem unregister_exact:
  assumes "distinct (map cb_id (st_callbacks s))" "cb \<in> set (st_callbacks s)"
  shows "mset (st_callbacks (store_unregister s (cb_id cb))) = mset (st_callbacks s) - {#cb#}"
proof -
  let ?cbs = "st_callbacks s"
  have "\<exists>i \<in> set [0 ..< length ?cbs]. cb_id (?cbs ! i) = cb_id cb" using assms(2) by (auto simp: in_set_conv_nth)
  then obtain i where i: "i < length ?cbs" "cb_id (?cbs ! i) = cb_id cb"
    "mset (unregister_loop ?cbs (cb_id cb) [0 ..< length ?cbs]) = mset ?cbs - {#?cbs ! i#}"
    using unregister_loop_eq [of "[0 ..< length ?cbs]" ?cbs "cb_id cb"] by auto
  moreover have "?cbs ! i = cb" using i assms by (auto simp: distinct_map dest: inj_onD)
  ultimately show ?thesis by (simp add: store_unregister_def)
qed

theorem unregister_exact_witness:
  "mset (st_callbacks (store_unregister (ex_store\<lparr>st_callbacks := [\<lparr>cb_id = 1, cb_pattern = ''x'', cb_f = 7\<rparr>,
     \<lparr>cb_id = 2, cb_pattern = ''y'', cb_f = 8\<rparr>]\<rparr>) 1)) = {#\<lparr>cb_id = 2, cb_pattern = ''y'', cb_f = 8\<rparr>#}"
  using unregister_exact [of "ex_store\<lparr>st_callbacks := [\<lparr>cb_id = 1, cb_pattern = ''x'', cb_f = 7\<rparr>,
     \<lparr>cb_id = 2, cb_pattern = ''y'', cb_f = 8\<rparr>]\<rparr>" "\<lparr>cb_id = 1, cb_pattern = ''x'', cb_f = 7\<rparr>"] by simp

end
