(* ===== verification/GossipServer.thy ===== *)
theory GossipServer
  imports GossipSpec
begin

text \<open>
  The server side of the gossip protocol, \<open>src/shared/server.go\<close>. A \<open>clientInfo\<close> is an object that
  the map \<open>clients\<close> and the list \<open>ll\<close> share: both hold its address in \<open>sv_heap\<close>, and \<open>elem\<close>, its element
  of the list, is identified with that address. The mutex makes every handler atomic up to its
  \<open>cond.Wait()\<close>, which is the outcome \<open>ShareWait\<close>; \<open>server_reply\<close> is what runs when it is woken.
  The clock is read once per handler (\<open>now\<close>); \<open>rnd\<close> is what \<open>rand.Intn\<close> draws from. \<open>maxPeers\<close> computes a
  root in floating point: \<open>root\<close> is that computation, from the number of known nodes.
\<close>

section \<open>Data\<close>

record Request =
  rq_NodeMeta :: "NodeMeta option"
  rq_Delta :: "infos option"
  rq_Nodes :: nodes

record ShareResponse =
  sr_NodeId :: u64
  sr_AlterNode :: "NodeMeta option"
  sr_Delta :: "infos option"
  sr_Nodes :: nodes

datatype share_error = ErrUnInitialized | ErrServerClosed

datatype share_result = ShareErr share_error | ShareResp ShareResponse | ShareWait

record clientInfo =
  ci_NodeMeta :: NodeMeta
  ci_recentActiveTime :: int

record server =
  sv_store :: store
  sv_stopped :: bool
  sv_sent :: nat
  sv_received :: nat
  sv_incoming :: nodeSet
  sv_clients :: "(u64 \<times> nat) list"
  sv_ll :: "nat list"
  sv_heap :: "nat \<Rightarrow> clientInfo"
  sv_fresh :: nat

definition MinPeers :: int where
  "MinPeers = 3"

definition MaxWaitTime :: int where
  "MaxWaitTime = 30 * 1000000"

definition zero_clientInfo :: clientInfo where
  "zero_clientInfo = \<lparr>ci_NodeMeta = \<lparr>node_Id = 0, node_Host = [], node_Port = []\<rparr>, ci_recentActiveTime = 0\<rparr>"

section \<open>Handlers\<close>

definition newServer :: "NodeMeta \<Rightarrow> server" where
  "newServer meta = \<lparr>sv_store = newStore meta, sv_stopped = False, sv_sent = 0, sv_received = 0,
     sv_incoming = newNodeSet 1, sv_clients = [], sv_ll = [], sv_heap = (\<lambda>_. zero_clientInfo), sv_fresh = 0\<rparr>"

function server_cleanup :: "server \<Rightarrow> int \<Rightarrow> server" where
  "server_cleanup s now =
     (if sv_ll s = [] then s
      else
        let a = last (sv_ll s); c = sv_heap s a in
        if wrap_int64 (ci_recentActiveTime c + MaxWaitTime) < now then
          server_cleanup
            (s\<lparr>sv_incoming := nodeSet_removeNode (sv_incoming s) (node_Id (ci_NodeMeta c)),
               sv_ll := removeAll a (sv_ll s),
               sv_clients := AList.delete (node_Id (ci_NodeMeta c)) (sv_clients s)\<rparr>) now
        else s)"
  by pat_completeness auto
termination
  by (relation "measure (\<lambda>(s, now). length (sv_ll s))") (auto intro: length_removeAll_less)

declare server_cleanup.simps [simp del]

definition server_maxPeers :: "(nat \<Rightarrow> int) \<Rightarrow> server \<Rightarrow> int \<Rightarrow> (int \<times> server) go" where
  "server_maxPeers root s now =
     (case store_visitInfos (sv_store s) now
        (\<lambda>key _ cnt. (None :: unit option, if prefix KeyNodeIdPrefix key then Suc cnt else cnt)) 0 of
        (Some err, _, _) \<Rightarrow> Inl PanicCall
      | (None, cnt, st) \<Rightarrow>
          Inr (if root cnt < MinPeers then MinPeers else root cnt, s\<lparr>sv_store := st\<rparr>))"

text \<open>The part of \<open>Share\<close> that admits the sender: \<open>None\<close> lets the call go on, \<open>Some\<close> refuses it.\<close>

definition server_admit ::
  "(nat \<Rightarrow> int) \<Rightarrow> server \<Rightarrow> int \<Rightarrow> nat \<Rightarrow> NodeMeta \<Rightarrow> (ShareResponse option \<times> server) go" where
  "server_admit root s now rnd meta =
     (if \<not> nodeSet_hasNode (sv_incoming s) (node_Id meta) then
        go_bind (server_maxPeers root (server_cleanup s now) now) (\<lambda>(peers, s1).
          let s2 = s1\<lparr>sv_incoming := nodeSet_setMaxSize (sv_incoming s1) peers\<rparr> in
          if nodeSet_hasSpace (sv_incoming s2) then
            Inr (None, s2\<lparr>sv_incoming := nodeSet_addNode (sv_incoming s2) (node_Id meta),
              sv_heap := (sv_heap s2)(sv_fresh s2 := \<lparr>ci_NodeMeta = meta, ci_recentActiveTime = now\<rparr>),
              sv_ll := sv_fresh s2 # sv_ll s2,
              sv_clients := AList.update (node_Id meta) (sv_fresh s2) (sv_clients s2),
              sv_fresh := Suc (sv_fresh s2)\<rparr>)
          else
            let incomingSet = nodeSet_asSlice (sv_incoming s2) in
            if incomingSet = [] then Inl PanicCall
            else
              (case map_of (sv_clients s2) (incomingSet ! (rnd mod length incomingSet)) of
                 None \<Rightarrow> Inl NilDereference
               | Some a \<Rightarrow>
                   Inr (Some \<lparr>sr_NodeId = node_Id (st_meta (sv_store s2)),
                     sr_AlterNode = Some (ci_NodeMeta (sv_heap s2 a)), sr_Delta = None, sr_Nodes = []\<rparr>, s2)))
      else
        (case map_of (sv_clients s) (node_Id meta) of
           None \<Rightarrow> Inl NilDereference
         | Some a \<Rightarrow>
             Inr (None, s\<lparr>sv_heap := (sv_heap s)(a := (sv_heap s a)\<lparr>ci_recentActiveTime := now\<rparr>),
               sv_ll := (if a \<in> set (sv_ll s) then a # removeAll a (sv_ll s) else sv_ll s)\<rparr>)))"

definition server_reply :: "server \<Rightarrow> int \<Rightarrow> nodes \<Rightarrow> (share_result \<times> server) go" where
  "server_reply s now nodes =
     go_bind (store_delta (sv_store s) now nodes) (\<lambda>(delta, st).
       if length delta > 0 then
         Inr (ShareResp \<lparr>sr_NodeId = node_Id (st_meta st), sr_AlterNode = None, sr_Delta = Some delta,
                sr_Nodes = store_getNodes st\<rparr>,
              s\<lparr>sv_store := st, sv_sent := sv_sent s + length delta\<rparr>)
       else Inr (ShareWait, s\<lparr>sv_store := st\<rparr>))"

definition server_Share ::
  "(nat \<Rightarrow> int) \<Rightarrow> server \<Rightarrow> int \<Rightarrow> nat \<Rightarrow> Request \<Rightarrow> (share_result \<times> server) go" where
  "server_Share root s now rnd req =
     (if sv_stopped s then Inr (ShareErr ErrServerClosed, s)
      else case rq_NodeMeta req of
        None \<Rightarrow> Inl NilDereference
      | Some meta \<Rightarrow>
          if node_Id meta = 0 then Inr (ShareErr ErrUnInitialized, s)
          else
            go_bind (server_admit root s now rnd meta) (\<lambda>(refused, s1).
              case refused of
                Some resp \<Rightarrow> Inr (ShareResp resp, s1)
              | None \<Rightarrow>
                  (case rq_Delta req of
                     Some d \<Rightarrow>
                       go_bind (store_combine (sv_store s1) d) (\<lambda>(freshCount, err, st).
                         Inr (ShareResp \<lparr>sr_NodeId = node_Id (st_meta (sv_store s1)), sr_AlterNode = None, sr_Delta = None,
                                sr_Nodes = store_getNodes st\<rparr>,
                              s1\<lparr>sv_received := sv_received s1 + length d, sv_store := st\<rparr>))
                   | None \<Rightarrow> server_reply s1 now (rq_Nodes req))))"

definition server_infoSent :: "server \<Rightarrow> nat" where
  "server_infoSent s = sv_sent s"

definition server_infoReceived :: "server \<Rightarrow> nat" where
  "server_infoReceived s = sv_received s"

definition server_start :: "(string \<Rightarrow> string \<Rightarrow> bool) \<Rightarrow> server \<Rightarrow> int \<Rightarrow> nat \<Rightarrow> nat \<Rightarrow> server go" where
  "server_start re s now cid f =
     go_bind (store_registerCallback re (sv_store s) now cid ''.*'' f) (\<lambda>st. Inr (s\<lparr>sv_store := st\<rparr>))"

definition server_stop :: "server \<Rightarrow> nat \<Rightarrow> server" where
  "server_stop s cid = s\<lparr>sv_stopped := True, sv_store := store_unregister (sv_store s) cid\<rparr>"

section \<open>The invariant of a server\<close>

text \<open>The set of incoming nodes, the map of clients and the list hold the same clients.\<close>

definition server_ok :: "server \<Rightarrow> bool" where
  "server_ok s \<longleftrightarrow> store_ok (sv_store s) \<and> distinct (keys (sv_clients s)) \<and> distinct (nodeSet_asSlice (sv_incoming s)) \<and>
     set (nodeSet_asSlice (sv_incoming s)) = set (keys (sv_clients s)) \<and>
     distinct (sv_ll s) \<and> set (sv_ll s) = snd ` set (sv_clients s) \<and>
     (\<forall>(n, a) \<in> set (sv_clients s). node_Id (ci_NodeMeta (sv_heap s a)) = n \<and> a < sv_fresh s)"

lemma server_okD:
  assumes "server_ok s"
  shows "store_ok (sv_store s)" "set (nodeSet_asSlice (sv_incoming s)) = set (keys (sv_clients s))"
    "a \<in> set (sv_ll s) \<Longrightarrow> (node_Id (ci_NodeMeta (sv_heap s a)), a) \<in> set (sv_clients s)"
  using assms by (auto simp: server_ok_def)

lemma server_ok_new: "server_ok (newServer meta)"
  by (simp add: server_ok_def newServer_def store_ok_new)

lemma nodeSet_distinct [simp]:
  "distinct (nodeSet_asSlice ns) \<Longrightarrow> distinct (nodeSet_asSlice (nodeSet_addNode ns n))"
  "distinct (nodeSet_asSlice ns) \<Longrightarrow> distinct (nodeSet_asSlice (nodeSet_removeNode ns n))"
  using distinct_keys_update [of "ns_nodes ns" n "()"] distinct_keys_delete [of "ns_nodes ns" n]
  by (simp_all add: nodeSet_asSlice_def nodeSet_addNode_def nodeSet_removeNode_def keys_def)

lemma server_ok_drop:
  assumes "server_ok s" "a \<in> set (sv_ll s)" "n = node_Id (ci_NodeMeta (sv_heap s a))"
  shows "server_ok (s\<lparr>sv_incoming := nodeSet_removeNode (sv_incoming s) n, sv_ll := removeAll a (sv_ll s),
    sv_clients := AList.delete n (sv_clients s)\<rparr>)"
proof -
  have na: "(n, a) \<in> set (sv_clients s)" using server_okD(3) [OF assms(1,2)] assms(3) by simp
  have fst_eq: "m = n" if "(m, a) \<in> set (sv_clients s)" for m using that assms(1,3) by (auto simp: server_ok_def)
  have snd_eq: "b = a" if "(n, b) \<in> set (sv_clients s)" for b
    using that na assms(1) by (auto simp: server_ok_def keys_def dest: eq_key_imp_eq_value)
  have "snd ` set (AList.delete n (sv_clients s)) = snd ` set (sv_clients s) - {a}"
  proof (intro equalityI subsetI)
    fix b assume "b \<in> snd ` set (AList.delete n (sv_clients s))"
    then obtain m where "m \<noteq> n" "(m, b) \<in> set (sv_clients s)" by (auto simp: delete_filter)
    then show "b \<in> snd ` set (sv_clients s) - {a}" using fst_eq by (auto intro: rev_image_eqI)
  next
    fix b assume "b \<in> snd ` set (sv_clients s) - {a}"
    then obtain m where "b \<noteq> a" "(m, b) \<in> set (sv_clients s)" by auto
    then have "(m, b) \<in> set (AList.delete n (sv_clients s))" using snd_eq by (auto simp: delete_filter)
    then show "b \<in> snd ` set (AList.delete n (sv_clients s))" by (auto intro: rev_image_eqI)
  qed
  moreover have "set (AList.delete n (sv_clients s)) \<subseteq> set (sv_clients s)" by (auto simp: delete_filter)
  ultimately show ?thesis
    using assms(1) unfolding server_ok_def by (auto simp add: distinct_keys_delete keys_delete distinct_removeAll)
qed

lemma server_ok_cleanup: "server_ok s \<Longrightarrow> server_ok (server_cleanup s now)"
proof (induction s now rule: server_cleanup.induct)
  case (1 s now)
  show ?case
    using 1 server_ok_drop [OF 1(2), of "last (sv_ll s)"] by (subst server_cleanup.simps) (simp add: Let_def)
qed

lemma server_ok_store: "server_ok s \<Longrightarrow> store_ok st \<Longrightarrow> server_ok (s\<lparr>sv_store := st\<rparr>)"
  by (simp add: server_ok_def)

lemma server_maxPeers_ok:
  assumes "server_ok s"
  shows "\<exists>p s'. server_maxPeers root s now = Inr (p, s') \<and> MinPeers \<le> p \<and> server_ok s' \<and>
    sv_incoming s' = sv_incoming s \<and> sv_clients s' = sv_clients s \<and> sv_heap s' = sv_heap s"
proof -
  have d: "distinct (keys (st_infos (sv_store s)))" using server_okD(1) [OF assms] by (simp add: store_ok_def)
  show ?thesis
    using assms server_ok_store [OF assms store_ok_filter [OF server_okD(1) [OF assms]], of "live now"]
    by (auto simp: server_maxPeers_def store_visitInfos_all [OF _ d])
qed

lemma server_ok_join:
  assumes "server_ok s" "\<not> nodeSet_hasNode (sv_incoming s) (node_Id meta)"
  shows "server_ok (s\<lparr>sv_incoming := nodeSet_addNode (sv_incoming s) (node_Id meta),
    sv_heap := (sv_heap s)(sv_fresh s := \<lparr>ci_NodeMeta = meta, ci_recentActiveTime = now\<rparr>),
    sv_ll := sv_fresh s # sv_ll s, sv_clients := AList.update (node_Id meta) (sv_fresh s) (sv_clients s),
    sv_fresh := Suc (sv_fresh s)\<rparr>)"
proof -
  have new: "node_Id meta \<notin> set (keys (sv_clients s))" using assms by (simp add: nodeSet_hasNode_iff server_ok_def)
  have "sv_fresh s \<notin> set (sv_ll s)" using assms(1) by (fastforce simp: server_ok_def)
  then show ?thesis
    using assms(1) new by (auto simp: server_ok_def update_new less_SucI)
qed

lemma server_ok_touch:
  assumes "server_ok s" "a \<in> set (sv_ll s)"
  shows "server_ok (s\<lparr>sv_heap := (sv_heap s)(a := (sv_heap s a)\<lparr>ci_recentActiveTime := now\<rparr>), sv_ll := a # removeAll a (sv_ll s)\<rparr>)"
  using assms by (auto simp: server_ok_def distinct_removeAll)

lemma server_cleanup_incoming:
  "set (nodeSet_asSlice (sv_incoming (server_cleanup s now))) \<subseteq> set (nodeSet_asSlice (sv_incoming s))"
proof (induction s now rule: server_cleanup.induct)
  case (1 s now)
  then show ?case by (subst server_cleanup.simps) (auto simp: Let_def)
qed

lemma server_ok_client:
  assumes "server_ok s" "n \<in> set (nodeSet_asSlice (sv_incoming s))"
  obtains a where "map_of (sv_clients s) n = Some a" "a \<in> set (sv_ll s)" "node_Id (ci_NodeMeta (sv_heap s a)) = n"
proof -
  have "n \<in> set (keys (sv_clients s))" using assms by (simp add: server_ok_def)
  then obtain a where a: "map_of (sv_clients s) n = Some a"
    using map_of_None_keys [of "sv_clients s" n] by (cases "map_of (sv_clients s) n") auto
  then have na: "(n, a) \<in> set (sv_clients s)" by (rule map_of_SomeD)
  then have "a \<in> set (sv_ll s)" using assms(1) imageI [OF na, of snd] by (simp add: server_ok_def)
  moreover have "node_Id (ci_NodeMeta (sv_heap s a)) = n" using assms(1) na unfolding server_ok_def by blast
  ultimately show thesis by (rule that [OF a])
qed

lemma server_admit_ok:
  assumes "server_ok s"
  shows "\<exists>refused s'. server_admit root s now rnd meta = Inr (refused, s') \<and> server_ok s' \<and>
    (refused = None \<longrightarrow> nodeSet_hasNode (sv_incoming s') (node_Id meta)) \<and>
    (\<forall>resp. refused = Some resp \<longrightarrow> \<not> nodeSet_hasSpace (sv_incoming s') \<and>
      (\<exists>alter. sr_AlterNode resp = Some alter \<and> nodeSet_hasNode (sv_incoming s') (node_Id alter)))"
proof (cases "nodeSet_hasNode (sv_incoming s) (node_Id meta)")
  case True
  then obtain a where a: "map_of (sv_clients s) (node_Id meta) = Some a" "a \<in> set (sv_ll s)"
    using server_ok_client [OF assms] by (auto simp: nodeSet_hasNode_iff)
  then show ?thesis using True server_ok_touch [OF assms] by (simp add: server_admit_def)
next
  case False
  let ?s = "server_cleanup s now"
  obtain p s1 where s1: "server_maxPeers root ?s now = Inr (p, s1)" "MinPeers \<le> p" "server_ok s1"
    "sv_incoming s1 = sv_incoming ?s"
    using server_maxPeers_ok [OF server_ok_cleanup [OF assms], of root now now] by blast
  let ?s2 = "s1\<lparr>sv_incoming := nodeSet_setMaxSize (sv_incoming s1) p\<rparr>"
  have ok2: "server_ok ?s2" using s1(3) by (simp add: server_ok_def)
  have new: "\<not> nodeSet_hasNode (sv_incoming ?s2) (node_Id meta)"
    using False server_cleanup_incoming [of s now] s1(4) by (auto simp: nodeSet_hasNode_iff)
  show ?thesis
  proof (cases "nodeSet_hasSpace (sv_incoming ?s2)")
    case True
    then show ?thesis
      using False s1(1) server_ok_join [OF ok2 new] by (simp add: server_admit_def Let_def nodeSet_hasNode_iff)
  next
    case full: False
    let ?in = "nodeSet_asSlice (sv_incoming ?s2)"
    have "p \<le> int (length ?in)"
      using full by (simp add: nodeSet_hasSpace_def nodeSet_len_def nodeSet_asSlice_def nodeSet_setMaxSize_def)
    then have "0 < length ?in" using s1(2) unfolding MinPeers_def by linarith
    then have mem: "?in ! (rnd mod length ?in) \<in> set ?in" "?in \<noteq> []" by auto
    then obtain a where "map_of (sv_clients ?s2) (?in ! (rnd mod length ?in)) = Some a"
      "node_Id (ci_NodeMeta (sv_heap ?s2 a)) = ?in ! (rnd mod length ?in)"
      using server_ok_client [OF ok2 mem(1)] by blast
    then show ?thesis using False s1(1) full ok2 mem by (auto simp: server_admit_def Let_def nodeSet_hasNode_iff)
  qed
qed

lemma server_reply_ok:
  assumes "server_ok s"
  shows "\<exists>res s'. server_reply s now nodes = Inr (res, s') \<and> server_ok s' \<and> sv_incoming s' = sv_incoming s \<and>
    (res = ShareWait \<longleftrightarrow> (\<forall>(k, i) \<in> set (st_infos (sv_store s)). Info_isExpired i now \<or>
       \<not> Info_isFresh i (node_Id (st_meta (sv_store s))) (map_of nodes (inf_NodeId i)))) \<and> (\<forall>e. res \<noteq> ShareErr e)"
proof -
  have st: "store_ok (sv_store s)" "distinct (keys (st_infos (sv_store s)))"
    using server_okD(1) [OF assms] by (simp_all add: store_ok_def)
  show ?thesis
    using server_ok_store [OF assms store_ok_filter [OF st(1)], of "live now"]
    by (auto simp: server_reply_def store_delta_eq [OF st(2)] server_ok_def filter_empty_conv split_beta)
qed

lemma server_reply_incoming: "server_reply s now nodes = Inr (res, s') \<Longrightarrow> sv_incoming s' = sv_incoming s"
  by (auto simp: server_reply_def split: if_splits)

lemma server_Share_ok:
  assumes "server_ok s" "rq_NodeMeta req = Some meta" "\<forall>d. rq_Delta req = Some d \<longrightarrow> delta_ok d"
  shows "\<exists>res s'. server_Share root s now rnd req = Inr (res, s') \<and> server_ok s'"
proof (cases "sv_stopped s \<or> node_Id meta = 0")
  case False
  obtain refused s1 where s1: "server_admit root s now rnd meta = Inr (refused, s1)" "server_ok s1"
    using server_admit_ok [OF assms(1)] by blast
  have comb: "\<exists>n e st. store_combine (sv_store s1) d = Inr (n, e, st) \<and> server_ok (s1\<lparr>sv_received := x, sv_store := st\<rparr>)"
    if "delta_ok d" for d x
    using store_combine_loop_ok [OF server_okD(1) [OF s1(2)] that, of 0 None] s1(2)
    by (auto simp: store_combine_def server_ok_def)
  show ?thesis
  proof (cases "refused = None \<and> rq_Delta req = None")
    case True
    then show ?thesis using False assms(2) s1 server_reply_ok [OF s1(2), of now "rq_Nodes req"] by (auto simp: server_Share_def)
  next
    case other: False
    then show ?thesis
      using False assms(2,3) s1 comb by (auto simp: server_Share_def split: option.splits) fastforce+
  qed
qed (use assms in \<open>auto simp: server_Share_def\<close>)

definition ex_meta :: "u64 \<Rightarrow> NodeMeta" where
  "ex_meta n = \<lparr>node_Id = n, node_Host = ''h'', node_Port = ''p''\<rparr>"

section \<open>Properties\<close>

text \<open>C27: A server never panics on a request that names its sender and carries well-formed infos:
  \<open>Share\<close> runs to an answer or to its wait, and keeps the set of incoming nodes, the map of clients and
  the list of clients in agreement.\<close>

theorem share_total:
  assumes "server_ok s" "rq_NodeMeta req = Some meta" "\<forall>d. rq_Delta req = Some d \<longrightarrow> delta_ok d"
  shows "\<exists>res s'. server_Share root s now rnd req = Inr (res, s') \<and> server_ok s'"
  by (rule server_Share_ok [OF assms])

theorem share_total_witness:
  "\<exists>res s'. server_Share (\<lambda>n. 2) (newServer (ex_meta 1)) 100 0
     \<lparr>rq_NodeMeta = Some (ex_meta 2), rq_Delta = Some [(''b'', ex_info 2 7 3 5)], rq_Nodes = []\<rparr> = Inr (res, s') \<and> server_ok s'"
  by (rule share_total [OF server_ok_new, where meta = "ex_meta 2"])
    (simp_all add: delta_ok_def info_ok_def ex_info_def)

text \<open>C28: A call of \<open>Share\<close> from a node with an id makes the node an incoming client, or is answered with
  another node to go to, which is an incoming client, and only when there is no room.\<close>

theorem share_admission:
  assumes "server_ok s" "\<not> sv_stopped s" "rq_NodeMeta req = Some meta" "node_Id meta \<noteq> 0"
    "server_Share root s now rnd req = Inr (res, s')"
  shows "nodeSet_hasNode (sv_incoming s') (node_Id meta) \<or>
    (\<exists>resp alter. res = ShareResp resp \<and> sr_AlterNode resp = Some alter \<and>
      nodeSet_hasNode (sv_incoming s') (node_Id alter) \<and> \<not> nodeSet_hasSpace (sv_incoming s'))"
proof -
  obtain refused s1 where s1: "server_admit root s now rnd meta = Inr (refused, s1)" "server_ok s1"
    "refused = None \<longrightarrow> nodeSet_hasNode (sv_incoming s1) (node_Id meta)"
    "\<forall>resp. refused = Some resp \<longrightarrow> \<not> nodeSet_hasSpace (sv_incoming s1) \<and>
      (\<exists>alter. sr_AlterNode resp = Some alter \<and> nodeSet_hasNode (sv_incoming s1) (node_Id alter))"
    using server_admit_ok [OF assms(1), of root now rnd meta] by (elim exE conjE) (rule that)
  show ?thesis
  proof (cases refused)
    case None
    have "sv_incoming s' = sv_incoming s1"
    proof (cases "rq_Delta req")
      case None
      then show ?thesis
        using assms(2-5) s1(1) \<open>refused = None\<close> server_reply_incoming [of s1 now "rq_Nodes req" res s']
        by (simp add: server_Share_def)
    next
      case (Some d)
      then show ?thesis using assms(2-5) s1(1) \<open>refused = None\<close> by (auto simp: server_Share_def)
    qed
    then show ?thesis using s1(3) None by simp
  next
    case (Some resp)
    then have "res = ShareResp resp" "s' = s1" using assms(2-5) s1(1) by (simp_all add: server_Share_def)
    then show ?thesis using s1(4) Some by blast
  qed
qed

theorem share_admission_witness:
  "\<exists>res s'. server_Share (\<lambda>n. 2) (newServer (ex_meta 1)) 100 0
     \<lparr>rq_NodeMeta = Some (ex_meta 2), rq_Delta = None, rq_Nodes = []\<rparr> = Inr (res, s') \<and>
     nodeSet_hasNode (sv_incoming s') 2"
proof -
  let ?req = "\<lparr>rq_NodeMeta = Some (ex_meta 2), rq_Delta = None, rq_Nodes = []\<rparr>"
  have "(case server_Share (\<lambda>n. 2) (newServer (ex_meta 1)) 100 0 ?req of Inl _ \<Rightarrow> False | Inr (res, s') \<Rightarrow> res = ShareWait)"
    by code_simp
  then obtain res s' where R: "server_Share (\<lambda>n. 2) (newServer (ex_meta 1)) 100 0 ?req = Inr (res, s')" "res = ShareWait"
    by (auto split: sum.splits)
  have st: "\<not> sv_stopped (newServer (ex_meta 1))" "rq_NodeMeta ?req = Some (ex_meta 2)" "node_Id (ex_meta 2) \<noteq> 0"
    by (simp_all add: newServer_def ex_meta_def)
  have "nodeSet_hasNode (sv_incoming s') (node_Id (ex_meta 2))"
    using share_admission [OF server_ok_new st R(1)] R(2) by blast
  moreover have "node_Id (ex_meta 2) = 2" by (simp add: ex_meta_def)
  ultimately have "nodeSet_hasNode (sv_incoming s') 2" by (simp only:)
  with R(1) show ?thesis by blast
qed

text \<open>Stopping the server refuses new calls but does not end a call that waits: woken by the stop,
  it looks for fresh infos, finds none, and waits again.\<close>

theorem stop_leaves_waiters:
  assumes "server_ok s" "server_reply s now nodes = Inr (ShareWait, s1)"
  shows "(\<exists>s2. server_reply (server_stop s1 cid) now nodes = Inr (ShareWait, s2)) \<and>
    server_Share root (server_stop s1 cid) now rnd req = Inr (ShareErr ErrServerClosed, server_stop s1 cid)"
proof -
  let ?fresh = "\<lambda>p. live now p \<and> Info_isFresh (snd p) (node_Id (st_meta (sv_store s))) (map_of nodes (inf_NodeId (snd p)))"
  have d: "distinct (keys (st_infos (sv_store s)))" using server_okD(1) [OF assms(1)] by (simp add: store_ok_def)
  have s1: "s1 = s\<lparr>sv_store := (sv_store s)\<lparr>st_infos := filter (live now) (st_infos (sv_store s))\<rparr>\<rparr>"
    "filter ?fresh (st_infos (sv_store s)) = []"
    using assms(2) by (auto simp: server_reply_def store_delta_eq [OF d] split: if_splits)
  have "store_delta (sv_store (server_stop s1 cid)) now nodes =
      Inr (filter ?fresh (filter (live now) (st_infos (sv_store s))), sv_store (server_stop s1 cid))"
    using d by (subst store_delta_eq) (simp_all add: s1(1) server_stop_def store_unregister_def distinct_keys_filter)
  moreover have "filter ?fresh (filter (live now) (st_infos (sv_store s))) = []"
    using s1(2) by (auto simp: filter_empty_conv)
  ultimately show ?thesis by (simp add: server_reply_def server_Share_def server_stop_def)
qed

theorem stop_leaves_waiters_witness:
  "\<exists>s1. server_reply (newServer (ex_meta 1)) 100 [] = Inr (ShareWait, s1) \<and>
     (\<exists>s2. server_reply (server_stop s1 1) 100 [] = Inr (ShareWait, s2))"
proof -
  obtain s1 where s1: "server_reply (newServer (ex_meta 1)) 100 [] = Inr (ShareWait, s1)"
    by (simp add: server_reply_def newServer_def newStore_def store_delta_def store_visitInfos_def)
  show ?thesis using stop_leaves_waiters [OF server_ok_new s1] s1 by blast
qed

text \<open>A peer can bring the server down: a push from a client whose first info has origin node 0 or
  origin stamp 0 panics in \<open>combine\<close>.\<close>

theorem share_bad_info_panics:
  assumes "server_ok s" "\<not> sv_stopped s" "rq_NodeMeta req = Some meta" "node_Id meta \<noteq> 0"
    "nodeSet_hasNode (sv_incoming s) (node_Id meta)" "rq_Delta req = Some ((k, i) # d)"
    "inf_NodeId i = 0 \<or> inf_OrigStamp i = 0"
  shows "server_Share root s now rnd req = Inl PanicCall"
proof -
  obtain a where "map_of (sv_clients s) (node_Id meta) = Some a" "a \<in> set (sv_ll s)"
    using server_ok_client [OF assms(1)] assms(5) by (auto simp: nodeSet_hasNode_iff)
  then show ?thesis
    using assms(2-7) by (auto simp: server_Share_def server_admit_def store_combine_def store_addInfo_def Let_def)
qed

theorem share_bad_info_panics_witness:
  "\<exists>s. server_ok s \<and> nodeSet_hasNode (sv_incoming s) 2 \<and>
     server_Share (\<lambda>n. 2) s 100 0 \<lparr>rq_NodeMeta = Some (ex_meta 2), rq_Delta = Some [(''b'', ex_info 0 7 3 5)], rq_Nodes = []\<rparr> = Inl PanicCall"
proof -
  let ?s = "newServer (ex_meta 1)"
  let ?s' = "?s\<lparr>sv_incoming := nodeSet_addNode (sv_incoming ?s) (node_Id (ex_meta 2)),
    sv_heap := (sv_heap ?s)(sv_fresh ?s := \<lparr>ci_NodeMeta = ex_meta 2, ci_recentActiveTime = 50\<rparr>),
    sv_ll := sv_fresh ?s # sv_ll ?s, sv_clients := AList.update (node_Id (ex_meta 2)) (sv_fresh ?s) (sv_clients ?s),
    sv_fresh := Suc (sv_fresh ?s)\<rparr>"
  have ok: "server_ok ?s'"
    by (rule server_ok_join [OF server_ok_new]) (simp add: newServer_def newNodeSet_def nodeSet_hasNode_def)
  have st: "\<not> sv_stopped ?s'" "nodeSet_hasNode (sv_incoming ?s') (node_Id (ex_meta 2))" "node_Id (ex_meta 2) \<noteq> 0" "node_Id (ex_meta 2) = 2"
    by (simp_all add: newServer_def nodeSet_hasNode_iff ex_meta_def)
  let ?req = "\<lparr>rq_NodeMeta = Some (ex_meta 2), rq_Delta = Some [(''b'', ex_info 0 7 3 5)], rq_Nodes = []\<rparr>"
  have "server_Share (\<lambda>n. 2) ?s' 100 0 ?req = Inl PanicCall"
    by (rule share_bad_info_panics [OF ok st(1) _ st(3,2), where k = "''b''" and i = "ex_info 0 7 3 5" and d = "[]"])
      (simp_all add: ex_info_def)
  then show ?thesis using ok st(2,4) by (intro exI [of _ ?s']) simp
qed

end
