(* ===== verification/SharedNode.thy ===== *)
theory SharedNode
  imports GossipServer
begin

text \<open>
  A node of the gossip network: \<open>src/shared/shared.go\<close> and the client side \<open>src/shared/client.go\<close>.
  The clients of a node are objects, held by address in \<open>sh_heap\<close>. The remote call \<open>Share\<close> is
  made by gRPC: an operation that calls it is split at the call, and what the call returned is the
  argument of the second part (\<open>None\<close> is an error). The global \<open>monoTime\<close> is a field of the node, the only one of its process. Goroutines are the steps they run: a node's bootstrap
  loop, its manage loop, and the loop of each client. \<open>marshal\<close> and \<open>unmarshal\<close> are those of the protobuf
  library.
\<close>

section \<open>Data\<close>

datatype rpcType = RpcPull | RpcPush

record client =
  cl_serverMeta :: NodeMeta
  cl_alterMeta :: "NodeMeta option"
  cl_remoteNodes :: nodes
  cl_rpcChan :: "(rpcType \<times> ShareResponse) list"
  cl_closed :: bool
  cl_connClosed :: bool
  cl_pushing :: bool
  cl_pushWanted :: nat

datatype shared_error = ErrMissingKey | ErrProto

record Shared =
  sh_meta :: NodeMeta
  sh_server :: server
  sh_outgoing :: nodeSet
  sh_clients :: "nat list"
  sh_heap :: "nat \<Rightarrow> client"
  sh_fresh :: nat
  sh_peers :: "NodeMeta list"
  sh_peersIdx :: int
  sh_triedAll :: bool
  sh_bootstrapping :: "(u64 \<times> unit) list"
  sh_monoTime :: int

section \<open>client.go\<close>

definition newClient :: "NodeMeta \<Rightarrow> client" where
  "newClient meta = \<lparr>cl_serverMeta = meta, cl_alterMeta = None, cl_remoteNodes = [], cl_rpcChan = [], cl_closed = False,
     cl_connClosed = False, cl_pushing = False, cl_pushWanted = 0\<rparr>"

text \<open>\<open>stop\<close> closes the channel \<open>closer\<close>; closing a closed channel panics.\<close>

definition client_stop :: "client \<Rightarrow> client go" where
  "client_stop c = (if cl_closed c then Inl PanicCall else Inr (c\<lparr>cl_closed := True\<rparr>))"

definition client_pull_request :: "Shared \<Rightarrow> Request" where
  "client_pull_request s =
     \<lparr>rq_NodeMeta = Some (st_meta (sv_store (sh_server s))), rq_Delta = None,
      rq_Nodes = store_getNodes (sv_store (sh_server s))\<rparr>"

definition client_pull_done :: "client \<Rightarrow> ShareResponse option \<Rightarrow> client go" where
  "client_pull_done c resp =
     (case resp of
        None \<Rightarrow> client_stop c
      | Some r \<Rightarrow> Inr (c\<lparr>cl_rpcChan := cl_rpcChan c @ [(RpcPull, r)]\<rparr>))"

text \<open>\<open>push\<close> up to its call: no request when a push is under way, which only notes that another is wanted.\<close>

definition client_push_request :: "Shared \<Rightarrow> int \<Rightarrow> client \<Rightarrow> (Request option \<times> client \<times> Shared) go" where
  "client_push_request s now c =
     (if cl_pushing c then Inr (None, c\<lparr>cl_pushWanted := cl_pushWanted c + 1\<rparr>, s)
      else
        let c' = c\<lparr>cl_pushing := True, cl_pushWanted := 0\<rparr> in
        go_bind (store_delta (sv_store (sh_server s)) now (cl_remoteNodes c')) (\<lambda>(d, st).
          Inr (Some \<lparr>rq_NodeMeta = Some (st_meta st), rq_Delta = Some d, rq_Nodes = store_getNodes st\<rparr>, c',
               s\<lparr>sh_server := (sh_server s)\<lparr>sv_store := st\<rparr>\<rparr>)))"

definition client_push_done :: "client \<Rightarrow> ShareResponse option \<Rightarrow> client go" where
  "client_push_done c resp =
     (case resp of
        None \<Rightarrow> client_stop c
      | Some r \<Rightarrow> Inr (c\<lparr>cl_rpcChan := cl_rpcChan c @ [(RpcPush, r)]\<rparr>))"

definition client_handleResponse :: "Shared \<Rightarrow> client \<Rightarrow> ShareResponse \<Rightarrow> (client \<times> Shared) go" where
  "client_handleResponse s c resp =
     go_bind
       (case sr_Delta resp of
          None \<Rightarrow> Inr s
        | Some d \<Rightarrow>
            go_bind (store_combine (sv_store (sh_server s)) d) (\<lambda>(freshCount, err, st).
              Inr (s\<lparr>sh_server := (sh_server s)\<lparr>sv_store := st\<rparr>\<rparr>)))
       (\<lambda>s1.
         let s2 = s1\<lparr>sh_outgoing := nodeSet_addNode (sh_outgoing s1) (sr_NodeId resp)\<rparr>;
             c1 = c\<lparr>cl_remoteNodes := sr_Nodes resp\<rparr>;
             c2 = (case sr_AlterNode resp of
                     None \<Rightarrow> c1
                   | Some m \<Rightarrow> c1\<lparr>cl_connClosed := True, cl_alterMeta := Some m\<rparr>)
         in Inr (c2, s2))"

text \<open>What the loop of \<open>shared\<close> does with a response from \<open>rpcChan\<close>: the result says which call it makes
  next.\<close>

datatype next_call = CallPull Request | CallPush Request | CallNone

definition client_shared_step :: "Shared \<Rightarrow> int \<Rightarrow> client \<Rightarrow> (next_call \<times> client \<times> Shared) go" where
  "client_shared_step s now c =
     (case cl_rpcChan c of
        [] \<Rightarrow> Inr (CallNone, c, s)
      | (t, resp) # rest \<Rightarrow>
          go_bind (client_handleResponse s (c\<lparr>cl_rpcChan := rest\<rparr>) resp) (\<lambda>(c1, s1).
            if t = RpcPull then Inr (CallPull (client_pull_request s1), c1, s1)
            else
              let needPush = cl_pushWanted c1 > 0; c2 = c1\<lparr>cl_pushing := False\<rparr> in
              if needPush then
                go_bind (client_push_request s1 now c2) (\<lambda>(req, c3, s3).
                  Inr (case req of None \<Rightarrow> CallNone | Some r \<Rightarrow> CallPush r, c3, s3))
              else Inr (CallNone, c2, s1)))"

text \<open>The same up to the moment where the loop releases the client's mutex: the response is handled and, for a push, \<open>pushing\<close> is reset.
  Until the call that the loop then makes, callbacks can act on the client.\<close>

definition client_shared_handle :: "Shared \<Rightarrow> client \<Rightarrow> (client \<times> Shared) go" where
  "client_shared_handle s c =
     (case cl_rpcChan c of
        [] \<Rightarrow> Inr (c, s)
      | (t, resp) # rest \<Rightarrow>
          go_bind (client_handleResponse s (c\<lparr>cl_rpcChan := rest\<rparr>) resp) (\<lambda>(c1, s1).
            Inr (if t = RpcPull then c1 else c1\<lparr>cl_pushing := False\<rparr>, s1)))"

section \<open>shared.go\<close>

definition NewShared :: "NodeMeta \<Rightarrow> NodeMeta list \<Rightarrow> Shared" where
  "NewShared meta peers =
     \<lparr>sh_meta = meta, sh_server = newServer meta, sh_outgoing = newNodeSet 1, sh_clients = [],
      sh_heap = (\<lambda>_. newClient meta), sh_fresh = 0, sh_peers = peers, sh_peersIdx = int (length peers) - 1,
      sh_triedAll = False, sh_bootstrapping = [], sh_monoTime = 0\<rparr>"

definition Shared_Incoming :: "Shared \<Rightarrow> u64 list" where
  "Shared_Incoming s = nodeSet_asSlice (sv_incoming (sh_server s))"

definition Shared_Outgoing :: "Shared \<Rightarrow> u64 list" where
  "Shared_Outgoing s = nodeSet_asSlice (sh_outgoing s)"

text \<open>\<open>AddInfo\<close>, which drops the error of \<open>addInfo\<close> and returns nil.\<close>

definition Shared_AddInfo :: "Shared \<Rightarrow> int \<Rightarrow> int \<Rightarrow> string \<Rightarrow> byte list \<Rightarrow> int \<Rightarrow> (shared_error option \<times> Shared) go" where
  "Shared_AddInfo s now now' key val ttl =
     go_bind (newInfo (node_Id (sh_meta s)) val ttl now now' (sh_monoTime s)) (\<lambda>(info, m).
     go_bind (store_addInfo (sv_store (sh_server s)) key info) (\<lambda>(err, st).
       Inr (None, s\<lparr>sh_monoTime := m, sh_server := (sh_server s)\<lparr>sv_store := st\<rparr>\<rparr>)))"

definition Shared_GetInfo :: "Shared \<Rightarrow> int \<Rightarrow> string \<Rightarrow> ((shared_error + byte list) \<times> Shared) go" where
  "Shared_GetInfo s now key =
     (let (info, st) = store_getInfo (sv_store (sh_server s)) now key;
          s' = s\<lparr>sh_server := (sh_server s)\<lparr>sv_store := st\<rparr>\<rparr> in
      case info of
        Some i \<Rightarrow> (case inf_Value i of None \<Rightarrow> Inl NilDereference | Some v \<Rightarrow> Inr (Inr (val_RawBytes v), s'))
      | None \<Rightarrow> Inr (Inl ErrMissingKey, s'))"

definition Shared_AddInfoProto ::
  "('m \<Rightarrow> byte list option) \<Rightarrow> Shared \<Rightarrow> int \<Rightarrow> int \<Rightarrow> string \<Rightarrow> 'm \<Rightarrow> int \<Rightarrow> (shared_error option \<times> Shared) go" where
  "Shared_AddInfoProto marshal s now now' key msg ttl =
     (case marshal msg of
        None \<Rightarrow> Inr (Some ErrProto, s)
      | Some bytes \<Rightarrow> Shared_AddInfo s now now' key bytes ttl)"

definition Shared_GetInfoProto ::
  "(byte list \<Rightarrow> 'm option) \<Rightarrow> Shared \<Rightarrow> int \<Rightarrow> string \<Rightarrow> ((shared_error + 'm) \<times> Shared) go" where
  "Shared_GetInfoProto unmarshal s now key =
     go_bind (Shared_GetInfo s now key) (\<lambda>(r, s').
       Inr (case r of
              Inl err \<Rightarrow> Inl err
            | Inr val \<Rightarrow> (case unmarshal val of None \<Rightarrow> Inl ErrProto | Some m \<Rightarrow> Inr m), s'))"

text \<open>The loop of \<open>getNextPeersMeta\<close>; the first argument counts the iterations that are left.\<close>

fun nextPeers_loop :: "nat \<Rightarrow> Shared \<Rightarrow> NodeMeta option \<times> Shared" where
  "nextPeers_loop 0 s = (None, s)"
| "nextPeers_loop (Suc n) s =
     (let idx = (sh_peersIdx s + 1) mod int (length (sh_peers s));
          s1 = s\<lparr>sh_peersIdx := idx,
                 sh_triedAll := (if idx = int (length (sh_peers s)) - 1 then True else sh_triedAll s)\<rparr>;
          meta = sh_peers s ! nat idx in
      if node_Id meta = node_Id (sh_meta s) then nextPeers_loop n s1
      else if map_of (sh_bootstrapping s) (node_Id meta) = None
      then (Some meta, s1\<lparr>sh_bootstrapping := AList.update (node_Id meta) () (sh_bootstrapping s)\<rparr>)
      else nextPeers_loop n s1)"

definition Shared_getNextPeersMeta :: "Shared \<Rightarrow> NodeMeta option \<times> Shared" where
  "Shared_getNextPeersMeta s = nextPeers_loop (length (sh_peers s)) s"

definition Shared_startClient :: "Shared \<Rightarrow> NodeMeta \<Rightarrow> Shared" where
  "Shared_startClient s meta =
     s\<lparr>sh_heap := (sh_heap s)(sh_fresh s := newClient meta), sh_clients := sh_clients s @ [sh_fresh s],
       sh_fresh := Suc (sh_fresh s)\<rparr>"

fun stopClient_loop :: "(nat \<Rightarrow> client) \<Rightarrow> u64 \<Rightarrow> nat list \<Rightarrow> (nat \<Rightarrow> client) go" where
  "stopClient_loop h nodeId [] = Inr h"
| "stopClient_loop h nodeId (a # as) =
     (if node_Id (cl_serverMeta (h a)) = nodeId then go_bind (client_stop (h a)) (\<lambda>c. Inr (h(a := c)))
      else stopClient_loop h nodeId as)"

definition Shared_stopClient :: "Shared \<Rightarrow> u64 \<Rightarrow> Shared go" where
  "Shared_stopClient s nodeId =
     go_bind (stopClient_loop (sh_heap s) nodeId (sh_clients s)) (\<lambda>h. Inr (s\<lparr>sh_heap := h\<rparr>))"

definition Shared_removeClient :: "Shared \<Rightarrow> nat \<Rightarrow> Shared" where
  "Shared_removeClient s a =
     (if a \<in> set (sh_clients s) then
        s\<lparr>sh_clients := remove1 a (sh_clients s),
          sh_bootstrapping := AList.delete (node_Id (cl_serverMeta (sh_heap s a))) (sh_bootstrapping s),
          sh_outgoing := nodeSet_removeNode (sh_outgoing s) (node_Id (cl_serverMeta (sh_heap s a)))\<rparr>
      else s)"

definition Shared_doDisconnect :: "Shared \<Rightarrow> nat \<Rightarrow> Shared" where
  "Shared_doDisconnect s a =
     (let s1 = Shared_removeClient s a in
      case cl_alterMeta (sh_heap s a) of None \<Rightarrow> s1 | Some m \<Rightarrow> Shared_startClient s1 m)"

definition Shared_cullNetwork :: "Shared \<Rightarrow> int \<Rightarrow> Shared go" where
  "Shared_cullNetwork s now =
     (if nodeSet_hasSpace (sh_outgoing s) then Inr s
      else
        go_bind (store_leastUseful (sv_store (sh_server s)) now (sh_outgoing s)) (\<lambda>(leastId, st).
          let s1 = s\<lparr>sh_server := (sh_server s)\<lparr>sv_store := st\<rparr>\<rparr> in
          if leastId \<noteq> 0 then Shared_stopClient s1 leastId else Inr s1))"

definition Shared_bootstrap_step :: "Shared \<Rightarrow> int \<Rightarrow> Shared" where
  "Shared_bootstrap_step s now =
     (let haveClients = nodeSet_len (sh_outgoing s) > 0;
          (info, st) = store_getInfo (sv_store (sh_server s)) now KeySentinel;
          s1 = s\<lparr>sh_server := (sh_server s)\<lparr>sv_store := st\<rparr>\<rparr> in
      if \<not> haveClients \<or> info = None then
        (case Shared_getNextPeersMeta s1 of
           (Some meta, s2) \<Rightarrow> Shared_startClient s2 meta
         | (None, s2) \<Rightarrow> s2)
      else s1)"

definition Shared_RegisterCallback :: "(string \<Rightarrow> string \<Rightarrow> bool) \<Rightarrow> Shared \<Rightarrow> int \<Rightarrow> nat \<Rightarrow> string \<Rightarrow> nat \<Rightarrow> Shared go" where
  "Shared_RegisterCallback re s now cid pattern f =
     go_bind (store_registerCallback re (sv_store (sh_server s)) now cid pattern f) (\<lambda>st.
       Inr (s\<lparr>sh_server := (sh_server s)\<lparr>sv_store := st\<rparr>\<rparr>))"

section \<open>Choosing the next peer\<close>

text \<open>The peers in the order in which they are tried from an index on, and which of them may be
  chosen.\<close>

definition peer_free :: "Shared \<Rightarrow> NodeMeta \<Rightarrow> bool" where
  "peer_free s m \<longleftrightarrow> node_Id m \<noteq> node_Id (sh_meta s) \<and> map_of (sh_bootstrapping s) (node_Id m) = None"

definition peer_at :: "Shared \<Rightarrow> nat \<Rightarrow> NodeMeta" where
  "peer_at s j = sh_peers s ! nat ((sh_peersIdx s + 1 + int j) mod int (length (sh_peers s)))"

lemma nextPeers_loop_spec:
  assumes "sh_peers s \<noteq> []" "nextPeers_loop n s = (res, s')"
  shows "(res = None \<and> (\<forall>j < n. \<not> peer_free s (peer_at s j)) \<and> sh_bootstrapping s' = sh_bootstrapping s) \<or>
    (\<exists>j < n. res = Some (peer_at s j) \<and> peer_free s (peer_at s j) \<and> (\<forall>i < j. \<not> peer_free s (peer_at s i)) \<and>
      sh_bootstrapping s' = AList.update (node_Id (peer_at s j)) () (sh_bootstrapping s))"
  using assms
proof (induction n arbitrary: s)
  case (Suc n)
  let ?L = "int (length (sh_peers s))"
  let ?idx = "(sh_peersIdx s + 1) mod ?L"
  let ?s1 = "s\<lparr>sh_peersIdx := ?idx, sh_triedAll := (if ?idx = ?L - 1 then True else sh_triedAll s)\<rparr>"
  have at0: "peer_at s 0 = sh_peers s ! nat ?idx" by (simp add: peer_at_def)
  have atS: "peer_at ?s1 j = peer_at s (Suc j)" for j
    using mod_add_left_eq [of "sh_peersIdx s + 1" ?L "1 + int j"] by (simp add: peer_at_def add.assoc)
  have free: "peer_free ?s1 = peer_free s" by (simp add: peer_free_def fun_eq_iff)
  show ?case
  proof (cases "peer_free s (peer_at s 0)")
    case True
    then have "res = Some (peer_at s 0)" "sh_bootstrapping s' = AList.update (node_Id (peer_at s 0)) () (sh_bootstrapping s)"
      using Suc.prems(2) by (auto simp: peer_free_def at0 Let_def)
    then show ?thesis using True by (intro disjI2 exI [of _ 0]) simp
  next
    case False
    then have "nextPeers_loop n ?s1 = (res, s')"
      using Suc.prems(2) by (auto simp: peer_free_def at0 Let_def split: if_splits)
    from Suc.IH [OF _ this] Suc.prems(1)
    consider "res = None" "\<forall>j < n. \<not> peer_free s (peer_at s (Suc j))" "sh_bootstrapping s' = sh_bootstrapping s"
      | j where "j < n" "res = Some (peer_at s (Suc j))" "peer_free s (peer_at s (Suc j))"
        "\<forall>i < j. \<not> peer_free s (peer_at s (Suc i))"
        "sh_bootstrapping s' = AList.update (node_Id (peer_at s (Suc j))) () (sh_bootstrapping s)"
      unfolding atS free by auto
    then show ?thesis
    proof cases
      case 1
      then show ?thesis using False by (auto simp: less_Suc_eq_0_disj)
    next
      case 2
      then show ?thesis using False by (intro disjI2 exI [of _ "Suc j"]) (auto simp: less_Suc_eq_0_disj)
    qed
  qed
qed simp

lemma peer_at_range:
  assumes "m \<in> set (sh_peers s)"
  shows "\<exists>j < length (sh_peers s). peer_at s j = m"
proof -
  let ?L = "int (length (sh_peers s))"
  obtain k where k: "k < length (sh_peers s)" "sh_peers s ! k = m" using assms by (auto simp: in_set_conv_nth)
  let ?j = "(int k - (sh_peersIdx s + 1)) mod ?L"
  have L: "0 < ?L" using k(1) by linarith
  have "(sh_peersIdx s + 1 + ?j) mod ?L = (sh_peersIdx s + 1 + (int k - (sh_peersIdx s + 1))) mod ?L"
    by (rule mod_add_right_eq)
  also have "\<dots> = int k" using k(1) by simp
  finally have "peer_at s (nat ?j) = m" using k(2) pos_mod_sign [OF L] by (simp add: peer_at_def)
  moreover have "nat ?j < length (sh_peers s)" using pos_mod_bound [OF L] pos_mod_sign [OF L] by (simp add: nat_less_iff)
  ultimately show ?thesis by blast
qed

section \<open>A client's pushes\<close>

text \<open>The events of a client that concern its pushes: a callback asks for a push; a push or pull call returns, with a response or
  with an error, which stops the client; and the loop takes a response from the channel. In \<open>Respond\<close> nothing comes between the
  moment where the loop resets \<open>pushing\<close> and the push that it then starts if one is wanted; in \<open>RespondOnly\<close> something may, and that push is a
  \<open>PushAsked\<close> of its own. \<open>push_run\<close> counts the push calls under way.\<close>

datatype push_event =
    PushAsked int
  | PushReturned "ShareResponse option"
  | PullReturned "ShareResponse option"
  | Respond int
  | RespondOnly

fun push_do :: "push_event \<Rightarrow> nat \<times> client \<times> Shared \<Rightarrow> (nat \<times> client \<times> Shared) go" where
  "push_do (PushAsked now) (n, c, s) =
     go_bind (client_push_request s now c) (\<lambda>(req, c', s'). Inr (n + (if req = None then 0 else 1), c', s'))"
| "push_do (PushReturned r) (n, c, s) =
     (if n = 0 then Inr (n, c, s) else go_bind (client_push_done c r) (\<lambda>c'. Inr (n - 1, c', s)))"
| "push_do (PullReturned r) (n, c, s) = go_bind (client_pull_done c r) (\<lambda>c'. Inr (n, c', s))"
| "push_do (Respond now) (n, c, s) =
     go_bind (client_shared_step s now c) (\<lambda>(call, c', s').
       Inr (n + (case call of CallPush _ \<Rightarrow> 1 | _ \<Rightarrow> 0), c', s'))"
| "push_do RespondOnly (n, c, s) =
     go_bind (client_shared_handle s c) (\<lambda>(c', s'). Inr (n, c', s'))"

fun push_run :: "push_event list \<Rightarrow> nat \<times> client \<times> Shared \<Rightarrow> (nat \<times> client \<times> Shared) go" where
  "push_run [] st = Inr st"
| "push_run (e # es) st = go_bind (push_do e st) (\<lambda>st'. push_run es st')"

definition push_responses :: "client \<Rightarrow> nat" where
  "push_responses c = length (filter (\<lambda>p. fst p = RpcPush) (cl_rpcChan c))"

definition push_ok :: "nat \<times> client \<times> Shared \<Rightarrow> bool" where
  "push_ok st \<longleftrightarrow> (case st of (n, c, s) \<Rightarrow>
     n + push_responses c \<le> 1 \<and> (\<not> cl_pushing c \<longrightarrow> n + push_responses c = 0) \<and>
     (cl_pushing c \<and> \<not> cl_closed c \<longrightarrow> n + push_responses c = 1))"

lemma handleResponse_client:
  assumes "client_handleResponse s c r = Inr (c', s')"
  shows "cl_rpcChan c' = cl_rpcChan c" "cl_pushing c' = cl_pushing c" "cl_pushWanted c' = cl_pushWanted c"
    "cl_closed c' = cl_closed c"
  using assms by (auto simp: client_handleResponse_def Let_def split: option.splits)

lemma push_request_client:
  assumes "client_push_request s now c = Inr (req, c', s')"
  shows "cl_rpcChan c' = cl_rpcChan c \<and> cl_pushing c' \<and> cl_closed c' = cl_closed c \<and> (req = None \<longleftrightarrow> cl_pushing c)"
  using assms by (auto simp: client_push_request_def Let_def split: if_splits)

lemma push_ok_Respond:
  assumes "push_ok (n, c, s)" "client_shared_step s now c = Inr (call, c', s')"
  shows "push_ok (n + (case call of CallPush _ \<Rightarrow> 1 | _ \<Rightarrow> 0), c', s')"
proof (cases "cl_rpcChan c")
  case Nil
  then show ?thesis using assms by (auto simp: client_shared_step_def)
next
  case (Cons p rest)
  obtain t r where p: "p = (t, r)" by fastforce
  obtain c1 s1 where h: "client_handleResponse s (c\<lparr>cl_rpcChan := rest\<rparr>) r = Inr (c1, s1)"
    using assms(2) Cons p by (auto simp: client_shared_step_def)
  note c1 = handleResponse_client [OF h]
  show ?thesis
    using assms Cons p h c1
    by (cases t; auto simp: client_shared_step_def push_ok_def push_responses_def Let_def dest!: push_request_client
        split: if_splits option.splits)
qed

lemma push_do_ok: "push_ok st \<Longrightarrow> push_do e st = Inr st' \<Longrightarrow> push_ok st'"
proof (induction e st rule: push_do.induct)
  case (1 now n c s)
  then show ?case by (auto simp: push_ok_def push_responses_def dest!: push_request_client split: if_splits)
next
  case (2 r n c s)
  from 2(1) have "n = 0 \<or> n = 1 \<and> cl_pushing c \<and> push_responses c = 0" unfolding push_ok_def by (auto split: if_splits)
  then show ?case using 2
    by (auto simp: push_ok_def push_responses_def client_push_done_def client_stop_def split: option.splits if_splits)
next
  case (3 r n c s)
  then show ?case
    by (auto simp: push_ok_def push_responses_def client_pull_done_def client_stop_def split: option.splits if_splits)
next
  case (4 now n c s)
  then show ?case using push_ok_Respond by fastforce
next
  case (5 n c s)
  show ?case
  proof (cases "cl_rpcChan c")
    case (Cons p rest)
    obtain t r where p: "p = (t, r)" by fastforce
    obtain c1 s1 where h: "client_handleResponse s (c\<lparr>cl_rpcChan := rest\<rparr>) r = Inr (c1, s1)"
      using 5(2) Cons p by (auto simp: client_shared_handle_def)
    then show ?thesis using 5 Cons p handleResponse_client [OF h]
      by (cases t) (auto simp: push_ok_def push_responses_def client_shared_handle_def)
  qed (use 5 in \<open>simp add: client_shared_handle_def\<close>)
qed

lemma push_run_ok: "push_ok st \<Longrightarrow> push_run es st = Inr st' \<Longrightarrow> push_ok st'"
  by (induction es arbitrary: st) (auto dest: push_do_ok)

section \<open>Properties\<close>

text \<open>The next peer to bootstrap from is found in turn: \<open>getNextPeersMeta\<close> returns the first of the
  peers, in cyclic order after the last one tried, that is not this node and is not being
  bootstrapped from, and marks it; it returns nothing only when there is no such peer.\<close>

theorem next_peer_in_turn:
  assumes "sh_peers s \<noteq> []" "Shared_getNextPeersMeta s = (res, s')"
  shows "case res of
      None \<Rightarrow> (\<forall>m \<in> set (sh_peers s). \<not> peer_free s m)
    | Some m \<Rightarrow> m \<in> set (sh_peers s) \<and> peer_free s m \<and> \<not> peer_free s' m \<and>
        (\<exists>j < length (sh_peers s). m = peer_at s j \<and> (\<forall>i < j. \<not> peer_free s (peer_at s i)))"
proof -
  have mem: "peer_at s j \<in> set (sh_peers s)" for j
    using assms(1) by (simp add: peer_at_def nat_less_iff)
  have meta: "nextPeers_loop n s = (res, s') \<Longrightarrow> sh_meta s' = sh_meta s" for n s
    by (induction n arbitrary: s) (auto simp: Let_def split: if_splits)
  note spec = nextPeers_loop_spec [OF assms(1) assms(2) [unfolded Shared_getNextPeersMeta_def]]
  show ?thesis
  proof (cases res)
    case None
    then show ?thesis using spec peer_at_range by fastforce
  next
    case (Some m)
    then obtain j where "j < length (sh_peers s)" "m = peer_at s j" "peer_free s m" "\<forall>i < j. \<not> peer_free s (peer_at s i)"
      "sh_bootstrapping s' = AList.update (node_Id m) () (sh_bootstrapping s)"
      using spec by auto
    moreover from this have "\<not> peer_free s' m" by (simp add: peer_free_def update_conv')
    ultimately show ?thesis using Some mem by auto
  qed
qed

theorem next_peer_in_turn_witness:
  "\<exists>s'. Shared_getNextPeersMeta (NewShared (ex_meta 1) [ex_meta 1, ex_meta 2]) = (Some (ex_meta 2), s') \<and>
     \<not> peer_free s' (ex_meta 2)"
proof -
  let ?s = "NewShared (ex_meta 1) [ex_meta 1, ex_meta 2]"
  have p: "sh_peers ?s \<noteq> []" by (simp add: NewShared_def)
  obtain s' where s': "Shared_getNextPeersMeta ?s = (Some (ex_meta 2), s')"
    by (simp add: Shared_getNextPeersMeta_def NewShared_def ex_meta_def eval_nat_numeral Let_def)
  show ?thesis using next_peer_in_turn [OF p s'] s' by auto
qed

text \<open>C31: A client has at most one push call or unhandled push response at a time, however callbacks, returning and failing calls and
  the client's loop interleave. While its flag \<open>pushing\<close> is not set it has none; while the flag is set it has one, unless the
  client has been stopped: a push that fails stops the client and leaves the flag set.\<close>

theorem one_push_at_a_time:
  assumes "push_run es (0, newClient meta, s) = Inr (n, c, s')"
  shows "n + push_responses c \<le> 1 \<and> (\<not> cl_pushing c \<longrightarrow> n + push_responses c = 0) \<and>
    (cl_pushing c \<and> \<not> cl_closed c \<longrightarrow> n + push_responses c = 1)"
proof -
  have "push_ok (0, newClient meta, s)" by (simp add: push_ok_def push_responses_def newClient_def)
  from push_run_ok [OF this assms] show ?thesis by (simp add: push_ok_def)
qed

text \<open>A second push is asked for while the first is under way.\<close>

theorem one_push_at_a_time_witness:
  "\<exists>n c s'. push_run [PushAsked 5, PushAsked 6] (0, newClient (ex_meta 2), NewShared (ex_meta 1) []) = Inr (n, c, s') \<and>
     cl_pushWanted c = 1 \<and> n + push_responses c = 1"
proof -
  have "(case push_run [PushAsked 5, PushAsked 6] (0, newClient (ex_meta 2), NewShared (ex_meta 1) []) of
      Inl _ \<Rightarrow> False | Inr (n, c, s') \<Rightarrow> cl_pushWanted c = 1 \<and> cl_pushing c \<and> \<not> cl_closed c)" by code_simp
  then obtain n c s' where R: "push_run [PushAsked 5, PushAsked 6] (0, newClient (ex_meta 2), NewShared (ex_meta 1) []) = Inr (n, c, s')"
    "cl_pushWanted c = 1" "cl_pushing c" "\<not> cl_closed c" by (auto simp del: push_run.simps split: sum.splits)
  have "n + push_responses c = 1" using one_push_at_a_time [OF R(1)] R(3,4) by simp
  then show ?thesis using R(1,2) by blast
qed

text \<open>Information added under a new key can be read back: \<open>GetInfo\<close> returns the bytes given to
  \<open>AddInfo\<close> until they expire.\<close>

theorem addInfo_getInfo:
  assumes "server_ok (sh_server s)" "node_Id (sh_meta s) \<noteq> 0" "map_of (st_infos (sv_store (sh_server s))) k = None"
    "ttl = 0" "now'' < 2 ^ 63"
  shows "\<exists>s' s''. Shared_AddInfo s now now' k val ttl = Inr (None, s') \<and> Shared_GetInfo s' now'' k = Inr (Inr val, s'')"
proof -
  let ?st = "sv_store (sh_server s)"
  obtain i m where i: "newInfo (node_Id (sh_meta s)) val ttl now now' (sh_monoTime s) = Inr (i, m)" "inf_NodeId i \<noteq> 0"
    "inf_Value i = Some (MakeValueFromBytesAndTimestamp val (Some \<lparr>ts_WallTime = now, ts_LogicalTime = 0\<rparr>))"
    "\<not> Info_isExpired i now''"
    using assms(2,4,5) by (simp add: newInfo_def Let_def Info_isExpired_def)
  have "store_addInfo ?st k i = Inr (None, store_insert ?st k i)"
    using store_addInfo_eq [OF server_okD(1) [OF assms(1)] i(2)] assms(3) by (simp add: outdone_def)
  then show ?thesis
    using i by (simp add: Shared_AddInfo_def Shared_GetInfo_def store_getInfo_def store_insert_def update_conv'
        MakeValueFromBytesAndTimestamp_def)
qed

theorem addInfo_getInfo_witness:
  "\<exists>s' s''. Shared_AddInfo (NewShared (ex_meta 1) []) 5 6 ''a'' [7] 0 = Inr (None, s') \<and> Shared_GetInfo s' 9 ''a'' = Inr (Inr [7], s'')"
proof (rule addInfo_getInfo)
  show "server_ok (sh_server (NewShared (ex_meta 1) []))" by (simp add: NewShared_def server_ok_new)
qed (simp_all add: NewShared_def ex_meta_def newServer_def newStore_def)

text \<open>\<open>AddInfo\<close> of a key that this node has already set reports success and changes nothing that
  can be read.\<close>

theorem addInfo_silently_lost:
  assumes "server_ok (sh_server s)" "node_Id (sh_meta s) \<noteq> 0" "map_of (st_infos (sv_store (sh_server s))) k = Some i"
    "inf_Hops i = 0"
  shows "\<exists>s'. Shared_AddInfo s now now' k val ttl = Inr (None, s') \<and> sv_store (sh_server s') = sv_store (sh_server s)"
proof -
  obtain j m where j: "newInfo (node_Id (sh_meta s)) val ttl now now' (sh_monoTime s) = Inr (j, m)" "inf_NodeId j \<noteq> 0" "inf_Hops j = 0"
    using assms(2) by (simp add: newInfo_def Let_def)
  have "store_addInfo (sv_store (sh_server s)) k j = Inr (Some ErrNotFresh, sv_store (sh_server s))"
    using store_addInfo_eq [OF server_okD(1) [OF assms(1)] j(2), of k] assms(3,4) j(3) by (simp add: outdone_def)
  then show ?thesis using j(1) by (simp add: Shared_AddInfo_def)
qed

theorem addInfo_silently_lost_witness:
  "\<exists>s'. Shared_AddInfo ((NewShared (ex_meta 1) [])\<lparr>sh_server := (newServer (ex_meta 1))\<lparr>sv_store := ex_store\<rparr>\<rparr>) 50 50 ''a'' [9] 0 =
     Inr (None, s') \<and> sv_store (sh_server s') = ex_store"
proof -
  let ?s = "(NewShared (ex_meta 1) [])\<lparr>sh_server := (newServer (ex_meta 1))\<lparr>sv_store := ex_store\<rparr>\<rparr>"
  have "server_ok (sh_server ?s)" by (simp add: server_ok_store [OF server_ok_new ex_store_ok])
  moreover have "node_Id (sh_meta ?s) \<noteq> 0" by (simp add: NewShared_def ex_meta_def)
  moreover have "map_of (st_infos (sv_store (sh_server ?s))) ''a'' = Some (ex_info 1 10 0 10)"
    by (simp add: ex_store_def store_insert_def newStore_def)
  moreover have "inf_Hops (ex_info 1 10 0 10) = 0" by (simp add: ex_info_def)
  ultimately show ?thesis using addInfo_silently_lost [of ?s "''a''" "ex_info 1 10 0 10" 50 50 "[9]" 0] by simp
qed

text \<open>A client that is stopped twice panics: \<open>stop\<close> closes its channel without looking whether it is
  closed, and a failed call, a failed push and \<open>stopClient\<close> each call it.\<close>

theorem second_stop_panics:
  assumes "client_pull_done c None = Inr c'"
  shows "client_push_done c' None = Inl PanicCall"
  using assms by (auto simp: client_pull_done_def client_push_done_def client_stop_def split: if_splits)

theorem second_stop_panics_witness:
  "client_push_done ((newClient (ex_meta 2))\<lparr>cl_closed := True\<rparr>) None = Inl PanicCall"
  by (rule second_stop_panics [of "newClient (ex_meta 2)"]) (simp add: client_pull_done_def client_stop_def newClient_def)

end
