(* ===== verification/GossipExchange.thy ===== *)
theory GossipExchange
  imports SharedNode
begin

text \<open>
  A round of gossip between two nodes: a client of node \<open>a\<close> pulls from the server of node \<open>b\<close>. The
  request of \<open>client.pull\<close>, the handler \<open>Share\<close> at \<open>b\<close>, the delivery of its answer to \<open>rpcChan\<close> and the
  loop of \<open>client.shared\<close> are composed in the order the code runs them; gRPC carries the request and
  the answer unchanged.
\<close>

section \<open>A round\<close>

definition pull_round ::
  "(nat \<Rightarrow> int) \<Rightarrow> int \<times> nat \<Rightarrow> Shared \<times> client \<times> server \<Rightarrow> (share_result \<times> Shared \<times> client \<times> server) go" where
  "pull_round root ev st =
     (case (ev, st) of ((now, rnd), (a, c, b)) \<Rightarrow>
        go_bind (server_Share root b now rnd (client_pull_request a)) (\<lambda>(res, b').
          case res of
            ShareResp r \<Rightarrow>
              go_bind (client_pull_done c (Some r)) (\<lambda>c1.
              go_bind (client_shared_step a now c1) (\<lambda>(call, c2, a'). Inr (res, a', c2, b')))
          | ShareErr _ \<Rightarrow> go_bind (client_pull_done c None) (\<lambda>c1. Inr (res, a, c1, b'))
          | ShareWait \<Rightarrow> Inr (res, a, c, b')))"

fun pull_rounds ::
  "(nat \<Rightarrow> int) \<Rightarrow> (int \<times> nat) list \<Rightarrow> Shared \<times> client \<times> server \<Rightarrow>
   (share_result list \<times> Shared \<times> client \<times> server) go" where
  "pull_rounds root [] st = Inr ([], st)"
| "pull_rounds root (ev # evs) st =
     go_bind (pull_round root ev st) (\<lambda>(res, st').
       go_bind (pull_rounds root evs st') (\<lambda>(rs, st''). Inr (res # rs, st'')))"

abbreviation sh_store :: "Shared \<Rightarrow> store" where
  "sh_store s \<equiv> sv_store (sh_server s)"

text \<open>The nodes are well formed, \<open>a\<close> has an id and is a client of \<open>b\<close>, which has not stopped, and the
  client has no response waiting.\<close>

definition pull_ok :: "Shared \<times> client \<times> server \<Rightarrow> bool" where
  "pull_ok st \<longleftrightarrow> (case st of (a, c, b) \<Rightarrow>
     server_ok (sh_server a) \<and> server_ok b \<and> \<not> sv_stopped b \<and> node_Id (st_meta (sh_store a)) \<noteq> 0 \<and>
     nodeSet_hasNode (sv_incoming b) (node_Id (st_meta (sh_store a))) \<and> cl_rpcChan c = [])"

text \<open>What \<open>b\<close> has for \<open>a\<close>.\<close>

definition offered :: "server \<Rightarrow> int \<Rightarrow> Shared \<Rightarrow> infos" where
  "offered b now a =
     filter (\<lambda>p. live now p \<and>
       Info_isFresh (snd p) (node_Id (st_meta (sv_store b))) (map_of (st_nodes (sh_store a)) (inf_NodeId (snd p))))
       (st_infos (sv_store b))"

lemma offered_ok: "server_ok b \<Longrightarrow> delta_ok (offered b now a)" "server_ok b \<Longrightarrow> distinct (keys (offered b now a))"
  using server_okD(1) [of b] by (auto simp: offered_def delta_ok_def store_ok_def distinct_keys_filter)

lemma share_pull:
  assumes "pull_ok (a, c, b)"
  shows "\<exists>b'. server_Share root b now rnd (client_pull_request a) =
      Inr (if offered b now a = [] then ShareWait
           else ShareResp \<lparr>sr_NodeId = node_Id (st_meta (sv_store b)), sr_AlterNode = None,
                  sr_Delta = Some (offered b now a), sr_Nodes = st_nodes (sv_store b)\<rparr>, b') \<and>
    server_ok b' \<and> \<not> sv_stopped b' \<and> sv_incoming b' = sv_incoming b \<and>
    sv_store b' = (sv_store b)\<lparr>st_infos := filter (live now) (st_infos (sv_store b))\<rparr>"
proof -
  let ?id = "node_Id (st_meta (sh_store a))"
  have b: "server_ok b" "?id \<in> set (nodeSet_asSlice (sv_incoming b))" "\<not> sv_stopped b" "?id \<noteq> 0"
    using assms by (auto simp: pull_ok_def nodeSet_hasNode_iff)
  obtain x where x: "map_of (sv_clients b) ?id = Some x" "x \<in> set (sv_ll b)" using server_ok_client [OF b(1,2)] by blast
  let ?b1 = "b\<lparr>sv_heap := (sv_heap b)(x := (sv_heap b x)\<lparr>ci_recentActiveTime := now\<rparr>), sv_ll := x # removeAll x (sv_ll b)\<rparr>"
  have admit: "server_admit root b now rnd (st_meta (sh_store a)) = Inr (None, ?b1)"
    using x b(2) by (simp add: server_admit_def nodeSet_hasNode_iff)
  have ok1: "server_ok ?b1" using server_ok_touch [OF b(1) x(2)] by simp
  have "store_ok (sv_store b)" "distinct (keys (st_infos (sv_store b)))"
    using server_okD(1) [OF b(1)] by (simp_all add: store_ok_def)
  note st = store_delta_eq [OF this(2), of now "st_nodes (sh_store a)"] server_ok_store [OF ok1 store_ok_filter [OF this(1)], of "live now"]
  show ?thesis
    using b(3,4) admit st
    by (auto simp: server_Share_def client_pull_request_def server_reply_def store_getNodes_def offered_def server_ok_def)
qed

lemma combine_offered:
  assumes "pull_ok (a, c, b)"
  obtains m st where "store_combine (sh_store a) (offered b now a) = Inr (m, None, st)" "store_ok st"
    "st_meta st = st_meta (sh_store a)" "\<forall>(k, i) \<in> set (offered b now a). outdone st k (received (sh_store a) i)"
    "\<forall>k j. outdone (sh_store a) k j \<longrightarrow> outdone st k j"
    "\<forall>k. k \<notin> set (keys (offered b now a)) \<longrightarrow> map_of (st_infos st) k = map_of (st_infos (sh_store a)) k"
proof -
  have "store_ok (sh_store a)" "delta_ok (offered b now a)"
    using assms server_okD(1) offered_ok(1) by (auto simp: pull_ok_def)
  from store_combine_loop_ok [OF this, of 0 None] show thesis using that by (auto simp: store_combine_def)
qed

text \<open>A round in full: it waits when \<open>b\<close> has nothing to offer, and otherwise \<open>a\<close> combines what it is
  offered and pulls again.\<close>

lemma pull_round_eq:
  assumes "pull_ok (a, c, b)"
  shows "\<exists>b'. sv_store b' = (sv_store b)\<lparr>st_infos := filter (live now) (st_infos (sv_store b))\<rparr> \<and>
    (if offered b now a = [] then pull_round root (now, rnd) (a, c, b) = Inr (ShareWait, a, c, b') \<and> pull_ok (a, c, b')
     else \<exists>r m st c' a'. store_combine (sh_store a) (offered b now a) = Inr (m, None, st) \<and>
       pull_round root (now, rnd) (a, c, b) = Inr (ShareResp r, a', c', b') \<and> sr_Delta r = Some (offered b now a) \<and>
       sh_store a' = st \<and> pull_ok (a', c', b'))"
proof -
  obtain b' where b': "server_Share root b now rnd (client_pull_request a) =
      Inr (if offered b now a = [] then ShareWait
           else ShareResp \<lparr>sr_NodeId = node_Id (st_meta (sv_store b)), sr_AlterNode = None,
                  sr_Delta = Some (offered b now a), sr_Nodes = st_nodes (sv_store b)\<rparr>, b')"
    "server_ok b'" "\<not> sv_stopped b'" "sv_incoming b' = sv_incoming b"
    "sv_store b' = (sv_store b)\<lparr>st_infos := filter (live now) (st_infos (sv_store b))\<rparr>"
    using share_pull [OF assms, of root now rnd] by blast
  obtain m st where st: "store_combine (sh_store a) (offered b now a) = Inr (m, None, st)" "store_ok st"
    "st_meta st = st_meta (sh_store a)" by (rule combine_offered [OF assms])
  have chan: "cl_rpcChan c = []" and a: "server_ok (sh_server a)" using assms by (auto simp: pull_ok_def)
  show ?thesis
    using b' st chan assms server_ok_store [OF a st(2)]
    by (intro exI [of _ b'])
      (auto simp: pull_round_def pull_ok_def client_pull_done_def client_shared_step_def client_handleResponse_def Let_def)
qed

section \<open>What a delta does to the table of nodes\<close>

lemma store_insert_sel:
  "map_of (st_nodes (store_insert s k i)) n =
     (if inf_NodeId i = n then Some (node_merge i (map_of (st_nodes s) n)) else map_of (st_nodes s) n)"
  by (simp add: store_insert_def update_conv')

lemma combine_nodes:
  assumes "store_ok s" "delta_ok d" "distinct (keys d)" "\<forall>(k', i') \<in> set d. inf_NodeId i' = n \<longrightarrow> (k', i') = (k, i)"
    "store_combine_loop s d c err = Inr (c', err', s')" "inf_NodeId i = n"
  shows "map_of (st_nodes s') n =
    (if (k, i) \<in> set d \<and> \<not> outdone s k (received s i) then Some (node_merge (received s i) (map_of (st_nodes s) n))
     else map_of (st_nodes s) n)"
  using assms
proof (induction d arbitrary: s c)
  case (Cons p d)
  obtain k1 i1 where p: "p = (k1, i1)" by fastforce
  have i1: "info_ok i1" "delta_ok d" using Cons.prems(2) p by (auto simp: delta_ok_def)
  let ?s = "if outdone s k1 (received s i1) then s else store_insert s k1 (received s i1)"
  have step: "store_combine_loop ?s d (if outdone s k1 (received s i1) then c else Suc c) err = Inr (c', err', s')"
    using store_combine_loop_Cons [OF Cons.prems(1) i1(1), of k1 d c err] Cons.prems(5) p by (auto split: if_splits)
  have ok: "store_ok ?s" using store_ok_insert [OF Cons.prems(1), of "received s i1" k1] Cons.prems(1) i1(1) by auto
  have rec: "received ?s x = received s x" for x by simp
  note IH = Cons.IH [OF ok i1(2) _ _ step Cons.prems(6), unfolded rec]
  have d: "distinct (keys d)" "k1 \<notin> set (keys d)" "\<forall>(k', i') \<in> set d. inf_NodeId i' = n \<longrightarrow> (k', i') = (k, i)"
    using Cons.prems(3,4) p by auto
  show ?case
  proof (cases "(k1, i1) = (k, i)")
    case True
    then have "(k, i) \<notin> set d" using d(2) by (force simp: keys_def)
    then show ?thesis using IH d True p Cons.prems(6) by (auto simp: store_insert_sel received_def)
  next
    case False
    then have n1: "inf_NodeId i1 \<noteq> n" using Cons.prems(4) p by auto
    have "(k, i) \<in> set d \<Longrightarrow> k1 \<noteq> k" using d(2) by (force simp: keys_def)
    then have "(k, i) \<in> set d \<Longrightarrow> outdone ?s k j \<longleftrightarrow> outdone s k j" for j
      by (simp add: outdone_def store_insert_def update_conv')
    then show ?thesis using IH d False p n1 by (auto simp: store_insert_sel received_def)
  qed
qed simp

section \<open>An info that never settles\<close>

text \<open>The info \<open>i\<close> under key \<open>k\<close> is the only one \<open>b\<close> has of its origin, which is not \<open>b\<close>, and \<open>a\<close> knows the
  origin through this info only, or not at all.\<close>

definition unsettled :: "string \<Rightarrow> Info \<Rightarrow> Shared \<Rightarrow> server \<Rightarrow> bool" where
  "unsettled k i a b \<longleftrightarrow>
     (k, i) \<in> set (st_infos (sv_store b)) \<and> inf_NodeId i \<noteq> node_Id (st_meta (sv_store b)) \<and>
     inf_Hops i < inf_Hops i + 1 \<and>
     (\<forall>(k', i') \<in> set (st_infos (sv_store b)). inf_NodeId i' = inf_NodeId i \<longrightarrow> (k', i') = (k, i)) \<and>
     (map_of (st_nodes (sh_store a)) (inf_NodeId i) = None \<or>
      map_of (st_nodes (sh_store a)) (inf_NodeId i) =
        Some \<lparr>nd_HighWaterStamp = inf_OrigStamp i, nd_MinHops = inf_Hops i + 1\<rparr> \<and> outdone (sh_store a) k (received (sh_store a) i))"

lemma unsettled_offered:
  assumes "unsettled k i a b" "\<not> Info_isExpired i now"
  shows "(k, i) \<in> set (offered b now a)"
  using assms by (auto simp: unsettled_def offered_def Info_isFresh_def)

lemma unsettled_round:
  assumes ok: "pull_ok (a, c, b)" and u: "unsettled k i a b" and live: "\<not> Info_isExpired i now"
  shows "\<exists>r a' c' b'. pull_round root (now, rnd) (a, c, b) = Inr (ShareResp r, a', c', b') \<and>
    pull_ok (a', c', b') \<and> unsettled k i a' b' \<and> sr_Delta r = Some (offered b now a)"
proof -
  let ?d = "offered b now a" and ?n = "inf_NodeId i"
  have mem: "(k, i) \<in> set ?d" by (rule unsettled_offered [OF u live])
  obtain b' r m st c' a' where R: "sv_store b' = (sv_store b)\<lparr>st_infos := filter (live now) (st_infos (sv_store b))\<rparr>"
    "store_combine (sh_store a) ?d = Inr (m, None, st)" "pull_round root (now, rnd) (a, c, b) = Inr (ShareResp r, a', c', b')"
    "sr_Delta r = Some ?d" "sh_store a' = st" "pull_ok (a', c', b')"
    using pull_round_eq [OF ok, of now root rnd] mem by (auto split: if_splits)
  have st: "st_meta st = st_meta (sh_store a)" "outdone st k (received (sh_store a) i)"
    using combine_offered [OF ok, of now] R(2) mem by (metis (no_types, lifting) Inr_inject case_prodD prod.inject)+
  have "map_of (st_nodes st) ?n = (if (k, i) \<in> set ?d \<and> \<not> outdone (sh_store a) k (received (sh_store a) i)
      then Some (node_merge (received (sh_store a) i) (map_of (st_nodes (sh_store a)) ?n)) else map_of (st_nodes (sh_store a)) ?n)"
  proof (rule combine_nodes)
    show "store_ok (sh_store a)" "delta_ok ?d" "distinct (keys ?d)"
      using ok server_okD(1) offered_ok by (auto simp: pull_ok_def)
    show "\<forall>(k', i') \<in> set ?d. inf_NodeId i' = ?n \<longrightarrow> (k', i') = (k, i)" using u by (auto simp: unsettled_def offered_def)
  qed (use R(2) in \<open>simp_all add: store_combine_def\<close>)
  then have "map_of (st_nodes st) ?n = None \<or>
      map_of (st_nodes st) ?n = Some \<lparr>nd_HighWaterStamp = inf_OrigStamp i, nd_MinHops = inf_Hops i + 1\<rparr>"
    using u mem by (auto simp: unsettled_def node_merge_def received_def split: if_splits)
  moreover have "received st i = received (sh_store a) i" using st(1) by (simp add: received_def)
  ultimately have "unsettled k i a' b'" using u R(1,5) st(2) live unfolding unsettled_def by auto
  then show ?thesis using R by blast
qed

text \<open>Node 2 has an info of node 3, and node 1 is its client.\<close>

definition ex_peer :: server where
  "ex_peer =
     (let s = (newServer (ex_meta 2))\<lparr>sv_store := store_insert (newStore (ex_meta 2)) ''c'' (ex_info 3 10 1 10)\<rparr> in
      s\<lparr>sv_incoming := nodeSet_addNode (sv_incoming s) (node_Id (ex_meta 1)),
        sv_heap := (sv_heap s)(sv_fresh s := \<lparr>ci_NodeMeta = ex_meta 1, ci_recentActiveTime = 50\<rparr>),
        sv_ll := sv_fresh s # sv_ll s, sv_clients := AList.update (node_Id (ex_meta 1)) (sv_fresh s) (sv_clients s),
        sv_fresh := Suc (sv_fresh s)\<rparr>)"

lemma ex_peer_ok: "pull_ok (NewShared (ex_meta 1) [], newClient (ex_meta 2), ex_peer)"
proof -
  let ?st = "store_insert (newStore (ex_meta 2)) ''c'' (ex_info 3 10 1 10)"
  have "store_ok ?st" by (intro store_ok_insert store_ok_new) (simp add: info_ok_def ex_info_def)
  then have "server_ok ((newServer (ex_meta 2))\<lparr>sv_store := ?st\<rparr>)" by (rule server_ok_store [OF server_ok_new])
  then have "server_ok ex_peer"
    unfolding ex_peer_def Let_def
    by (rule server_ok_join) (simp add: newServer_def newNodeSet_def nodeSet_hasNode_def)
  then show ?thesis
    by (simp add: pull_ok_def ex_peer_def Let_def NewShared_def newServer_def newStore_def ex_meta_def newClient_def
        server_ok_new [unfolded newServer_def newStore_def ex_meta_def] nodeSet_hasNode_iff)
qed

lemma ex_peer_infos: "st_infos (sv_store ex_peer) = [(''c'', ex_info 3 10 1 10)]" "node_Id (st_meta (sv_store ex_peer)) = 2"
  by (simp_all add: ex_peer_def Let_def store_insert_def newStore_def newServer_def ex_meta_def)

section \<open>Properties\<close>

text \<open>C24: A round of pulling delivers. Take two well-formed nodes, a server that has not stopped and has admitted the client
  already, and a client with an id and with no response waiting (\<open>pull_ok\<close>). The round never panics and keeps these conditions; the server waits
  exactly when it has nothing that is unexpired and fresh for the client; otherwise the client ends
  with an info for every such key that is at most one hop further from its origin, and keeps its infos
  under all other keys. (A server without room answers a client that it has not admitted with another node and no infos: see \<open>share_admission\<close>.)\<close>

theorem pull_transfers:
  assumes "pull_ok (a, c, b)"
  shows "\<exists>res a' c' b'. pull_round root (now, rnd) (a, c, b) = Inr (res, a', c', b') \<and> pull_ok (a', c', b') \<and>
    (res = ShareWait \<longleftrightarrow> offered b now a = []) \<and>
    (\<forall>(k, i) \<in> set (offered b now a). \<exists>j. map_of (st_infos (sh_store a')) k = Some j \<and> inf_Hops j \<le> inf_Hops i + 1) \<and>
    (\<forall>k. k \<notin> fst ` set (offered b now a) \<longrightarrow> map_of (st_infos (sh_store a')) k = map_of (st_infos (sh_store a)) k)"
proof (cases "offered b now a = []")
  case True
  then show ?thesis using pull_round_eq [OF assms, of now root rnd] by auto
next
  case False
  obtain m st where st: "store_combine (sh_store a) (offered b now a) = Inr (m, None, st)"
    "\<forall>(k, i) \<in> set (offered b now a). outdone st k (received (sh_store a) i)"
    "\<forall>k. k \<notin> set (keys (offered b now a)) \<longrightarrow> map_of (st_infos st) k = map_of (st_infos (sh_store a)) k"
    by (rule combine_offered [OF assms])
  have "\<exists>j. map_of (st_infos st) k = Some j \<and> inf_Hops j \<le> inf_Hops i + 1" if "(k, i) \<in> set (offered b now a)" for k i
    using st(2) that by (auto simp: outdone_def received_def)
  then show ?thesis
    using pull_round_eq [OF assms, of now root rnd] False st(1,3) by (fastforce simp: keys_def)
qed

theorem pull_transfers_witness:
  "\<exists>res a' c' b' j. pull_round (\<lambda>n. 2) (60, 0) (NewShared (ex_meta 1) [], newClient (ex_meta 2), ex_peer) = Inr (res, a', c', b') \<and>
     map_of (st_infos (sh_store a')) ''c'' = Some j \<and> inf_Hops j \<le> 2"
proof -
  let ?a = "NewShared (ex_meta 1) []"
  have "(''c'', ex_info 3 10 1 10) \<in> set (offered ex_peer 60 ?a)"
    by (simp add: offered_def ex_peer_infos NewShared_def newServer_def newStore_def Info_isFresh_def Info_isExpired_def)
      (simp add: ex_info_def)
  moreover have "inf_Hops (ex_info 3 10 1 10) + 1 = 2" by (simp add: ex_info_def)
  ultimately show ?thesis
    using pull_transfers [OF ex_peer_ok, of "\<lambda>n. 2" 60 0] by (fastforce dest!: bspec)
qed

text \<open>C25: The gossip of an info from a third node can fail to come to rest. \<open>isFresh\<close> compares the hops of
  \<open>b\<close>'s copy with the least hops in \<open>a\<close>'s table, but \<open>a\<close> counts the hop from \<open>b\<close> in, so what \<open>a\<close> has just
  received from \<open>b\<close> is fresh for \<open>a\<close> again. In the situation of C24, let \<open>b\<close> have one info of a node that is not \<open>b\<close>, and no other info of that node,
  and let \<open>a\<close> know that node not at all or only through this info (\<open>unsettled\<close>). Then, as long as the info lives and nothing else acts on the two
  nodes, \<open>Share\<close> never waits: each of any number of rounds is answered at once with the same info.\<close>

theorem pull_never_rests:
  assumes "pull_ok (a, c, b)" "unsettled k i a b" "\<forall>(now, rnd) \<in> set evs. \<not> Info_isExpired i now"
  shows "\<exists>rs st. pull_rounds root evs (a, c, b) = Inr (rs, st) \<and> length rs = length evs \<and>
    (\<forall>res \<in> set rs. \<exists>r d. res = ShareResp r \<and> sr_Delta r = Some d \<and> (k, i) \<in> set d)"
  using assms
proof (induction evs arbitrary: a c b)
  case (Cons ev evs)
  obtain now rnd where ev: "ev = (now, rnd)" "\<not> Info_isExpired i now" using Cons.prems(3) by (cases ev) auto
  obtain r a' c' b' where R: "pull_round root (now, rnd) (a, c, b) = Inr (ShareResp r, a', c', b')"
    "pull_ok (a', c', b')" "unsettled k i a' b'" "sr_Delta r = Some (offered b now a)"
    using unsettled_round [OF Cons.prems(1,2) ev(2)] by blast
  then show ?case
    using Cons.IH [OF R(2,3)] Cons.prems(3) ev(1) unsettled_offered [OF Cons.prems(2) ev(2)] by fastforce
qed simp

theorem pull_never_rests_witness:
  "\<exists>rs st. pull_rounds (\<lambda>n. 2) (replicate 1000 (60, 0)) (NewShared (ex_meta 1) [], newClient (ex_meta 2), ex_peer) = Inr (rs, st) \<and>
     length rs = 1000 \<and> ShareWait \<notin> set rs"
proof -
  let ?a = "NewShared (ex_meta 1) []" and ?i = "ex_info 3 10 1 10"
  have "unsettled ''c'' ?i ?a ex_peer"
    by (simp add: unsettled_def ex_peer_infos NewShared_def newServer_def newStore_def) (simp add: ex_info_def)
  moreover have "\<forall>(now, rnd :: nat) \<in> set (replicate 1000 (60, 0)). \<not> Info_isExpired ?i now"
    by (auto simp: Info_isExpired_def ex_info_def)
  ultimately show ?thesis
    using pull_never_rests [OF ex_peer_ok, of "''c''" ?i "replicate 1000 (60, 0)" "\<lambda>n. 2"] by fastforce
qed

end
