(* ===== verification/Worker.thy ===== *)
theory Worker
  imports Prelude
begin

text \<open>
  \<open>src/util/worker.go\<close>: tasks, long-running workers, and stopping them, as a step relation. A configuration
  is the shared \<open>Worker\<close> and the program counter of every goroutine that is inside one of its methods. What
  a method does under the mutex, or in one access to a field, is one step; a step that has to
  wait is not enabled. A closed channel is \<open>True\<close>; closing it again panics. The functions that are run
  have no effect on the \<open>Worker\<close>; closers are named by numbers and \<open>w_ran\<close> lists those that were called.
\<close>

record Worker =
  w_wg :: nat
  w_numTasks :: int
  w_closers :: "nat list"
  w_stopper :: bool
  w_drainer :: bool
  w_stopped :: bool
  w_draining :: bool
  w_ran :: "nat list"

definition NewWorker :: Worker where
  "NewWorker = \<lparr>w_wg = 0, w_numTasks = 0, w_closers = [], w_stopper = False, w_drainer = False, w_stopped = False,
     w_draining = False, w_ran = []\<rparr>"

definition Worker_AddCloser :: "Worker \<Rightarrow> nat \<Rightarrow> Worker" where
  "Worker_AddCloser w f = w\<lparr>w_closers := w_closers w @ [f]\<rparr>"

text \<open>The channels a goroutine waits on. A nil worker has none: \<open>None\<close> is the nil channel, on which a
  receive never succeeds.\<close>

definition Worker_ShouldDrain :: "Worker option \<Rightarrow> bool option" where
  "Worker_ShouldDrain w = (case w of None \<Rightarrow> None | Some w' \<Rightarrow> Some (w_drainer w'))"

definition Worker_ShouldStop :: "Worker option \<Rightarrow> bool option" where
  "Worker_ShouldStop w = (case w of None \<Rightarrow> None | Some w' \<Rightarrow> Some (w_stopper w'))"

definition Worker_NumTasks :: "Worker \<Rightarrow> int" where
  "Worker_NumTasks w = w_numTasks w"

definition Worker_IsStopped :: "Worker \<Rightarrow> bool" where
  "Worker_IsStopped w = w_stopped w"

definition close_chan :: "bool \<Rightarrow> bool go" where
  "close_chan c = (if c then Inl PanicCall else Inr True)"

text \<open>\<open>RunTask\<close> and \<open>RunTaskAsync\<close> start at \<open>TaskStart\<close>, before the unlocked test of \<open>draining\<close> in \<open>prelude\<close>,
  and run \<open>f\<close> at \<open>TaskRunning\<close>. \<open>RunWorker\<close> runs its function at \<open>WorkerRunning\<close>. \<open>Drain\<close> starts at
  \<open>DrainStart False\<close> and \<open>Stop\<close> at \<open>DrainStart True\<close>.\<close>

datatype pc =
  TaskStart | TaskChecked | TaskRunning | TaskDone | TaskRefused
  | WorkerStart | WorkerRunning | WorkerDone
  | AddCloser nat | CloserAdded
  | DrainStart bool | DrainSet bool | DrainClose bool | DrainWait bool | DrainDone
  | StopClose | StopWg | StopClosers | StopEnd | StopDone

fun Worker_step :: "pc \<Rightarrow> Worker \<Rightarrow> (pc \<times> Worker) go option" where
  "Worker_step TaskStart w = Some (Inr (if w_draining w then TaskRefused else TaskChecked, w))"
| "Worker_step TaskChecked w = Some (Inr (TaskRunning, w\<lparr>w_numTasks := w_numTasks w + 1\<rparr>))"
| "Worker_step TaskRunning w = Some (Inr (TaskDone, w\<lparr>w_numTasks := w_numTasks w - 1\<rparr>))"
| "Worker_step WorkerStart w = Some (Inr (WorkerRunning, w\<lparr>w_wg := w_wg w + 1\<rparr>))"
| "Worker_step WorkerRunning w = Some (Inr (WorkerDone, w\<lparr>w_wg := w_wg w - 1\<rparr>))"
| "Worker_step (AddCloser f) w = Some (Inr (CloserAdded, Worker_AddCloser w f))"
| "Worker_step (DrainStart stop) w = Some (Inr (if w_draining w then DrainWait stop else DrainSet stop, w))"
| "Worker_step (DrainSet stop) w = Some (Inr (DrainClose stop, w\<lparr>w_draining := True\<rparr>))"
| "Worker_step (DrainClose stop) w =
     Some (go_bind (close_chan (w_drainer w)) (\<lambda>c. Inr (DrainWait stop, w\<lparr>w_drainer := c\<rparr>)))"
| "Worker_step (DrainWait stop) w =
     (if w_numTasks w > 0 then None else Some (Inr (if stop then StopClose else DrainDone, w)))"
| "Worker_step StopClose w = Some (go_bind (close_chan (w_stopper w)) (\<lambda>c. Inr (StopWg, w\<lparr>w_stopper := c\<rparr>)))"
| "Worker_step StopWg w = (if w_wg w > 0 then None else Some (Inr (StopClosers, w)))"
| "Worker_step StopClosers w = Some (Inr (StopEnd, w\<lparr>w_ran := w_ran w @ w_closers w\<rparr>))"
| "Worker_step StopEnd w = Some (go_bind (close_chan (w_stopped w)) (\<lambda>c. Inr (StopDone, w\<lparr>w_stopped := c\<rparr>)))"
| "Worker_step _ w = None"

inductive worker_step :: "Worker \<times> pc list \<Rightarrow> Worker \<times> pc list \<Rightarrow> bool" where
  "i < length ps \<Longrightarrow> Worker_step (ps ! i) w = Some (Inr (p, w')) \<Longrightarrow> worker_step (w, ps) (w', ps[i := p])"

inductive_cases worker_stepE: "worker_step s s'"

text \<open>A run under a schedule, a list of goroutines.\<close>

fun worker_run :: "nat list \<Rightarrow> Worker \<times> pc list \<Rightarrow> (Worker \<times> pc list) option" where
  "worker_run [] s = Some s"
| "worker_run (i # is) (w, ps) =
     (if i < length ps then
        case Worker_step (ps ! i) w of
          Some (Inr (p, w')) \<Rightarrow> worker_run is (w', ps[i := p])
        | _ \<Rightarrow> None
      else None)"

lemma worker_run_steps: "worker_run is s = Some s' \<Longrightarrow> worker_step\<^sup>*\<^sup>* s s'"
proof (induction "is" s rule: worker_run.induct)
  case (2 i "is" w ps)
  then obtain p w' where "i < length ps" "Worker_step (ps ! i) w = Some (Inr (p, w'))"
    "worker_run is (w', ps[i := p]) = Some s'"
    by (auto split: if_splits option.splits sum.splits)
  then show ?case using 2(1) worker_step.intros converse_rtranclp_into_rtranclp by (metis (no_types, lifting))
qed simp

section \<open>The invariant\<close>

definition fresh_pc :: "pc \<Rightarrow> bool" where
  "fresh_pc p \<longleftrightarrow> p \<in> {TaskStart, WorkerStart, DrainStart False, DrainStart True} \<or> (\<exists>f. p = AddCloser f)"

definition past_drain :: "pc set" where
  "past_drain = {DrainClose False, DrainClose True, DrainWait False, DrainWait True, DrainDone, StopClose, StopWg, StopClosers, StopEnd, StopDone}"

definition worker_inv :: "Worker \<times> pc list \<Rightarrow> bool" where
  "worker_inv s \<longleftrightarrow> (case s of (w, ps) \<Rightarrow>
     w_numTasks w = int (count_list ps TaskRunning) \<and> w_wg w = count_list ps WorkerRunning \<and>
     (w_draining w \<longrightarrow> w_drainer w \<or> DrainClose False \<in> set ps \<or> DrainClose True \<in> set ps) \<and>
     (w_drainer w \<longrightarrow> w_draining w) \<and>
     (\<forall>p \<in> set ps. p \<in> past_drain \<longrightarrow> w_draining w) \<and>
     (\<forall>p \<in> set ps. p \<in> {StopWg, StopClosers, StopEnd, StopDone} \<longrightarrow> w_stopper w) \<and>
     (w_stopped w \<longrightarrow> w_stopper w) \<and> (w_stopper w \<longrightarrow> w_draining w))"

lemma count_list_update:
  "i < length ps \<Longrightarrow> count_list (ps[i := p]) x + (if ps ! i = x then 1 else 0) = count_list ps x + (if p = x then 1 else 0)"
proof (induction ps arbitrary: i)
  case (Cons a ps)
  show ?case
  proof (cases i)
    case (Suc j)
    then show ?thesis using Cons.IH [of j] Cons.prems by (cases "p = x"; cases "ps ! j = x"; simp)
  qed simp
qed simp

lemma Worker_step_flags:
  assumes "Worker_step q w = Some (Inr (p, w'))"
  shows "w_draining w' = (w_draining w \<or> (\<exists>b. q = DrainSet b))" "w_drainer w' = (w_drainer w \<or> (\<exists>b. q = DrainClose b))"
    "w_stopper w' = (w_stopper w \<or> q = StopClose)" "w_stopped w' = (w_stopped w \<or> q = StopEnd)"
    "w_numTasks w' + (if q = TaskRunning then 1 else 0) = w_numTasks w + (if p = TaskRunning then 1 else 0)"
    "0 < w_wg w \<or> q \<noteq> WorkerRunning \<Longrightarrow> w_wg w' + (if q = WorkerRunning then 1 else 0) = w_wg w + (if p = WorkerRunning then 1 else 0)"
    "p \<in> past_drain \<Longrightarrow> q \<in> past_drain \<or> (\<exists>b. q = DrainSet b) \<or> w_draining w"
    "p \<in> {StopWg, StopClosers, StopEnd, StopDone} \<Longrightarrow> q \<in> {StopWg, StopClosers, StopEnd} \<or> q = StopClose"
    "q = DrainSet b \<Longrightarrow> p = DrainClose b"
  using assms by (cases q; auto simp: close_chan_def Worker_AddCloser_def past_drain_def split: if_splits)+

lemma worker_inv_step:
  assumes "worker_inv (w, ps)" "i < length ps" "Worker_step (ps ! i) w = Some (Inr (p, w'))"
  shows "worker_inv (w', ps[i := p])"
proof -
  note F = Worker_step_flags [OF assms(3)]
  note counts = count_list_update [OF assms(2), of p TaskRunning] count_list_update [OF assms(2), of p WorkerRunning]
  have mem: "ps ! i \<in> set ps" using assms(2) by simp
  have all: "\<forall>q \<in> set (ps[i := p]). Q q" if "Q p" "\<forall>q \<in> set ps. Q q" for Q
    using that set_update_subset_insert [of ps i p] by blast
  note I = assms(1) [unfolded worker_inv_def prod.case]
  have wg: "0 < w_wg w \<or> ps ! i \<noteq> WorkerRunning" using I mem by (metis count_list_0_iff gr0I)
  have now: "ps ! i \<in> past_drain \<longrightarrow> w_draining w" "ps ! i \<in> {StopWg, StopClosers, StopEnd, StopDone} \<longrightarrow> w_stopper w"
    using I mem by blast+
  have stop: "ps ! i = StopEnd \<Longrightarrow> w_stopper w" "ps ! i = StopClose \<Longrightarrow> w_draining w"
    "\<And>b. ps ! i = DrainClose b \<Longrightarrow> w_draining w"
    using now by (auto simp: past_drain_def)
  have new: "p \<in> set (ps[i := p])" using assms(2) by (simp add: set_update_memI)
  have kept: "q \<in> set (ps[i := p])" if "q \<in> set ps" "ps ! i \<noteq> q" for q
    using that by (metis in_set_conv_nth length_list_update nth_list_update_neq)
  have closing: "w_draining w' \<longrightarrow> w_drainer w' \<or> DrainClose False \<in> set (ps[i := p]) \<or> DrainClose True \<in> set (ps[i := p])"
  proof (cases "\<exists>b. ps ! i = DrainSet b \<or> ps ! i = DrainClose b")
    case True
    then obtain b where "ps ! i = DrainSet b \<or> ps ! i = DrainClose b" by blast
    then show ?thesis using F(2) F(9) [of b] new by (cases b; metis)
  next
    case False
    then have "w_draining w' = w_draining w" "w_drainer w' = w_drainer w" using F(1,2) by blast+
    then show ?thesis using I kept [of "DrainClose False"] kept [of "DrainClose True"] False by blast
  qed
  show ?thesis
    unfolding worker_inv_def prod.case
  proof (intro conjI all)
    show "w_numTasks w' = int (count_list (ps[i := p]) TaskRunning)" using I F(5) counts(1) by (cases "ps ! i = TaskRunning"; cases "p = TaskRunning"; simp)
    show "w_wg w' = count_list (ps[i := p]) WorkerRunning" using I F(6) [OF wg] counts(2) by (cases "ps ! i = WorkerRunning"; cases "p = WorkerRunning"; simp)
    show "w_draining w' \<longrightarrow> w_drainer w' \<or> DrainClose False \<in> set (ps[i := p]) \<or> DrainClose True \<in> set (ps[i := p])"
      by (rule closing)
    show "w_drainer w' \<longrightarrow> w_draining w'" using F(1,2) I stop(3) by blast
    show "p \<in> past_drain \<longrightarrow> w_draining w'" using F(1,7) I mem by blast
    show "\<forall>q \<in> set ps. q \<in> past_drain \<longrightarrow> w_draining w'" using F(1) I by blast
    show "p \<in> {StopWg, StopClosers, StopEnd, StopDone} \<longrightarrow> w_stopper w'" using F(3,8) I mem by blast
    show "\<forall>q \<in> set ps. q \<in> {StopWg, StopClosers, StopEnd, StopDone} \<longrightarrow> w_stopper w'" using F(3) I by blast
    show "w_stopped w' \<longrightarrow> w_stopper w'" using F(3,4) I stop(1) by blast
    show "w_stopper w' \<longrightarrow> w_draining w'" using F(1,3) I stop(2) by blast
  qed
qed

lemma worker_reachable_inv:
  assumes "worker_step\<^sup>*\<^sup>* (NewWorker, ps) s" "\<And>p. p \<in> set ps \<Longrightarrow> fresh_pc p"
  shows "worker_inv s"
  using assms(1)
proof (induction rule: rtranclp_induct)
  case base
  have "count_list ps x = 0" if "\<not> fresh_pc x" for x using assms(2) that by (auto simp: count_list_0_iff)
  then show ?case
    using assms(2) by (auto simp: worker_inv_def NewWorker_def fresh_pc_def past_drain_def)
next
  case (step s s')
  from step.hyps(2) show ?case by cases (use step.IH worker_inv_step in auto)
qed

section \<open>After the drain\<close>

text \<open>Nothing runs and nothing is about to be counted.\<close>

definition drained :: "Worker \<times> pc list \<Rightarrow> bool" where
  "drained s \<longleftrightarrow> (case s of (w, ps) \<Rightarrow> w_draining w \<and> TaskChecked \<notin> set ps \<and> TaskRunning \<notin> set ps)"

lemma drained_step:
  assumes "worker_step s s'" "drained s"
  shows "drained s'"
  using assms(1)
proof cases
  case (1 i ps w p w')
  have "p \<noteq> TaskChecked" "p \<noteq> TaskRunning"
    using 1(3,4) assms(2) 1(1) nth_mem [OF 1(3)]
    by (cases "ps ! i"; auto simp: drained_def close_chan_def Worker_AddCloser_def split: if_splits)+
  then show ?thesis
    using assms(2) 1 Worker_step_flags(1) [OF 1(4)] set_update_subset_insert [of ps i p] by (auto simp: drained_def)
qed

section \<open>Properties\<close>

text \<open>C38: However tasks, workers, \<open>Drain\<close> and \<open>Stop\<close> interleave, \<open>NumTasks\<close> is the number of tasks that
  run, so \<open>Drain\<close> and \<open>Stop\<close> pass their wait only when none runs; a stopped worker has been told to
  drain and to stop first; and a worker that drains has closed its drainer, or some goroutine is just about to.\<close>

theorem worker_counts_tasks:
  assumes "worker_step\<^sup>*\<^sup>* (NewWorker, ps0) (w, ps)" "\<forall>p \<in> set ps0. fresh_pc p"
  shows "Worker_NumTasks w = int (count_list ps TaskRunning) \<and>
    (Worker_step (DrainWait b) w \<noteq> None \<longleftrightarrow> TaskRunning \<notin> set ps) \<and>
    (Worker_IsStopped w \<longrightarrow> w_stopper w \<and> w_draining w) \<and>
    (w_draining w \<longrightarrow> w_drainer w \<or> (\<exists>stop. DrainClose stop \<in> set ps))"
proof -
  have "worker_inv (w, ps)" using worker_reachable_inv [OF assms(1)] assms(2) by blast
  then have n: "w_numTasks w = int (count_list ps TaskRunning)" and
    st: "w_stopped w \<longrightarrow> w_stopper w \<and> w_draining w" "w_draining w \<longrightarrow> w_drainer w \<or> (\<exists>stop. DrainClose stop \<in> set ps)"
    unfolding worker_inv_def prod.case by blast+
  have "TaskRunning \<notin> set ps \<longleftrightarrow> \<not> w_numTasks w > 0" using count_list_0_iff [of ps TaskRunning] n by simp
  then show ?thesis using n st by (simp add: Worker_NumTasks_def Worker_IsStopped_def)
qed

theorem worker_counts_tasks_witness:
  "\<exists>w ps. worker_step\<^sup>*\<^sup>* (NewWorker, [TaskStart, TaskStart, DrainStart True]) (w, ps) \<and> w_draining w \<and>
     Worker_NumTasks w = int (count_list ps TaskRunning) \<and> Worker_NumTasks w = 2"
proof -
  have "(case worker_run [0, 1, 0, 1, 2, 2] (NewWorker, [TaskStart, TaskStart, DrainStart True]) of
      None \<Rightarrow> False | Some (w, ps) \<Rightarrow> w_draining w \<and> w_numTasks w = 2)" by code_simp
  then obtain w ps where R: "worker_run [0, 1, 0, 1, 2, 2] (NewWorker, [TaskStart, TaskStart, DrainStart True]) = Some (w, ps)"
    "w_draining w" "w_numTasks w = 2" by (auto simp del: worker_run.simps split: option.splits)
  have "\<forall>p \<in> set [TaskStart, TaskStart, DrainStart True]. fresh_pc p" by (simp add: fresh_pc_def)
  note steps = worker_run_steps [OF R(1)]
  have "Worker_NumTasks w = int (count_list ps TaskRunning)" using worker_counts_tasks [OF steps \<open>\<forall>p \<in> _. fresh_pc p\<close>] by blast
  moreover have "Worker_NumTasks w = 2" using R(3) by (simp add: Worker_NumTasks_def)
  ultimately show ?thesis using steps R(2) by blast
qed

text \<open>C39: A drain is final for every task that had not passed the test of \<open>draining\<close> when it was over:
  once the worker drains and no task runs or has passed the test, no task ever runs again.\<close>

theorem drain_is_final:
  assumes "drained (w, ps)" "worker_step\<^sup>*\<^sup>* (w, ps) (w', ps')"
  shows "TaskRunning \<notin> set ps' \<and> w_draining w'"
proof -
  from assms(2,1) have "drained (w', ps')"
    by (induction rule: rtranclp_induct) (auto intro: drained_step)
  then show ?thesis by (simp add: drained_def)
qed

theorem drain_is_final_witness:
  "\<exists>w ps. worker_step\<^sup>*\<^sup>* (NewWorker\<lparr>w_draining := True\<rparr>, [TaskStart]) (w, ps) \<and> ps = [TaskRefused] \<and> w_draining w"
proof -
  have st: "worker_step\<^sup>*\<^sup>* (NewWorker\<lparr>w_draining := True\<rparr>, [TaskStart]) (NewWorker\<lparr>w_draining := True\<rparr>, [TaskRefused])"
    by (rule worker_run_steps [of "[0]"]) simp
  have "drained (NewWorker\<lparr>w_draining := True\<rparr>, [TaskStart])" by (simp add: drained_def)
  from drain_is_final [OF this st] st show ?thesis by blast
qed

text \<open>\<open>Stop\<close> can return while the drainer is open: another goroutine has set \<open>draining\<close> and not yet closed it.\<close>

theorem stopped_with_open_drainer:
  "\<exists>w. worker_step\<^sup>*\<^sup>* (NewWorker, [DrainStart False, DrainStart True]) (w, [DrainClose False, StopDone]) \<and>
     Worker_IsStopped w \<and> \<not> w_drainer w"
proof -
  have "(case worker_run [0, 0, 1, 1, 1, 1, 1, 1] (NewWorker, [DrainStart False, DrainStart True]) of
      None \<Rightarrow> False | Some (w, ps) \<Rightarrow> w_stopped w \<and> \<not> w_drainer w \<and> ps = [DrainClose False, StopDone])" by code_simp
  then obtain w where R: "worker_run [0, 0, 1, 1, 1, 1, 1, 1] (NewWorker, [DrainStart False, DrainStart True]) =
      Some (w, [DrainClose False, StopDone])" "w_stopped w" "\<not> w_drainer w"
    by (auto simp del: worker_run.simps split: option.splits)
  show ?thesis using worker_run_steps [OF R(1)] R(2,3) unfolding Worker_IsStopped_def by blast
qed

text \<open>A task can run after \<open>Stop\<close> has returned: \<open>prelude\<close> tests \<open>draining\<close> before it takes the lock and
  counts the task, and \<open>Stop\<close> can run in between.\<close>

theorem task_runs_after_stop:
  "\<exists>w. worker_step\<^sup>*\<^sup>* (NewWorker, [TaskStart, DrainStart True]) (w, [TaskRunning, StopDone]) \<and> Worker_IsStopped w"
proof -
  have "(case worker_run [0, 1, 1, 1, 1, 1, 1, 1, 1, 0] (NewWorker, [TaskStart, DrainStart True]) of
      None \<Rightarrow> False | Some (w, ps) \<Rightarrow> w_stopped w \<and> ps = [TaskRunning, StopDone])" by code_simp
  then obtain w where R: "worker_run [0, 1, 1, 1, 1, 1, 1, 1, 1, 0] (NewWorker, [TaskStart, DrainStart True]) = Some (w, [TaskRunning, StopDone])"
    "w_stopped w" by (auto simp del: worker_run.simps split: option.splits)
  show ?thesis using worker_run_steps [OF R(1)] R(2) unfolding Worker_IsStopped_def by blast
qed

end
