(* ===== verification/SharedLoops.thy ===== *)
theory SharedLoops
  imports GossipExchange Worker Complex_Main
begin

text \<open>
  The goroutines of a gossip node, \<open>src/shared/shared.go\<close> and \<open>src/shared/client.go\<close>: how a node starts,
  and its loops as a step relation. The bootstrap loop and the manage loop run one iteration at a
  time; a client's goroutine dials, makes a first pull, registers its callback, loops, takes the callback back and
  reports itself on the channel \<open>disconnect\<close>; the server and the users of the node act in between. The
  channel holds ten clients: a send on it is only possible when there is room, and the manage loop receives a
  client in one step and disconnects it in another. The ticker of the manage loop is stopped before the loop
  starts, so that \<open>cullNetwork\<close> is never one of its steps. The worker that tells the loops to stop is an argument of the step it
  ends. A push that a callback started can go on after its client's goroutine has ended.
\<close>

section \<open>Constants and times\<close>

definition MaxHops :: int where
  "MaxHops = 5"

definition ttlNodeMeta :: int where
  "ttlNodeMeta = 0"

definition bootstrapInterval :: int where
  "bootstrapInterval = 1000000000"

definition cullInterval :: int where
  "cullInterval = 60 * 1000000000"

text \<open>\<open>rnd\<close> is what \<open>rand.Float64\<close> returned; the conversion to an integer truncates.\<close>

definition Shared_jitteredInterval :: "real \<Rightarrow> int \<Rightarrow> int" where
  "Shared_jitteredInterval rnd interval =
     (let x = real_of_int interval * (0.75 + 0.5 * rnd) in if x < 0 then \<lceil>x\<rceil> else \<lfloor>x\<rfloor>)"

lemma jitteredInterval_bounds:
  assumes "0 \<le> rnd" "rnd < 1" "0 \<le> interval"
  shows "0.75 * real_of_int interval - 1 < real_of_int (Shared_jitteredInterval rnd interval)"
    "real_of_int (Shared_jitteredInterval rnd interval) \<le> 1.25 * real_of_int interval"
proof -
  let ?x = "real_of_int interval * (0.75 + 0.5 * rnd)"
  have x: "0.75 * real_of_int interval \<le> ?x" "?x \<le> 1.25 * real_of_int interval" "0 \<le> ?x"
    using assms mult_left_mono [of "0.75" "0.75 + 0.5 * rnd" "real_of_int interval"]
      mult_left_mono [of "0.75 + 0.5 * rnd" "1.25" "real_of_int interval"] by (simp_all add: mult.commute)
  have "Shared_jitteredInterval rnd interval = \<lfloor>?x\<rfloor>" using x(3) by (simp add: Shared_jitteredInterval_def Let_def)
  then show "0.75 * real_of_int interval - 1 < real_of_int (Shared_jitteredInterval rnd interval)"
    "real_of_int (Shared_jitteredInterval rnd interval) \<le> 1.25 * real_of_int interval"
    using x by linarith+
qed

section \<open>Starting a node\<close>

definition Shared_Start ::
  "(NodeMeta \<Rightarrow> byte list option) \<Rightarrow> (string \<Rightarrow> string \<Rightarrow> bool) \<Rightarrow> Shared \<Rightarrow> int \<Rightarrow> int \<Rightarrow> nat \<Rightarrow> nat \<Rightarrow> Shared go" where
  "Shared_Start marshal re s now now' cid f =
     go_bind (server_start re (sh_server s) now cid f) (\<lambda>sv.
     go_bind (Shared_AddInfoProto marshal (s\<lparr>sh_server := sv\<rparr>) now now' (MakeNodeIdKey (node_Id (sh_meta s))) (sh_meta s)
         ttlNodeMeta) (\<lambda>(err, s').
       if err \<noteq> None then Inl PanicCall else Inr s'))"

section \<open>A client's goroutine\<close>

text \<open>\<open>start\<close> dials and panics when that fails; the first thing \<open>shared\<close> does is to pull.\<close>

definition client_start :: "bool \<Rightarrow> Shared \<Rightarrow> Request go" where
  "client_start dialed s = (if \<not> dialed then Inl PanicCall else Inr (client_pull_request s))"

text \<open>After the first pull, \<open>shared\<close> registers the callback that pushes; when its loop ends, the deferred
  call takes the callback back, and then \<open>start\<close> sends the client on the channel \<open>disconnect\<close>, which waits while the channel is full.\<close>

definition client_shared_enter ::
  "(string \<Rightarrow> string \<Rightarrow> bool) \<Rightarrow> Shared \<Rightarrow> int \<Rightarrow> nat \<Rightarrow> nat \<Rightarrow> Shared go" where
  "client_shared_enter re s now cid f = Shared_RegisterCallback re s now cid ''.*'' f"

definition Shared_unregister :: "Shared \<Rightarrow> nat \<Rightarrow> Shared" where
  "Shared_unregister s cid = s\<lparr>sh_server := (sh_server s)\<lparr>sv_store := store_unregister (sh_store s) cid\<rparr>\<rparr>"

definition disconnectBuffer :: nat where
  "disconnectBuffer = 10"

definition client_report :: "nat \<Rightarrow> nat list \<Rightarrow> nat list option" where
  "client_report a disconnect = (if length disconnect < disconnectBuffer then Some (disconnect @ [a]) else None)"

section \<open>A node and its steps\<close>

text \<open>How far a client's goroutine is: \<open>Leaving\<close> is after its loop and before its send, \<open>Left\<close> after that. The manage loop waits, has received a
  client that it is about to disconnect, or has ended.\<close>

datatype phase = Starting | FirstPull | Registering | Looping | Leaving | Left

datatype manager = ManageWaits | ManageHolds nat | ManageEnded

record gnode =
  gn_shared :: Shared
  gn_phase :: "nat \<Rightarrow> phase"
  gn_disconnect :: "nat list"
  gn_manage :: manager

definition new_gnode :: "Shared \<Rightarrow> gnode" where
  "new_gnode s = \<lparr>gn_shared = s, gn_phase = (\<lambda>_. Starting), gn_disconnect = [], gn_manage = ManageWaits\<rparr>"

definition put_client :: "nat \<Rightarrow> client \<Rightarrow> Shared \<Rightarrow> Shared" where
  "put_client a c s = s\<lparr>sh_heap := (sh_heap s)(a := c)\<rparr>"

definition resp_ok :: "ShareResponse \<Rightarrow> bool" where
  "resp_ok r \<longleftrightarrow> (\<forall>d. sr_Delta r = Some d \<longrightarrow> delta_ok d)"

inductive gossip_step :: "(string \<Rightarrow> string \<Rightarrow> bool) \<Rightarrow> (nat \<Rightarrow> int) \<Rightarrow> gnode \<Rightarrow> gnode \<Rightarrow> bool" for re rt where
  bootstrap: "gossip_step re rt n (n\<lparr>gn_shared := Shared_bootstrap_step (gn_shared n) now\<rparr>)"
| dial: "a \<in> set (sh_clients (gn_shared n)) \<Longrightarrow> gn_phase n a = Starting \<Longrightarrow> client_start dialed (gn_shared n) = Inr req \<Longrightarrow>
    gossip_step re rt n (n\<lparr>gn_phase := (gn_phase n)(a := FirstPull)\<rparr>)"
| first_pull: "a \<in> set (sh_clients (gn_shared n)) \<Longrightarrow> gn_phase n a = FirstPull \<Longrightarrow> \<forall>r. resp = Some r \<longrightarrow> resp_ok r \<Longrightarrow>
    client_pull_done (sh_heap (gn_shared n) a) resp = Inr c \<Longrightarrow>
    gossip_step re rt n (n\<lparr>gn_shared := put_client a c (gn_shared n), gn_phase := (gn_phase n)(a := Registering)\<rparr>)"
| enter: "a \<in> set (sh_clients (gn_shared n)) \<Longrightarrow> gn_phase n a = Registering \<Longrightarrow>
    client_shared_enter re (gn_shared n) now cid f = Inr s' \<Longrightarrow>
    gossip_step re rt n (n\<lparr>gn_shared := s', gn_phase := (gn_phase n)(a := Looping)\<rparr>)"
| pulled: "a \<in> set (sh_clients (gn_shared n)) \<Longrightarrow> gn_phase n a = Looping \<Longrightarrow> \<forall>r. resp = Some r \<longrightarrow> resp_ok r \<Longrightarrow>
    client_pull_done (sh_heap (gn_shared n) a) resp = Inr c \<Longrightarrow>
    gossip_step re rt n (n\<lparr>gn_shared := put_client a c (gn_shared n)\<rparr>)"
| push: "a < sh_fresh (gn_shared n) \<Longrightarrow>
    client_push_request (gn_shared n) now (sh_heap (gn_shared n) a) = Inr (req, c, s') \<Longrightarrow>
    gossip_step re rt n (n\<lparr>gn_shared := put_client a c s'\<rparr>)"
| pushed: "a < sh_fresh (gn_shared n) \<Longrightarrow> \<forall>r. resp = Some r \<longrightarrow> resp_ok r \<Longrightarrow>
    client_push_done (sh_heap (gn_shared n) a) resp = Inr c \<Longrightarrow>
    gossip_step re rt n (n\<lparr>gn_shared := put_client a c (gn_shared n)\<rparr>)"
| respond: "a \<in> set (sh_clients (gn_shared n)) \<Longrightarrow> gn_phase n a = Looping \<Longrightarrow>
    client_shared_step (gn_shared n) now (sh_heap (gn_shared n) a) = Inr (call, c, s') \<Longrightarrow>
    gossip_step re rt n (n\<lparr>gn_shared := put_client a c s'\<rparr>)"
| respond_only: "a \<in> set (sh_clients (gn_shared n)) \<Longrightarrow> gn_phase n a = Looping \<Longrightarrow>
    client_shared_handle (gn_shared n) (sh_heap (gn_shared n) a) = Inr (c, s') \<Longrightarrow>
    gossip_step re rt n (n\<lparr>gn_shared := put_client a c s'\<rparr>)"
| leave: "a \<in> set (sh_clients (gn_shared n)) \<Longrightarrow> gn_phase n a = Looping \<Longrightarrow>
    cl_closed (sh_heap (gn_shared n) a) \<or> Worker_ShouldStop w = Some True \<Longrightarrow>
    gossip_step re rt n (n\<lparr>gn_shared := Shared_unregister (gn_shared n) cid, gn_phase := (gn_phase n)(a := Leaving)\<rparr>)"
| report: "a \<in> set (sh_clients (gn_shared n)) \<Longrightarrow> gn_phase n a = Leaving \<Longrightarrow> client_report a (gn_disconnect n) = Some q \<Longrightarrow>
    gossip_step re rt n (n\<lparr>gn_phase := (gn_phase n)(a := Left), gn_disconnect := q\<rparr>)"
| receive: "gn_manage n = ManageWaits \<Longrightarrow> gn_disconnect n = a # q \<Longrightarrow>
    gossip_step re rt n (n\<lparr>gn_manage := ManageHolds a, gn_disconnect := q\<rparr>)"
| manage: "gn_manage n = ManageHolds a \<Longrightarrow>
    gossip_step re rt n (n\<lparr>gn_shared := Shared_doDisconnect (gn_shared n) a, gn_manage := ManageWaits\<rparr>)"
| manage_end: "gn_manage n = ManageWaits \<Longrightarrow> Worker_ShouldStop w = Some True \<Longrightarrow>
    gossip_step re rt n (n\<lparr>gn_manage := ManageEnded\<rparr>)"
| share: "\<forall>d. rq_Delta req = Some d \<longrightarrow> delta_ok d \<Longrightarrow> server_Share rt (sh_server (gn_shared n)) now rnd req = Inr (res, sv) \<Longrightarrow>
    gossip_step re rt n (n\<lparr>gn_shared := (gn_shared n)\<lparr>sh_server := sv\<rparr>\<rparr>)"
| add: "Shared_AddInfo (gn_shared n) now now' key val ttl = Inr (err, s') \<Longrightarrow>
    0 < now' \<Longrightarrow> sh_monoTime (gn_shared n) < 2 ^ 63 - 1 \<Longrightarrow>
    gossip_step re rt n (n\<lparr>gn_shared := s'\<rparr>)"
| getinfo: "Shared_GetInfo (gn_shared n) now key = Inr (v, s') \<Longrightarrow> gossip_step re rt n (n\<lparr>gn_shared := s'\<rparr>)"

section \<open>The invariant of a node\<close>

abbreviation server_of :: "Shared \<Rightarrow> nat \<Rightarrow> u64" where
  "server_of s a \<equiv> node_Id (cl_serverMeta (sh_heap s a))"

definition clients_ok :: "Shared \<Rightarrow> bool" where
  "clients_ok s \<longleftrightarrow> distinct (sh_clients s) \<and> (\<forall>a \<in> set (sh_clients s). a < sh_fresh s) \<and>
     set (keys (sh_bootstrapping s)) \<subseteq> server_of s ` set (sh_clients s) \<and>
     node_Id (sh_meta s) \<notin> set (keys (sh_bootstrapping s)) \<and>
     (\<forall>a. \<forall>(t, r) \<in> set (cl_rpcChan (sh_heap s a)). resp_ok r)"

definition shared_ok :: "Shared \<Rightarrow> bool" where
  "shared_ok s \<longleftrightarrow> server_ok (sh_server s) \<and> 0 \<le> sh_monoTime s \<and> clients_ok s"

text \<open>The clients that have been sent on \<open>disconnect\<close> and not been disconnected: one the manage loop has received, and the queue.\<close>

definition handed_in :: "gnode \<Rightarrow> nat list" where
  "handed_in n = (case gn_manage n of ManageHolds a \<Rightarrow> [a] | _ \<Rightarrow> []) @ gn_disconnect n"

definition phases_ok :: "gnode \<Rightarrow> bool" where
  "phases_ok n \<longleftrightarrow> distinct (handed_in n) \<and> length (gn_disconnect n) \<le> disconnectBuffer \<and>
     set (handed_in n) = {a \<in> set (sh_clients (gn_shared n)). gn_phase n a = Left} \<and>
     (\<forall>a. sh_fresh (gn_shared n) \<le> a \<longrightarrow> gn_phase n a = Starting) \<and>
     (\<forall>a < sh_fresh (gn_shared n). gn_phase n a \<noteq> Left \<longrightarrow> a \<in> set (sh_clients (gn_shared n)))"

definition gnode_ok :: "gnode \<Rightarrow> bool" where
  "gnode_ok n \<longleftrightarrow> shared_ok (gn_shared n) \<and> phases_ok n"

text \<open>The fields a step on the store leaves alone.\<close>

definition same_clients :: "Shared \<Rightarrow> Shared \<Rightarrow> bool" where
  "same_clients s s' \<longleftrightarrow> sh_clients s' = sh_clients s \<and> sh_fresh s' = sh_fresh s \<and> sh_heap s' = sh_heap s \<and>
     sh_bootstrapping s' = sh_bootstrapping s \<and> sh_meta s' = sh_meta s"

lemma clients_ok_same: "clients_ok s \<Longrightarrow> same_clients s s' \<Longrightarrow> clients_ok s'"
  by (simp add: clients_ok_def same_clients_def)

lemma store_ok_cong: "st_infos s' = st_infos s \<Longrightarrow> st_nodes s' = st_nodes s \<Longrightarrow> store_ok s' = store_ok s"
  by (simp add: store_ok_def)

lemma store_ok_register:
  assumes "store_ok s" "store_registerCallback re s now cid pat f = Inr s'"
  shows "store_ok s'"
proof -
  let ?s1 = "s\<lparr>st_callbacks := st_callbacks s @ [\<lparr>cb_id = cid, cb_pattern = pat, cb_f = f\<rparr>]\<rparr>"
  have d: "distinct (keys (st_infos ?s1))" using assms(1) by (simp add: store_ok_def)
  have "st_infos s' = filter (live now) (st_infos s)" "st_nodes s' = st_nodes s"
    using assms(2) unfolding store_registerCallback_def Let_def
    by (subst (asm) store_visitInfos_all [OF _ d]; auto split: prod.splits if_splits option.splits)+
  then show ?thesis using store_ok_filter [OF assms(1), of "live now"]
    store_ok_cong [of s' "s\<lparr>st_infos := filter (live now) (st_infos s)\<rparr>"] by simp
qed

lemma clients_ok_put:
  assumes "clients_ok s" "cl_serverMeta c = cl_serverMeta (sh_heap s a)"
    "\<forall>(t, r) \<in> set (cl_rpcChan c). resp_ok r"
  shows "clients_ok (put_client a c s)"
proof -
  have "server_of (put_client a c s) x = server_of s x" for x using assms(2) by (simp add: put_client_def)
  then show ?thesis using assms by (auto simp: clients_ok_def put_client_def)
qed

lemma clients_ok_start:
  assumes "clients_ok s"
  shows "clients_ok (Shared_startClient s meta)"
    "node_Id meta \<noteq> node_Id (sh_meta s) \<Longrightarrow>
     clients_ok (Shared_startClient (s\<lparr>sh_bootstrapping := AList.update (node_Id meta) u (sh_bootstrapping s)\<rparr>) meta)"
proof -
  have fresh: "sh_fresh s \<notin> set (sh_clients s)" using assms by (auto simp: clients_ok_def)
  have same: "server_of (Shared_startClient s' meta) ` set (sh_clients s) = server_of s ` set (sh_clients s)"
    if "sh_heap s' = sh_heap s" "sh_fresh s' = sh_fresh s" for s'
    using that fresh by (intro image_cong) (auto simp: Shared_startClient_def)
  show "clients_ok (Shared_startClient s meta)"
    "node_Id meta \<noteq> node_Id (sh_meta s) \<Longrightarrow>
     clients_ok (Shared_startClient (s\<lparr>sh_bootstrapping := AList.update (node_Id meta) u (sh_bootstrapping s)\<rparr>) meta)"
    using assms fresh same [of s] same [of "s\<lparr>sh_bootstrapping := AList.update (node_Id meta) u (sh_bootstrapping s)\<rparr>"]
    by (auto simp: clients_ok_def Shared_startClient_def newClient_def keys_update less_SucI split: if_splits)
qed

lemma clients_ok_remove: "clients_ok s \<Longrightarrow> clients_ok (Shared_removeClient s a)"
proof (cases "a \<in> set (sh_clients s)")
  case True
  assume ok: "clients_ok s"
  have "set (keys (AList.delete (server_of s a) (sh_bootstrapping s))) \<subseteq> server_of s ` (set (sh_clients s) - {a})"
    using ok by (force simp: clients_ok_def keys_delete)
  then show ?thesis
    using True ok by (auto simp: clients_ok_def Shared_removeClient_def keys_delete set_remove1_eq dest: notin_set_remove1)
qed (simp add: Shared_removeClient_def)

lemma nextPeers_same:
  "nextPeers_loop k s = (res, s') \<Longrightarrow> sh_clients s' = sh_clients s \<and> sh_fresh s' = sh_fresh s \<and> sh_heap s' = sh_heap s \<and>
     sh_meta s' = sh_meta s \<and> sh_server s' = sh_server s \<and> sh_monoTime s' = sh_monoTime s"
  by (induction k arbitrary: s) (auto simp: Let_def split: if_splits)

lemma nextPeers_ok:
  assumes "clients_ok s" "Shared_getNextPeersMeta s = (res, s')"
  shows "case res of None \<Rightarrow> clients_ok s' | Some m \<Rightarrow> clients_ok (Shared_startClient s' m)"
proof (cases "sh_peers s = []")
  case True
  then show ?thesis using assms by (auto simp: Shared_getNextPeersMeta_def)
next
  case False
  note same = nextPeers_same [OF assms(2) [unfolded Shared_getNextPeersMeta_def]]
  consider "res = None" "sh_bootstrapping s' = sh_bootstrapping s"
    | m where "res = Some m" "peer_free s m" "sh_bootstrapping s' = AList.update (node_Id m) () (sh_bootstrapping s)"
    using nextPeers_loop_spec [OF False assms(2) [unfolded Shared_getNextPeersMeta_def]] by auto
  then show ?thesis
  proof cases
    case 1
    then show ?thesis using same assms(1) clients_ok_same [of s s'] by (simp add: same_clients_def)
  next
    case 2
    let ?s = "s\<lparr>sh_bootstrapping := AList.update (node_Id m) () (sh_bootstrapping s)\<rparr>"
    have "clients_ok (Shared_startClient ?s m)" using clients_ok_start(2) [OF assms(1)] 2(2) by (simp add: peer_free_def)
    moreover have "same_clients (Shared_startClient ?s m) (Shared_startClient s' m)"
      using same 2(3) by (simp add: same_clients_def Shared_startClient_def)
    ultimately show ?thesis using clients_ok_same 2(1) by auto
  qed
qed

lemma shared_ok_bootstrap:
  assumes "shared_ok s"
  shows "shared_ok (Shared_bootstrap_step s now)"
proof -
  obtain info st where g: "store_getInfo (sh_store s) now KeySentinel = (info, st)" by fastforce
  let ?s1 = "s\<lparr>sh_server := (sh_server s)\<lparr>sv_store := st\<rparr>\<rparr>"
  have "store_ok st" using store_ok_getInfo [of "sh_store s" now KeySentinel] g assms server_okD(1) by (auto simp: shared_ok_def)
  then have s1: "server_ok (sh_server ?s1)" "clients_ok ?s1"
    using assms server_ok_store clients_ok_same [of s ?s1] by (auto simp: shared_ok_def same_clients_def)
  obtain res s2 where n: "Shared_getNextPeersMeta ?s1 = (res, s2)" by fastforce
  note same = nextPeers_same [OF n [unfolded Shared_getNextPeersMeta_def]]
  show ?thesis
    using assms s1 nextPeers_ok [OF s1(2) n] same g n
    by (auto simp: Shared_bootstrap_step_def Let_def shared_ok_def Shared_startClient_def split: option.splits)
qed

lemma shared_ok_disconnect:
  assumes "shared_ok s"
  shows "shared_ok (Shared_doDisconnect s a)"
  using assms clients_ok_remove [of s a] clients_ok_start(1) [of "Shared_removeClient s a"]
  by (auto simp: Shared_doDisconnect_def Let_def shared_ok_def Shared_removeClient_def Shared_startClient_def split: option.splits)

text \<open>What the operations of a client keep: its server, well-formed responses in its channel, and the
  node but for the store.\<close>

definition chan_ok :: "client \<Rightarrow> bool" where
  "chan_ok c \<longleftrightarrow> (\<forall>(t, r) \<in> set (cl_rpcChan c). resp_ok r)"

definition store_step :: "Shared \<Rightarrow> Shared \<Rightarrow> bool" where
  "store_step s s' \<longleftrightarrow> same_clients s s' \<and> server_ok (sh_server s') \<and> 0 \<le> sh_monoTime s'"

lemma call_done:
  assumes "client_pull_done c resp = Inr c' \<or> client_push_done c resp = Inr c'" "chan_ok c" "\<forall>r. resp = Some r \<longrightarrow> resp_ok r"
  shows "cl_serverMeta c' = cl_serverMeta c \<and> chan_ok c'"
  using assms by (auto simp: client_pull_done_def client_push_done_def client_stop_def chan_ok_def split: option.splits if_splits)

lemma push_request_step:
  assumes "client_push_request s now c = Inr (req, c', s')" "shared_ok s" "chan_ok c"
  shows "cl_serverMeta c' = cl_serverMeta c \<and> chan_ok c' \<and> store_step s s'"
proof -
  have st: "store_ok (sh_store s)" "distinct (keys (st_infos (sh_store s)))" and sv: "server_ok (sh_server s)"
    using assms(2) server_okD(1) by (auto simp: shared_ok_def store_ok_def)
  show ?thesis
    using assms server_ok_store [OF sv store_ok_filter [OF st(1)], of "live now"]
    by (auto simp: client_push_request_def store_delta_eq [OF st(2)] Let_def chan_ok_def store_step_def same_clients_def
        shared_ok_def split: if_splits)
qed

lemma handleResponse_step:
  assumes "client_handleResponse s c r = Inr (c', s')" "shared_ok s" "resp_ok r"
  shows "cl_serverMeta c' = cl_serverMeta c \<and> store_step s s'"
proof -
  have sv: "server_ok (sh_server s)" "store_ok (sh_store s)" using assms(2) server_okD(1) by (auto simp: shared_ok_def)
  have comb: "server_ok ((sh_server s)\<lparr>sv_store := st\<rparr>)"
    if "sr_Delta r = Some d" "store_combine (sh_store s) d = Inr (m, e, st)" for d m e st
    using store_combine_loop_ok [OF sv(2), of d 0 None] that assms(3) server_ok_store [OF sv(1)]
    by (auto simp: store_combine_def resp_ok_def)
  show ?thesis
    using assms comb
    by (auto simp: client_handleResponse_def Let_def store_step_def same_clients_def shared_ok_def split: option.splits)
qed

lemma store_step_ok: "shared_ok s \<Longrightarrow> store_step s s' \<Longrightarrow> shared_ok s'"
  using clients_ok_same by (auto simp: shared_ok_def store_step_def)

lemma store_step_trans: "store_step s s' \<Longrightarrow> store_step s' s'' \<Longrightarrow> store_step s s''"
  by (simp add: store_step_def same_clients_def)

lemma shared_step_step:
  assumes "client_shared_step s now c = Inr (call, c', s')" "shared_ok s" "chan_ok c"
  shows "cl_serverMeta c' = cl_serverMeta c \<and> chan_ok c' \<and> store_step s s'"
proof (cases "cl_rpcChan c")
  case Nil
  then show ?thesis using assms by (auto simp: client_shared_step_def store_step_def same_clients_def shared_ok_def)
next
  case (Cons p rest)
  obtain t r where p: "p = (t, r)" by fastforce
  obtain c1 s1 where h: "client_handleResponse s (c\<lparr>cl_rpcChan := rest\<rparr>) r = Inr (c1, s1)"
    using assms(1) Cons p by (auto simp: client_shared_step_def)
  have r: "resp_ok r" "chan_ok (c\<lparr>cl_rpcChan := rest\<rparr>)" using assms(3) Cons p by (auto simp: chan_ok_def)
  note c1 = handleResponse_step [OF h assms(2) r(1)] handleResponse_client(1) [OF h]
  have ok1: "shared_ok s1" using store_step_ok [OF assms(2)] c1(1) by blast
  have "chan_ok c1" "chan_ok (c1\<lparr>cl_pushing := False\<rparr>)" using c1(2) r(2) by (simp_all add: chan_ok_def)
  then show ?thesis
    using assms(1) Cons p h c1(1) push_request_step [OF _ ok1, of now "c1\<lparr>cl_pushing := False\<rparr>"] store_step_trans [of s s1]
    by (auto simp: client_shared_step_def Let_def split: if_splits)
qed

lemma shared_handle_step:
  assumes "client_shared_handle s c = Inr (c', s')" "shared_ok s" "chan_ok c"
  shows "cl_serverMeta c' = cl_serverMeta c \<and> chan_ok c' \<and> store_step s s'"
proof (cases "cl_rpcChan c")
  case Nil
  then show ?thesis using assms by (auto simp: client_shared_handle_def store_step_def same_clients_def shared_ok_def)
next
  case (Cons p rest)
  obtain t r where p: "p = (t, r)" by fastforce
  obtain c1 s1 where h: "client_handleResponse s (c\<lparr>cl_rpcChan := rest\<rparr>) r = Inr (c1, s1)"
    using assms(1) Cons p by (auto simp: client_shared_handle_def)
  have r: "resp_ok r" "chan_ok (c\<lparr>cl_rpcChan := rest\<rparr>)" using assms(3) Cons p by (auto simp: chan_ok_def)
  show ?thesis
    using assms(1) Cons p h handleResponse_step [OF h assms(2) r(1)] handleResponse_client(1) [OF h] r(2)
    by (cases t) (auto simp: client_shared_handle_def chan_ok_def)
qed

lemma shared_ok_put:
  assumes "shared_ok s" "store_step s s'" "cl_serverMeta c = cl_serverMeta (sh_heap s a)" "chan_ok c"
  shows "shared_ok (put_client a c s')"
proof -
  have "clients_ok (put_client a c s')"
    by (rule clients_ok_put)
      (use assms store_step_ok [OF assms(1,2)] in \<open>auto simp: shared_ok_def store_step_def same_clients_def chan_ok_def\<close>)
  then show ?thesis using assms(2) by (simp add: shared_ok_def store_step_def put_client_def)
qed

lemma store_step_refl: "shared_ok s \<Longrightarrow> store_step s s"
  by (simp add: store_step_def same_clients_def shared_ok_def)

lemma shared_ok_chan: "shared_ok s \<Longrightarrow> chan_ok (sh_heap s a)"
  by (auto simp: shared_ok_def clients_ok_def chan_ok_def)

lemma store_step_store:
  "shared_ok s \<Longrightarrow> store_ok st \<Longrightarrow> store_step s (s\<lparr>sh_server := (sh_server s)\<lparr>sv_store := st\<rparr>\<rparr>)"
  by (simp add: store_step_def same_clients_def shared_ok_def server_ok_store)

lemma register_step:
  "shared_ok s \<Longrightarrow> Shared_RegisterCallback re s now cid pat f = Inr s' \<Longrightarrow> store_step s s'"
  using store_step_store store_ok_register server_okD(1) by (fastforce simp: Shared_RegisterCallback_def shared_ok_def)

lemma unregister_step: "shared_ok s \<Longrightarrow> store_step s (Shared_unregister s cid)"
  unfolding Shared_unregister_def
  by (rule store_step_store)
    (use server_okD(1) [of "sh_server s"] in \<open>auto simp: shared_ok_def store_unregister_def store_ok_def\<close>)

lemma addInfo_step:
  assumes "shared_ok s" "Shared_AddInfo s now now' key val ttl = Inr (err, s')" "0 < now'" "sh_monoTime s < 2 ^ 63 - 1"
  shows "store_step s s'"
proof -
  obtain i m e st where i: "newInfo (node_Id (sh_meta s)) val ttl now now' (sh_monoTime s) = Inr (i, m)"
    "store_addInfo (sh_store s) key i = Inr (e, st)" "s' = s\<lparr>sh_monoTime := m, sh_server := (sh_server s)\<lparr>sv_store := st\<rparr>\<rparr>"
    using assms(2) by (auto simp: Shared_AddInfo_def)
  have mono: "0 \<le> sh_monoTime s" "store_ok (sh_store s)" using assms(1) server_okD(1) by (auto simp: shared_ok_def)
  have m: "0 < m" "inf_OrigStamp i = m" "inf_NodeId i \<noteq> 0"
    "inf_Value i = Some (MakeValueFromBytesAndTimestamp val (Some \<lparr>ts_WallTime = now, ts_LogicalTime = 0\<rparr>))"
    using i(1) mono(1) assms(3,4) by (auto simp: newInfo_def Let_def monotonicUnixNano_def wrap_int64_def split: if_splits)
  then have "info_ok i" by (simp add: info_ok_def MakeValueFromBytesAndTimestamp_def)
  then have "store_ok st" using store_ok_addInfo [OF mono(2) _ i(2)] by blast
  then show ?thesis using assms(1) i(3) m(1) server_ok_store by (simp add: store_step_def same_clients_def shared_ok_def)
qed

lemma getInfo_step:
  assumes "shared_ok s" "Shared_GetInfo s now key = Inr (v, s')"
  shows "store_step s s'"
proof -
  have "store_ok (snd (store_getInfo (sh_store s) now key))"
    using assms(1) server_okD(1) store_ok_getInfo by (auto simp: shared_ok_def)
  from store_step_store [OF assms(1) this] show ?thesis
    using assms(2) by (auto simp: Shared_GetInfo_def Let_def split: prod.splits option.splits)
qed

text \<open>The addresses of a node's clients: a step keeps them, or adds the next one.\<close>

definition grown :: "Shared \<Rightarrow> Shared \<Rightarrow> bool" where
  "grown s s' \<longleftrightarrow> sh_clients s' = sh_clients s \<and> sh_fresh s' = sh_fresh s \<or>
     sh_clients s' = sh_clients s @ [sh_fresh s] \<and> sh_fresh s' = Suc (sh_fresh s)"

lemma grown_step: "store_step s s' \<Longrightarrow> grown s s'" "store_step s s' \<Longrightarrow> grown s (put_client a c s')" "grown s s"
  by (simp_all add: store_step_def same_clients_def grown_def put_client_def)

lemma grown_bootstrap: "grown s (Shared_bootstrap_step s now)"
proof -
  obtain info st where g: "store_getInfo (sh_store s) now KeySentinel = (info, st)" by fastforce
  obtain res s2 where n: "Shared_getNextPeersMeta (s\<lparr>sh_server := (sh_server s)\<lparr>sv_store := st\<rparr>\<rparr>) = (res, s2)" by fastforce
  show ?thesis
    using nextPeers_same [OF n [unfolded Shared_getNextPeersMeta_def]] g n
    by (auto simp: Shared_bootstrap_step_def Let_def grown_def Shared_startClient_def split: option.splits)
qed

lemma phases_ok_grown:
  assumes "phases_ok n" "grown (gn_shared n) s'" "\<forall>a. ph a \<noteq> gn_phase n a \<longrightarrow> a \<in> set (sh_clients (gn_shared n)) \<and> ph a \<noteq> Left \<and> gn_phase n a \<noteq> Left"
    "\<forall>a \<in> set (sh_clients (gn_shared n)). a < sh_fresh (gn_shared n)"
  shows "phases_ok (n\<lparr>gn_shared := s', gn_phase := ph\<rparr>)"
proof -
  have same: "ph a = Left \<longleftrightarrow> gn_phase n a = Left" for a using assms(3) by metis
  have "ph a = Starting" if "sh_fresh (gn_shared n) \<le> a" for a
    using that assms(1,3,4) unfolding phases_ok_def by (metis leD)
  then show ?thesis using assms(1,2) same by (auto simp: phases_ok_def grown_def handed_in_def less_Suc_eq)
qed

lemma phases_ok_report:
  assumes "phases_ok n" "a \<in> set (sh_clients (gn_shared n))" "gn_phase n a \<noteq> Left" "client_report a (gn_disconnect n) = Some q"
    "a < sh_fresh (gn_shared n)"
  shows "phases_ok (n\<lparr>gn_phase := (gn_phase n)(a := Left), gn_disconnect := q\<rparr>)"
proof -
  have q: "q = gn_disconnect n @ [a]" "length q \<le> disconnectBuffer" using assms(4) by (auto simp: client_report_def split: if_splits)
  have "a \<notin> set (handed_in n)" using assms(1,3) by (simp add: phases_ok_def)
  then have "distinct (handed_in n @ [a])" "set (handed_in n @ [a]) = {b \<in> set (sh_clients (gn_shared n)). b = a \<or> gn_phase n b = Left}"
    using assms(1,2) by (auto simp: phases_ok_def)
  moreover have "handed_in (n\<lparr>gn_phase := (gn_phase n)(a := Left), gn_disconnect := q\<rparr>) = handed_in n @ [a]"
    using q by (simp add: handed_in_def)
  ultimately show ?thesis using assms(1,2,5) q(2) by (auto simp: phases_ok_def)
qed

lemma phases_ok_manage:
  assumes "phases_ok n" "gn_manage n = ManageHolds a" "clients_ok (gn_shared n)"
  shows "phases_ok (n\<lparr>gn_shared := Shared_doDisconnect (gn_shared n) a, gn_manage := ManageWaits\<rparr>)"
proof -
  let ?s = "gn_shared n"
  have hi: "handed_in n = a # gn_disconnect n" using assms(2) by (simp add: handed_in_def)
  have a: "a \<in> set (sh_clients ?s)" "distinct (sh_clients ?s)" "sh_fresh ?s \<notin> set (sh_clients ?s)" "gn_phase n a = Left"
    "a \<notin> set (gn_disconnect n)"
    using assms hi by (auto simp: phases_ok_def clients_ok_def)
  have "set (sh_clients (Shared_doDisconnect ?s a)) = set (sh_clients ?s) - {a} \<and> sh_fresh (Shared_doDisconnect ?s a) = sh_fresh ?s \<or>
      set (sh_clients (Shared_doDisconnect ?s a)) = insert (sh_fresh ?s) (set (sh_clients ?s) - {a}) \<and>
      sh_fresh (Shared_doDisconnect ?s a) = Suc (sh_fresh ?s)"
    using a by (auto simp: Shared_doDisconnect_def Shared_removeClient_def Shared_startClient_def Let_def split: option.splits)
  moreover have "gn_phase n (sh_fresh ?s) = Starting" using assms(1) by (simp add: phases_ok_def)
  moreover have "handed_in (n\<lparr>gn_shared := Shared_doDisconnect ?s a, gn_manage := ManageWaits\<rparr>) = gn_disconnect n" by (simp add: handed_in_def)
  ultimately show ?thesis using assms(1) hi a(1,4,5) by (auto simp: phases_ok_def less_Suc_eq)
qed

lemma gossip_step_ok:
  assumes "gossip_step re rt n n'" "gnode_ok n"
  shows "gnode_ok n'"
proof -
  let ?s = "gn_shared n"
  have s: "shared_ok ?s" and ph: "phases_ok n" and cl: "clients_ok ?s" "\<forall>a \<in> set (sh_clients ?s). a < sh_fresh ?s"
    using assms(2) by (auto simp: gnode_ok_def shared_ok_def clients_ok_def)
  note grow = phases_ok_grown [OF ph _ _ cl(2)]
  have store: "gnode_ok (n\<lparr>gn_shared := s'\<rparr>)" if "store_step ?s s'" for s'
    using store_step_ok [OF s that] grow [OF grown_step(1) [OF that], of "gn_phase n"] by (simp add: gnode_ok_def)
  have client: "gnode_ok (n\<lparr>gn_shared := put_client a c s'\<rparr>)"
    if "store_step ?s s'" "cl_serverMeta c = cl_serverMeta (sh_heap ?s a) \<and> chan_ok c" for a c s'
    using shared_ok_put [OF s that(1), of c a] that(2) grow [OF grown_step(2) [OF that(1)], of "gn_phase n"]
    by (simp add: gnode_ok_def)
  note refl = store_step_refl [OF s] and chan = shared_ok_chan [OF s]
  from assms(1) show ?thesis
  proof cases
    case (bootstrap now)
    then show ?thesis using shared_ok_bootstrap [OF s] grow [OF grown_bootstrap, of "gn_phase n"] by (simp add: gnode_ok_def)
  next
    case (dial a dialed req)
    then show ?thesis
      using s grow [OF grown_step(3), of "(gn_phase n)(a := FirstPull)"] by (simp add: gnode_ok_def)
  next
    case (first_pull a resp c)
    have "shared_ok (put_client a c ?s)"
      using shared_ok_put [OF s refl] call_done [OF disjI1 [OF first_pull(5)] chan first_pull(4)] by simp
    then show ?thesis
      using first_pull grow [OF grown_step(2) [OF refl], of "(gn_phase n)(a := Registering)" a c] by (simp add: gnode_ok_def)
  next
    case (enter a now cid f s')
    note reg = register_step [OF s enter(4) [unfolded client_shared_enter_def]]
    then show ?thesis
      using store_step_ok [OF s reg] grow [OF grown_step(1) [OF reg], of "(gn_phase n)(a := Looping)"] enter by (simp add: gnode_ok_def)
  next
    case (pulled a resp c)
    then show ?thesis using client [OF refl] call_done [OF disjI1 [OF pulled(5)] chan pulled(4)] by simp
  next
    case (push a now req c s')
    then show ?thesis using client push_request_step [OF push(3) s chan] by auto
  next
    case (pushed a resp c)
    then show ?thesis using client [OF refl] call_done [OF disjI2 [OF pushed(4)] chan pushed(3)] by simp
  next
    case (respond a now call c s')
    then show ?thesis using client shared_step_step [OF respond(4) s chan] by auto
  next
    case (respond_only a c s')
    then show ?thesis using client shared_handle_step [OF respond_only(4) s chan] by auto
  next
    case (leave a w cid)
    note un = unregister_step [OF s, of cid]
    then show ?thesis
      using leave store_step_ok [OF s un] grow [OF grown_step(1) [OF un], of "(gn_phase n)(a := Leaving)"] by (simp add: gnode_ok_def)
  next
    case (report a q)
    then show ?thesis using s cl(2) phases_ok_report [OF ph report(2) _ report(4)] by (simp add: gnode_ok_def)
  next
    case (receive a q)
    then have "handed_in n' = handed_in n" by (simp add: handed_in_def)
    then show ?thesis using receive s ph by (simp add: gnode_ok_def phases_ok_def)
  next
    case (manage a)
    then show ?thesis using shared_ok_disconnect [OF s] phases_ok_manage [OF ph manage(2) cl(1)] by (simp add: gnode_ok_def)
  next
    case (manage_end w)
    then have "handed_in n' = handed_in n" by (simp add: handed_in_def)
    then show ?thesis using manage_end s ph by (simp add: gnode_ok_def phases_ok_def)
  next
    case (share req now rnd res sv)
    have "server_ok sv"
    proof (cases "rq_NodeMeta req")
      case None
      then show ?thesis using share s by (auto simp: server_Share_def shared_ok_def split: if_splits)
    next
      case (Some meta)
      then show ?thesis using share s server_Share_ok [of "sh_server ?s" req meta rt now rnd] by (auto simp: shared_ok_def)
    qed
    then show ?thesis using share store s by (simp add: store_step_def same_clients_def shared_ok_def)
  next
    case (add now now' key val ttl err s')
    then show ?thesis using store addInfo_step [OF s] by auto
  next
    case (getinfo now key v s')
    then show ?thesis using store getInfo_step [OF s] by auto
  qed
qed

section \<open>Reachable states\<close>

inductive gossip_reach :: "(string \<Rightarrow> string \<Rightarrow> bool) \<Rightarrow> (nat \<Rightarrow> int) \<Rightarrow> gnode \<Rightarrow> gnode \<Rightarrow> bool" for re rt n0 where
  start: "gossip_reach re rt n0 n0"
| step: "gossip_reach re rt n0 n \<Longrightarrow> gossip_step re rt n n' \<Longrightarrow> gossip_reach re rt n0 n'"

lemma gossip_reach_ok: "gossip_reach re rt n0 n \<Longrightarrow> gnode_ok n0 \<Longrightarrow> gnode_ok n"
  by (induction rule: gossip_reach.induct) (auto intro: gossip_step_ok)

lemma shared_ok_new: "shared_ok (NewShared meta peers)"
  by (simp add: shared_ok_def clients_ok_def NewShared_def server_ok_new newClient_def)

lemma server_start_step:
  "shared_ok s \<Longrightarrow> server_start re (sh_server s) now cid f = Inr sv \<Longrightarrow> store_step s (s\<lparr>sh_server := sv\<rparr>)"
  using register_step [of s re now cid "''.*''" f] by (auto simp: server_start_def Shared_RegisterCallback_def)

lemma Start_ok:
  assumes "Shared_Start marshal re (NewShared meta peers) now now' cid f = Inr s" "0 < now'"
  shows "gnode_ok (new_gnode s)"
proof -
  let ?s0 = "NewShared meta peers"
  obtain sv bytes where sv: "server_start re (sh_server ?s0) now cid f = Inr sv"
    "Shared_AddInfo (?s0\<lparr>sh_server := sv\<rparr>) now now' (MakeNodeIdKey (node_Id (sh_meta ?s0))) bytes ttlNodeMeta = Inr (None, s)"
    using assms(1) by (auto simp: Shared_Start_def Shared_AddInfoProto_def split: option.splits if_splits)
  note s1 = server_start_step [OF shared_ok_new sv(1)]
  have "store_step (?s0\<lparr>sh_server := sv\<rparr>) s"
    by (rule addInfo_step [OF store_step_ok [OF shared_ok_new s1] sv(2) assms(2)]) (simp add: NewShared_def)
  then have step: "store_step ?s0 s" using s1 store_step_trans by blast
  then have "sh_clients s = []" "sh_fresh s = 0" by (simp_all add: store_step_def same_clients_def NewShared_def)
  then show ?thesis using store_step_ok [OF shared_ok_new step] by (simp add: gnode_ok_def phases_ok_def new_gnode_def handed_in_def)
qed

section \<open>Properties\<close>

text \<open>C29: The books a node keeps on its clients are right in every state it reaches, however its loops,
  its clients and its server interleave: a peer is marked as being bootstrapped from only while there
  is a client to it, the node never marks itself, and the server's tables agree. The clients that were reported on the
  channel \<open>disconnect\<close> and are not yet disconnected (the one the manage loop has received, and at most ten in the channel) are, each
  once, the node's clients whose goroutine has made its report; and a client is forgotten only after its report. So when
  \<open>getNextPeersMeta\<close> finds no peer, every other peer has a client.\<close>

theorem bootstrap_books:
  assumes "Shared_Start marshal re (NewShared meta peers) now now' cid f = Inr s" "0 < now'"
    "gossip_reach re rt (new_gnode s) n" "Shared_getNextPeersMeta (gn_shared n) = (res, s')"
  shows "server_ok (sh_server (gn_shared n)) \<and> distinct (handed_in n) \<and> length (gn_disconnect n) \<le> 10 \<and>
    set (handed_in n) = {a \<in> set (sh_clients (gn_shared n)). gn_phase n a = Left} \<and>
    (\<forall>a < sh_fresh (gn_shared n). gn_phase n a \<noteq> Left \<longrightarrow> a \<in> set (sh_clients (gn_shared n))) \<and>
    map_of (sh_bootstrapping (gn_shared n)) (node_Id (sh_meta (gn_shared n))) = None \<and>
    (\<forall>x. map_of (sh_bootstrapping (gn_shared n)) x \<noteq> None \<longrightarrow>
      (\<exists>a \<in> set (sh_clients (gn_shared n)). server_of (gn_shared n) a = x)) \<and>
    (res = None \<longrightarrow> (\<forall>m \<in> set (sh_peers (gn_shared n)). node_Id m \<noteq> node_Id (sh_meta (gn_shared n)) \<longrightarrow>
      (\<exists>a \<in> set (sh_clients (gn_shared n)). server_of (gn_shared n) a = node_Id m)))"
proof -
  let ?s = "gn_shared n"
  have ok: "gnode_ok n" by (rule gossip_reach_ok [OF assms(3) Start_ok [OF assms(1,2)]])
  then have marks: "\<exists>a \<in> set (sh_clients ?s). server_of ?s a = x" if "map_of (sh_bootstrapping ?s) x \<noteq> None" for x
    using that map_of_None_keys [of "sh_bootstrapping ?s" x] by (fastforce simp: gnode_ok_def shared_ok_def clients_ok_def)
  have "\<not> peer_free ?s m" if "res = None" "m \<in> set (sh_peers ?s)" for m
    using nextPeers_loop_spec [of ?s, OF _ assms(4) [unfolded Shared_getNextPeersMeta_def]] peer_at_range [OF that(2)] that
    by fastforce
  then show ?thesis
    using ok marks map_of_None_keys [of "sh_bootstrapping ?s"]
    by (auto simp: gnode_ok_def shared_ok_def clients_ok_def phases_ok_def peer_free_def disconnectBuffer_def)
qed

text \<open>A node with one other peer starts, takes a step of its bootstrap loop, and then has a client to it.\<close>

theorem bootstrap_books_witness:
  "\<exists>s n. Shared_Start (\<lambda>m. Some [1]) (\<lambda>p k. True) (NewShared (ex_meta 1) [ex_meta 1, ex_meta 2]) 5 6 0 0 = Inr s \<and>
     gossip_reach (\<lambda>p k. True) (\<lambda>n. 2) (new_gnode s) n \<and>
     (\<exists>a \<in> set (sh_clients (gn_shared n)). server_of (gn_shared n) a = 2)"
proof -
  let ?start = "Shared_Start (\<lambda>m. Some [1]) (\<lambda>p k. True) (NewShared (ex_meta 1) [ex_meta 1, ex_meta 2]) 5 6 0 0"
  have "(case ?start of Inl _ \<Rightarrow> False | Inr s \<Rightarrow>
      fst (Shared_getNextPeersMeta (Shared_bootstrap_step s 7)) = None \<and> sh_peers (Shared_bootstrap_step s 7) = [ex_meta 1, ex_meta 2] \<and>
      sh_meta (Shared_bootstrap_step s 7) = ex_meta 1)" by code_simp
  then obtain s where s: "?start = Inr s" "fst (Shared_getNextPeersMeta (Shared_bootstrap_step s 7)) = None"
    "sh_peers (Shared_bootstrap_step s 7) = [ex_meta 1, ex_meta 2]" "sh_meta (Shared_bootstrap_step s 7) = ex_meta 1"
    by (auto split: sum.splits)
  let ?n = "(new_gnode s)\<lparr>gn_shared := Shared_bootstrap_step (gn_shared (new_gnode s)) 7\<rparr>"
  have sel: "gn_shared ?n = Shared_bootstrap_step s 7" by (simp add: new_gnode_def)
  have reach: "gossip_reach (\<lambda>p k. True) (\<lambda>n. 2) (new_gnode s) ?n" by (rule gossip_reach.step [OF gossip_reach.start bootstrap])
  obtain s' where none: "Shared_getNextPeersMeta (gn_shared ?n) = (None, s')"
    using s(2) sel by (metis prod.collapse)
  have "ex_meta 2 \<in> set (sh_peers (gn_shared ?n))" "node_Id (ex_meta 2) \<noteq> node_Id (sh_meta (gn_shared ?n))" "node_Id (ex_meta 2) = 2"
    using s(3,4) sel by (simp_all add: ex_meta_def)
  then have "\<exists>a \<in> set (sh_clients (gn_shared ?n)). server_of (gn_shared ?n) a = 2"
    using bootstrap_books [OF s(1) zero_less_numeral reach none] by metis
  then show ?thesis using s(1) reach by blast
qed

text \<open>C30: Starting a node publishes its address: it never panics when the node has an id, and afterwards
  the node's metadata is read back under its key, for every protobuf library that decodes what it
  encodes.\<close>

theorem start_publishes_meta:
  assumes "\<And>m bytes. marshal m = Some bytes \<Longrightarrow> unmarshal bytes = Some m" "marshal meta = Some bytes"
    "node_Id meta \<noteq> 0" "now'' < 2 ^ 63"
  shows "\<exists>s s''. Shared_Start marshal re (NewShared meta peers) now now' cid f = Inr s \<and>
    Shared_GetInfoProto unmarshal s now'' (MakeNodeIdKey (node_Id meta)) = Inr (Inr meta, s'')"
proof -
  let ?s0 = "NewShared meta peers"
  have "store_registerCallback re (newStore meta) now cid ''.*'' f =
      Inr ((newStore meta)\<lparr>st_callbacks := [\<lparr>cb_id = cid, cb_pattern = ''.*'', cb_f = f\<rparr>]\<rparr>)"
    by (simp add: store_registerCallback_def newStore_def store_visitInfos_def)
  then obtain sv where sv: "server_start re (sh_server ?s0) now cid f = Inr sv" "st_infos (sv_store sv) = []" "st_nodes (sv_store sv) = []"
    by (simp add: server_start_def NewShared_def newServer_def newStore_def)
  let ?i = "\<lparr>inf_Value = Some (MakeValueFromBytesAndTimestamp bytes (Some \<lparr>ts_WallTime = now, ts_LogicalTime = 0\<rparr>)),
    inf_TtlStamp = 2 ^ 63 - 1, inf_OrigStamp = monotonicUnixNano 0 now', inf_Hops = 0, inf_NodeId = node_Id meta, inf_PeerId = 0\<rparr>"
  have i: "newInfo (node_Id meta) bytes 0 now now' 0 = Inr (?i, monotonicUnixNano 0 now')"
    using assms(3) by (simp add: newInfo_def Let_def)
  have st: "store_ok (sv_store sv)" using sv(2,3) by (simp add: store_ok_def)
  have "store_addInfo (sv_store sv) k ?i = Inr (None, store_insert (sv_store sv) k ?i)" for k
    using store_addInfo_eq [OF st, of ?i k] assms(3) sv(2) by (simp add: outdone_def)
  then show ?thesis
    using sv(1) i assms
    by (simp add: Shared_Start_def Shared_AddInfoProto_def Shared_AddInfo_def ttlNodeMeta_def NewShared_def Shared_GetInfoProto_def
        Shared_GetInfo_def store_getInfo_def store_insert_def update_conv' Info_isExpired_def MakeValueFromBytesAndTimestamp_def)
qed

theorem start_publishes_meta_witness:
  "\<exists>s s''. Shared_Start (\<lambda>m. if m = ex_meta 1 then Some [7] else None) (\<lambda>p k. True) (NewShared (ex_meta 1) []) 5 6 0 0 = Inr s \<and>
     Shared_GetInfoProto (\<lambda>b. if b = [7] then Some (ex_meta 1) else None) s 9 (MakeNodeIdKey (node_Id (ex_meta 1))) = Inr (Inr (ex_meta 1), s'')"
  by (rule start_publishes_meta [where bytes = "[7]"]) (simp_all add: ex_meta_def split: if_splits)

end
