(* ===== verification/Cache.thy ===== *)
theory Cache
  imports Prelude
begin

text \<open>
  \<open>src/util/cache/cache.go\<close>: a cache with an eviction policy over a backing storage. Go's
  \<open>container/list\<close> is a list of entries, front first; the address of an entry's list element is
  the number in its field \<open>le\<close>, and \<open>bc_fresh\<close> is the next address. \<open>OnEvict\<close> is observed through
  the list of its calls. The interface \<open>storage\<close> is a record of its methods over a state \<open>'s\<close>;
  \<open>get\<close> may panic, as it does in an \<open>IntervalCache\<close> whose type assertions fail.
\<close>

section \<open>Data\<close>

datatype EvictionPolicy = CacheLRU | CacheFIFO | CacheNone

record ('k, 'v) Config =
  ca_Policy :: EvictionPolicy
  ca_ShouldEvict :: "(nat \<Rightarrow> 'k \<Rightarrow> 'v \<Rightarrow> bool) option"
  ca_OnEvict :: bool

record ('k, 'v) entry =
  e_key :: 'k
  e_value :: 'v
  e_le :: "nat option"

record ('k, 'v, 's) storage =
  st_put :: "('k, 'v) entry \<Rightarrow> 's \<Rightarrow> 's"
  st_get :: "'k \<Rightarrow> 's \<Rightarrow> ('k, 'v) entry option go"
  st_del :: "'k \<Rightarrow> 's \<Rightarrow> 's"
  st_size :: "'s \<Rightarrow> nat"
  st_clear :: "'s \<Rightarrow> 's"

record ('k, 'v, 's) baseCache =
  bc_storage :: 's
  bc_ll :: "('k, 'v) entry list"
  bc_fresh :: nat
  bc_evicted :: "('k \<times> 'v) list"

section \<open>container/list\<close>

definition list_Remove :: "nat option \<Rightarrow> ('k, 'v) entry list \<Rightarrow> ('k, 'v) entry list go" where
  "list_Remove le ll =
     (case le of None \<Rightarrow> Inl NilDereference | Some i \<Rightarrow> Inr (filter (\<lambda>x. e_le x \<noteq> Some i) ll))"

definition list_MoveToFront :: "nat option \<Rightarrow> ('k, 'v) entry list \<Rightarrow> ('k, 'v) entry list go" where
  "list_MoveToFront le ll =
     (case le of None \<Rightarrow> Inl NilDereference
      | Some i \<Rightarrow> Inr (filter (\<lambda>x. e_le x = Some i) ll @ filter (\<lambda>x. e_le x \<noteq> Some i) ll))"

section \<open>baseCache\<close>

definition newBaseCache :: "'s \<Rightarrow> ('k, 'v, 's) baseCache" where
  "newBaseCache s = \<lparr>bc_storage = s, bc_ll = [], bc_fresh = 0, bc_evicted = []\<rparr>"

definition baseCache_use ::
  "('k, 'v) Config \<Rightarrow> ('k, 'v, 's) baseCache \<Rightarrow> ('k, 'v) entry \<Rightarrow> ('k, 'v, 's) baseCache go" where
  "baseCache_use cfg bc e =
     (if ca_Policy cfg = CacheLRU
      then go_bind (list_MoveToFront (e_le e) (bc_ll bc)) (\<lambda>ll. Inr (bc\<lparr>bc_ll := ll\<rparr>))
      else Inr bc)"

definition baseCache_removeEntry ::
  "('k, 'v, 's) storage \<Rightarrow> ('k, 'v) Config \<Rightarrow> ('k, 'v, 's) baseCache \<Rightarrow> ('k, 'v) entry \<Rightarrow> ('k, 'v, 's) baseCache go" where
  "baseCache_removeEntry st cfg bc e =
     go_bind (if ca_Policy cfg \<noteq> CacheNone then list_Remove (e_le e) (bc_ll bc) else Inr (bc_ll bc)) (\<lambda>ll.
       Inr (bc\<lparr>bc_ll := ll, bc_storage := st_del st (e_key e) (bc_storage bc),
               bc_evicted := (if ca_OnEvict cfg then bc_evicted bc @ [(e_key e, e_value e)] else bc_evicted bc)\<rparr>))"

text \<open>The loop of \<open>Put\<close> that evicts from the back of the list; it runs only under a policy other
  than \<open>CacheNone\<close>, where every iteration shortens the list.\<close>

lemma removeEntry_shrinks:
  assumes "baseCache_removeEntry st cfg bc (last (bc_ll bc)) = Inr bc'" "ca_Policy cfg \<noteq> CacheNone" "bc_ll bc \<noteq> []"
  shows "length (bc_ll bc') < length (bc_ll bc)"
proof -
  obtain i where i: "e_le (last (bc_ll bc)) = Some i" "bc_ll bc' = filter (\<lambda>x. e_le x \<noteq> Some i) (bc_ll bc)"
    using assms by (auto simp: baseCache_removeEntry_def list_Remove_def split: option.splits)
  have "last (bc_ll bc) \<in> set (bc_ll bc)" using assms(3) by simp
  then show ?thesis using i by (simp add: length_filter_less)
qed

function baseCache_evict ::
  "('k, 'v, 's) storage \<Rightarrow> ('k, 'v) Config \<Rightarrow> (nat \<Rightarrow> 'k \<Rightarrow> 'v \<Rightarrow> bool) \<Rightarrow> ('k, 'v, 's) baseCache \<Rightarrow>
   ('k, 'v, 's) baseCache go" where
  "baseCache_evict st cfg f bc =
     (if ca_Policy cfg = CacheNone \<or> st_size st (bc_storage bc) \<le> 0 then Inr bc
      else if bc_ll bc = [] then Inl NilDereference
      else
        let e = last (bc_ll bc) in
        if f (st_size st (bc_storage bc)) (e_key e) (e_value e)
        then go_bind (baseCache_removeEntry st cfg bc e) (\<lambda>bc'. baseCache_evict st cfg f bc')
        else Inr bc)"
  by pat_completeness auto
termination
  by (relation "measure (\<lambda>(st, cfg, f, bc). length (bc_ll bc))") (auto intro: removeEntry_shrinks)

declare baseCache_evict.simps [simp del]

definition baseCache_Put ::
  "('k, 'v, 's) storage \<Rightarrow> ('k, 'v) Config \<Rightarrow> ('k, 'v, 's) baseCache \<Rightarrow> 'k \<Rightarrow> 'v \<Rightarrow> ('k, 'v, 's) baseCache go" where
  "baseCache_Put st cfg bc key val =
     go_bind (st_get st key (bc_storage bc)) (\<lambda>r. case r of
        Some e \<Rightarrow> baseCache_use cfg bc e
      | None \<Rightarrow>
          let (e, bc1) =
            (if ca_Policy cfg \<noteq> CacheNone then
               let e = \<lparr>e_key = key, e_value = val, e_le = Some (bc_fresh bc)\<rparr>
               in (e, bc\<lparr>bc_ll := e # bc_ll bc, bc_fresh := Suc (bc_fresh bc)\<rparr>)
             else (\<lparr>e_key = key, e_value = val, e_le = None\<rparr>, bc));
              bc2 = bc1\<lparr>bc_storage := st_put st e (bc_storage bc1)\<rparr>
          in case ca_ShouldEvict cfg of
               None \<Rightarrow> Inr bc2
             | Some f \<Rightarrow> if ca_Policy cfg \<noteq> CacheNone then baseCache_evict st cfg f bc2 else Inr bc2)"

definition baseCache_Get ::
  "('k, 'v, 's) storage \<Rightarrow> ('k, 'v) Config \<Rightarrow> ('k, 'v, 's) baseCache \<Rightarrow> 'k \<Rightarrow> ('v option \<times> ('k, 'v, 's) baseCache) go" where
  "baseCache_Get st cfg bc key =
     go_bind (st_get st key (bc_storage bc)) (\<lambda>r. case r of
        Some e \<Rightarrow> go_bind (baseCache_use cfg bc e) (\<lambda>bc'. Inr (Some (e_value e), bc'))
      | None \<Rightarrow> Inr (None, bc))"

definition baseCache_Del ::
  "('k, 'v, 's) storage \<Rightarrow> ('k, 'v) Config \<Rightarrow> ('k, 'v, 's) baseCache \<Rightarrow> 'k \<Rightarrow> ('k, 'v, 's) baseCache go" where
  "baseCache_Del st cfg bc key =
     go_bind (st_get st key (bc_storage bc)) (\<lambda>r. case r of
        Some e \<Rightarrow> baseCache_removeEntry st cfg bc e
      | None \<Rightarrow> Inr bc)"

definition baseCache_Clear :: "('k, 'v, 's) storage \<Rightarrow> ('k, 'v, 's) baseCache \<Rightarrow> ('k, 'v, 's) baseCache" where
  "baseCache_Clear st bc = bc\<lparr>bc_storage := st_clear st (bc_storage bc)\<rparr>"

definition baseCache_Size :: "('k, 'v, 's) storage \<Rightarrow> ('k, 'v, 's) baseCache \<Rightarrow> nat" where
  "baseCache_Size st bc = st_size st (bc_storage bc)"

section \<open>UnorderedCache\<close>

type_synonym ('k, 'v) hash = "('k \<times> ('k, 'v) entry) list"

fun uc_clear_loop :: "'k list \<Rightarrow> ('k, 'v) hash \<Rightarrow> ('k, 'v) hash" where
  "uc_clear_loop [] h = h"
| "uc_clear_loop (k # ks) h = uc_clear_loop ks (AList.delete k h)"

definition UnorderedCache_storage :: "('k, 'v, ('k, 'v) hash) storage" where
  "UnorderedCache_storage =
     \<lparr>st_put = (\<lambda>e h. AList.update (e_key e) e h),
      st_get = (\<lambda>key h. Inr (map_of h key)),
      st_del = (\<lambda>key h. AList.delete key h),
      st_size = (\<lambda>h. length h),
      st_clear = (\<lambda>h. uc_clear_loop (keys h) h)\<rparr>"

definition NewUnorderedCache :: "('k, 'v, ('k, 'v) hash) baseCache" where
  "NewUnorderedCache = newBaseCache []"

section \<open>OrderedCache\<close>

text \<open>The left-leaning red-black tree of \<open>github.com/biogo/store/llrb\<close> is a parameter: its
  operations over a tree state \<open>'t\<close>. \<open>tr_items\<close> and \<open>tr_range\<close> are the elements \<open>Do\<close> and \<open>DoRange\<close>
  visit, in order; \<open>tr_Do\<close> is \<open>Do\<close> with a callback that changes the tree.\<close>

record ('k, 'v, 't) llrb =
  tr_Insert :: "('k, 'v) entry \<Rightarrow> 't \<Rightarrow> 't"
  tr_Get :: "'k \<Rightarrow> 't \<Rightarrow> ('k, 'v) entry option"
  tr_Delete :: "'k \<Rightarrow> 't \<Rightarrow> 't"
  tr_Len :: "'t \<Rightarrow> nat"
  tr_items :: "'t \<Rightarrow> ('k, 'v) entry list"
  tr_range :: "'k \<Rightarrow> 'k \<Rightarrow> 't \<Rightarrow> ('k, 'v) entry list"
  tr_Floor :: "'k \<Rightarrow> 't \<Rightarrow> ('k, 'v) entry option"
  tr_Ceil :: "'k \<Rightarrow> 't \<Rightarrow> ('k, 'v) entry option"
  tr_Do :: "(('k, 'v) entry \<Rightarrow> 't \<Rightarrow> bool \<times> 't) \<Rightarrow> 't \<Rightarrow> 't"
  tr_empty :: 't

definition OrderedCache_storage :: "('k, 'v, 't) llrb \<Rightarrow> ('k, 'v, 't) storage" where
  "OrderedCache_storage T =
     \<lparr>st_put = (\<lambda>e t. tr_Insert T e t),
      st_get = (\<lambda>key t. Inr (tr_Get T key t)),
      st_del = (\<lambda>key t. tr_Delete T key t),
      st_size = (\<lambda>t. tr_Len T t),
      st_clear = (\<lambda>t. tr_Do T (\<lambda>e t'. (False, tr_Delete T (e_key e) t')) t)\<rparr>"

definition NewOrderedCache :: "('k, 'v, 't) llrb \<Rightarrow> ('k, 'v, 't) baseCache" where
  "NewOrderedCache T = newBaseCache (tr_empty T)"

text \<open>\<open>Do\<close> and \<open>DoRange\<close>: every visited entry is used and then passed to the callback \<open>f\<close>, which
  works on a state \<open>'u\<close> of its own and ends the traversal by returning \<open>True\<close>.\<close>

fun cache_visit ::
  "('k, 'v) Config \<Rightarrow> ('k \<Rightarrow> 'v \<Rightarrow> 'u \<Rightarrow> bool \<times> 'u) \<Rightarrow> ('k, 'v) entry list \<Rightarrow> ('k, 'v, 's) baseCache \<times> 'u \<Rightarrow>
   (('k, 'v, 's) baseCache \<times> 'u) go" where
  "cache_visit cfg f [] (bc, u) = Inr (bc, u)"
| "cache_visit cfg f (e # es) (bc, u) =
     go_bind (baseCache_use cfg bc e) (\<lambda>bc'.
       let (stop, u') = f (e_key e) (e_value e) u in
       if stop then Inr (bc', u') else cache_visit cfg f es (bc', u'))"

definition OrderedCache_Do ::
  "('k, 'v, 't) llrb \<Rightarrow> ('k, 'v) Config \<Rightarrow> ('k \<Rightarrow> 'v \<Rightarrow> 'u \<Rightarrow> bool \<times> 'u) \<Rightarrow> ('k, 'v, 't) baseCache \<Rightarrow> 'u \<Rightarrow>
   (('k, 'v, 't) baseCache \<times> 'u) go" where
  "OrderedCache_Do T cfg f bc u = cache_visit cfg f (tr_items T (bc_storage bc)) (bc, u)"

definition OrderedCache_DoRange ::
  "('k, 'v, 't) llrb \<Rightarrow> ('k, 'v) Config \<Rightarrow> ('k \<Rightarrow> 'v \<Rightarrow> 'u \<Rightarrow> bool \<times> 'u) \<Rightarrow> 'k \<Rightarrow> 'k \<Rightarrow> ('k, 'v, 't) baseCache \<Rightarrow>
   'u \<Rightarrow> (('k, 'v, 't) baseCache \<times> 'u) go" where
  "OrderedCache_DoRange T cfg f from to bc u = cache_visit cfg f (tr_range T from to (bc_storage bc)) (bc, u)"

definition OrderedCache_Floor :: "('k, 'v, 't) llrb \<Rightarrow> ('k, 'v, 't) baseCache \<Rightarrow> 'k \<Rightarrow> ('k \<times> 'v) option" where
  "OrderedCache_Floor T bc key =
     (case tr_Floor T key (bc_storage bc) of Some e \<Rightarrow> Some (e_key e, e_value e) | None \<Rightarrow> None)"

definition OrderedCache_Ceil :: "('k, 'v, 't) llrb \<Rightarrow> ('k, 'v, 't) baseCache \<Rightarrow> 'k \<Rightarrow> ('k \<times> 'v) option" where
  "OrderedCache_Ceil T bc key =
     (case tr_Ceil T key (bc_storage bc) of Some e \<Rightarrow> Some (e_key e, e_value e) | None \<Rightarrow> None)"

end
