(* ===== verification/CacheSpec.thy ===== *)
theory CacheSpec
  imports Cache
begin

text \<open>
  What a cache promises: a list of key-value pairs in the order of the policy, most recent first.
  The locale \<open>cache_storage\<close> is the contract of the interface \<open>storage\<close>; over any storage that
  keeps it, \<open>baseCache\<close> implements that list. \<open>UnorderedCache\<close> keeps it unconditionally, and
  \<open>OrderedCache\<close> when the tree it is built on is a search tree.
\<close>

section \<open>The specification\<close>

definition spec_touch :: "EvictionPolicy \<Rightarrow> 'k \<Rightarrow> ('k \<times> 'v) list \<Rightarrow> ('k \<times> 'v) list" where
  "spec_touch pol k xs =
     (if pol = CacheLRU then filter (\<lambda>p. fst p = k) xs @ filter (\<lambda>p. fst p \<noteq> k) xs else xs)"

function spec_evict :: "(nat \<Rightarrow> 'k \<Rightarrow> 'v \<Rightarrow> bool) \<Rightarrow> ('k \<times> 'v) list \<Rightarrow> ('k \<times> 'v) list" where
  "spec_evict f xs =
     (if xs = [] then [] else if f (length xs) (fst (last xs)) (snd (last xs)) then spec_evict f (butlast xs) else xs)"
  by pat_completeness auto
termination by (relation "measure (\<lambda>(f, xs). length xs)") auto

declare spec_evict.simps [simp del]

definition spec_put :: "('k, 'v) Config \<Rightarrow> 'k \<Rightarrow> 'v \<Rightarrow> ('k \<times> 'v) list \<Rightarrow> ('k \<times> 'v) list" where
  "spec_put cfg k v xs =
     (if k \<in> fst ` set xs then spec_touch (ca_Policy cfg) k xs
      else case ca_ShouldEvict cfg of None \<Rightarrow> (k, v) # xs | Some f \<Rightarrow> spec_evict f ((k, v) # xs))"

definition spec_del :: "'k \<Rightarrow> ('k \<times> 'v) list \<Rightarrow> ('k \<times> 'v) list" where
  "spec_del k xs = filter (\<lambda>p. fst p \<noteq> k) xs"

lemma spec_evict_Nil [simp]: "spec_evict f [] = []"
  by (simp add: spec_evict.simps)

lemma spec_evict_prefix: "\<exists>n. spec_evict f xs = take n xs"
proof (induction f xs rule: spec_evict.induct)
  case (1 f xs)
  then show ?case
    by (subst spec_evict.simps) (auto simp: butlast_conv_take take_take intro: exI [of _ "length xs"])
qed

lemma spec_evict_length: "length (spec_evict (\<lambda>n k v. c < n) xs) = min c (length xs)"
proof (induction "\<lambda>n (k :: 'a) (v :: 'b). c < n" xs rule: spec_evict.induct)
  case (1 xs)
  then show ?case by (subst spec_evict.simps) auto
qed

lemma spec_del_last:
  assumes "distinct (map fst xs)" "xs \<noteq> []"
  shows "spec_del (fst (last xs)) xs = butlast xs"
  using assms by (induction xs rule: rev_induct) (auto simp: spec_del_def filter_id_conv image_iff)

text \<open>The contents of a cache in list order, and what makes its list and its storage agree.\<close>

definition cache_view :: "('k, 'v, 's) baseCache \<Rightarrow> ('k \<times> 'v) list" where
  "cache_view bc = map (\<lambda>e. (e_key e, e_value e)) (bc_ll bc)"

definition entry_map :: "('k, 'v) entry list \<Rightarrow> 'k \<Rightarrow> ('k, 'v) entry option" where
  "entry_map es = map_of (map (\<lambda>e. (e_key e, e)) es)"

definition cache_ok ::
  "('s \<Rightarrow> bool) \<Rightarrow> ('s \<Rightarrow> 'k \<Rightarrow> ('k, 'v) entry option) \<Rightarrow> ('k, 'v, 's) baseCache \<Rightarrow> bool" where
  "cache_ok sinv sabs bc \<longleftrightarrow> sinv (bc_storage bc) \<and> distinct (map e_key (bc_ll bc)) \<and> distinct (map e_le (bc_ll bc)) \<and>
     (\<forall>e \<in> set (bc_ll bc). \<exists>i < bc_fresh bc. e_le e = Some i) \<and>
     sabs (bc_storage bc) = entry_map (bc_ll bc)"

lemma cache_okD:
  assumes "cache_ok sinv sabs bc"
  shows "sinv (bc_storage bc)" "distinct (map e_key (bc_ll bc))" "distinct (map e_le (bc_ll bc))"
    "e \<in> set (bc_ll bc) \<Longrightarrow> \<exists>i < bc_fresh bc. e_le e = Some i" "sabs (bc_storage bc) = entry_map (bc_ll bc)"
  using assms by (simp_all add: cache_ok_def)

lemma newBaseCache_view [simp]: "cache_view (newBaseCache s) = []"
  by (simp add: cache_view_def newBaseCache_def)

lemma entry_map_Some: "distinct (map e_key es) \<Longrightarrow> entry_map es k = Some e \<longleftrightarrow> e \<in> set es \<and> e_key e = k"
  by (auto simp: entry_map_def map_of_eq_Some_iff comp_def)

lemma entry_map_None: "entry_map es k = None \<longleftrightarrow> k \<notin> e_key ` set es"
  by (auto simp: entry_map_def map_of_eq_None_iff image_image)

lemma entry_map_value: "map_option e_value (entry_map es k) = map_of (map (\<lambda>e. (e_key e, e_value e)) es) k"
  by (induction es) (auto simp: entry_map_def)

lemma entry_map_filter: "entry_map (filter (\<lambda>x. e_key x \<noteq> k) es) = (entry_map es)(k := None)"
  by (induction es) (auto simp: entry_map_def)

lemma entry_map_Cons: "entry_map (e # es) = (entry_map es)(e_key e \<mapsto> e)"
  by (simp add: entry_map_def)

lemma entry_map_dom: "dom (entry_map es) = e_key ` set es"
  by (simp add: entry_map_def dom_map_of_conv_image_fst image_image)

lemma entry_map_mset:
  assumes "mset es = mset es'" "distinct (map e_key es)"
  shows "entry_map es = entry_map es'"
proof
  have "set es = set es'" "distinct (map e_key es')"
    using assms by (auto dest: mset_eq_setD) (metis assms mset_eq_imp_distinct_iff mset_map)
  then show "entry_map es k = entry_map es' k" for k
    using assms(2) entry_map_Some [of es k] entry_map_Some [of es' k] entry_map_None [of es k] entry_map_None [of es' k]
    by (metis option.exhaust)
qed

text \<open>In a consistent cache the list element of an entry and its key select the same entries.\<close>

lemma cache_ok_select:
  assumes "cache_ok sinv sabs bc" "e \<in> set (bc_ll bc)" "x \<in> set (bc_ll bc)"
  shows "e_le x = e_le e \<longleftrightarrow> e_key x = e_key e"
proof -
  have "inj_on e_le (set (bc_ll bc))" "inj_on e_key (set (bc_ll bc))"
    using assms(1) by (simp_all add: cache_ok_def distinct_map)
  then show ?thesis using assms(2,3) by (auto dest: inj_onD)
qed

lemma cache_ok_filter:
  assumes "cache_ok sinv sabs bc" "e \<in> set (bc_ll bc)" "e_le e = Some i"
  shows "filter (\<lambda>x. e_le x = Some i) (bc_ll bc) = filter (\<lambda>x. e_key x = e_key e) (bc_ll bc)"
    "filter (\<lambda>x. e_le x \<noteq> Some i) (bc_ll bc) = filter (\<lambda>x. e_key x \<noteq> e_key e) (bc_ll bc)"
  using cache_ok_select [OF assms(1,2)] assms(3) by (auto intro!: filter_cong)

section \<open>The contract of a storage\<close>

locale cache_storage =
  fixes st :: "('k, 'v, 's) storage" and sinv :: "'s \<Rightarrow> bool" and sabs :: "'s \<Rightarrow> 'k \<Rightarrow> ('k, 'v) entry option"
    and K :: "'k set"
  assumes get_law: "sinv s \<Longrightarrow> k \<in> K \<Longrightarrow> st_get st k s = Inr (sabs s k)"
    and put_law: "sinv s \<Longrightarrow> e_key e \<in> K \<Longrightarrow> sabs s (e_key e) = None \<Longrightarrow>
      sinv (st_put st e s) \<and> sabs (st_put st e s) = (sabs s)(e_key e \<mapsto> e)"
    and del_law: "sinv s \<Longrightarrow> k \<in> K \<Longrightarrow> sinv (st_del st k s) \<and> sabs (st_del st k s) = (sabs s)(k := None)"
    and size_law: "sinv s \<Longrightarrow> finite (dom (sabs s)) \<and> st_size st s = card (dom (sabs s))"
    and dom_law: "sinv s \<Longrightarrow> dom (sabs s) \<subseteq> K"
begin

lemma ok_key: "cache_ok sinv sabs bc \<Longrightarrow> e \<in> set (bc_ll bc) \<Longrightarrow> e_key e \<in> K"
  using dom_law [of "bc_storage bc"] entry_map_dom [of "bc_ll bc"] by (auto simp: cache_ok_def)

lemma ok_find:
  assumes "cache_ok sinv sabs bc" "k \<in> K"
  shows "st_get st k (bc_storage bc) = Inr (entry_map (bc_ll bc) k)"
  using cache_okD(5) [OF assms(1)] get_law [OF cache_okD(1) [OF assms(1)] assms(2)] by simp

lemma ok_get:
  assumes "cache_ok sinv sabs bc" "k \<in> K"
  shows "st_get st k (bc_storage bc) = Inr (Some e) \<longleftrightarrow> e \<in> set (bc_ll bc) \<and> e_key e = k"
    "st_get st k (bc_storage bc) = Inr None \<longleftrightarrow> k \<notin> fst ` set (cache_view bc)"
    "map_option e_value (entry_map (bc_ll bc) k) = map_of (cache_view bc) k"
proof -
  note ok = cache_okD [OF assms(1)]
  note g = ok_find [OF assms]
  show "st_get st k (bc_storage bc) = Inr (Some e) \<longleftrightarrow> e \<in> set (bc_ll bc) \<and> e_key e = k"
    by (simp add: g entry_map_Some [OF ok(2)])
  show "st_get st k (bc_storage bc) = Inr None \<longleftrightarrow> k \<notin> fst ` set (cache_view bc)"
    by (simp add: g entry_map_None cache_view_def image_image)
  show "map_option e_value (entry_map (bc_ll bc) k) = map_of (cache_view bc) k"
    by (simp add: g entry_map_value cache_view_def)
qed

lemma ok_size: 
  assumes "cache_ok sinv sabs bc"
  shows "st_size st (bc_storage bc) = length (bc_ll bc)"
proof -
  note ok = cache_okD [OF assms]
  have "st_size st (bc_storage bc) = card (set (map e_key (bc_ll bc)))"
    using size_law [OF ok(1)] ok(5) by (simp add: entry_map_dom)
  also have "\<dots> = length (bc_ll bc)" using distinct_card [OF ok(2)] by simp
  finally show ?thesis .
qed

lemma ok_use:
  assumes "cache_ok sinv sabs bc" "e \<in> set (bc_ll bc)"
  shows "\<exists>bc'. baseCache_use cfg bc e = Inr bc' \<and> cache_ok sinv sabs bc' \<and>
    cache_view bc' = spec_touch (ca_Policy cfg) (e_key e) (cache_view bc)"
proof (cases "ca_Policy cfg = CacheLRU")
  case True
  note ok = cache_okD [OF assms(1)]
  obtain i where i: "e_le e = Some i" using ok(4) [OF assms(2)] by blast
  let ?P = "\<lambda>x. e_key x = e_key e" and ?ll = "bc_ll bc"
  let ?ll' = "filter ?P ?ll @ filter (\<lambda>x. \<not> ?P x) ?ll"
  have use: "baseCache_use cfg bc e = Inr (bc\<lparr>bc_ll := ?ll'\<rparr>)"
    using True i by (simp add: baseCache_use_def list_MoveToFront_def cache_ok_filter [OF assms i])
  have perm: "mset ?ll = mset ?ll'" by simp
  have "distinct (map e_key ?ll')" "distinct (map e_le ?ll')"
    using ok(2,3) perm mset_eq_imp_distinct_iff [of "map e_key ?ll" "map e_key ?ll'"]
      mset_eq_imp_distinct_iff [of "map e_le ?ll" "map e_le ?ll'"] by (simp_all only: mset_map)
  moreover have "\<forall>x \<in> set ?ll'. \<exists>i < bc_fresh bc. e_le x = Some i" using ok(4) by auto
  ultimately have "cache_ok sinv sabs (bc\<lparr>bc_ll := ?ll'\<rparr>)"
    using ok(1,5) entry_map_mset [OF perm ok(2)] by (simp add: cache_ok_def)
  then show ?thesis
    using use True by (simp add: cache_view_def spec_touch_def filter_map comp_def)
qed (use assms in \<open>simp add: baseCache_use_def spec_touch_def\<close>)

lemma ok_removeEntry:
  assumes "cache_ok sinv sabs bc" "e \<in> set (bc_ll bc)" "ca_Policy cfg \<noteq> CacheNone"
  shows "\<exists>bc'. baseCache_removeEntry st cfg bc e = Inr bc' \<and> cache_ok sinv sabs bc' \<and>
    cache_view bc' = spec_del (e_key e) (cache_view bc)"
proof -
  note ok = cache_okD [OF assms(1)]
  obtain i where i: "e_le e = Some i" using ok(4) [OF assms(2)] by blast
  show ?thesis
    using ok assms(3) i del_law [OF ok(1) ok_key [OF assms(1,2)]]
    by (auto simp: baseCache_removeEntry_def list_Remove_def cache_ok_filter [OF assms(1,2) i] cache_ok_def
        cache_view_def spec_del_def filter_map comp_def distinct_map_filter entry_map_filter)
qed

text \<open>The eviction loop never meets an empty list, and stops where the specification does.\<close>

lemma ok_evict:
  assumes "cache_ok sinv sabs bc" "ca_Policy cfg \<noteq> CacheNone"
  shows "\<exists>bc'. baseCache_evict st cfg f bc = Inr bc' \<and> cache_ok sinv sabs bc' \<and>
    cache_view bc' = spec_evict f (cache_view bc)"
  using assms(1)
proof (induction "length (bc_ll bc)" arbitrary: bc rule: less_induct)
  case less
  note ok = cache_okD [OF less.prems]
  show ?case
  proof (cases "bc_ll bc = []")
    case True
    then show ?thesis
      using less.prems ok_size [OF less.prems]
      by (simp add: baseCache_evict.simps [of st] cache_view_def)
  next
    case False
    let ?e = "last (bc_ll bc)"
    have e: "?e \<in> set (bc_ll bc)" using False by simp
    have v: "cache_view bc \<noteq> []" "last (cache_view bc) = (e_key ?e, e_value ?e)" "length (cache_view bc) = length (bc_ll bc)"
      using False by (simp_all add: cache_view_def last_map)
    obtain bc' where bc': "baseCache_removeEntry st cfg bc ?e = Inr bc'" "cache_ok sinv sabs bc'"
      "cache_view bc' = spec_del (e_key ?e) (cache_view bc)"
      using ok_removeEntry [OF less.prems e assms(2)] by blast
    have "cache_view bc' = butlast (cache_view bc)"
      using bc'(3) spec_del_last [OF _ v(1)] ok(2) v(2) by (simp add: cache_view_def comp_def)
    then show ?thesis
      using less.hyps [OF removeEntry_shrinks [OF bc'(1) assms(2) False] bc'(2)] less.prems bc' v False
        ok_size [OF less.prems] assms(2)
      by (simp add: baseCache_evict.simps [of st _ _ bc] spec_evict.simps [of f "cache_view bc"] Let_def)
  qed
qed

lemma ok_new: "sinv s \<Longrightarrow> sabs s = Map.empty \<Longrightarrow> cache_ok sinv sabs (newBaseCache s)"
  by (simp add: newBaseCache_def cache_ok_def entry_map_def)

lemma ok_put:
  assumes "cache_ok sinv sabs bc" "ca_Policy cfg \<noteq> CacheNone" "k \<in> K"
  shows "\<exists>bc'. baseCache_Put st cfg bc k v = Inr bc' \<and> cache_ok sinv sabs bc' \<and>
    cache_view bc' = spec_put cfg k v (cache_view bc)"
proof (cases "entry_map (bc_ll bc) k")
  case None
  note ok = cache_okD [OF assms(1)] and find = ok_find [OF assms(1,3), unfolded None]
  let ?e = "\<lparr>e_key = k, e_value = v, e_le = Some (bc_fresh bc)\<rparr>"
  let ?bc = "bc\<lparr>bc_ll := ?e # bc_ll bc, bc_fresh := Suc (bc_fresh bc), bc_storage := st_put st ?e (bc_storage bc)\<rparr>"
  have k: "k \<notin> fst ` set (cache_view bc)" using ok_get(2) [OF assms(1,3)] find by simp
  then have k': "k \<notin> e_key ` set (bc_ll bc)" by (simp add: cache_view_def image_image)
  have "Some (bc_fresh bc) \<notin> e_le ` set (bc_ll bc)" using ok(4) by fastforce
  moreover have "sinv (st_put st ?e (bc_storage bc)) \<and>
      sabs (st_put st ?e (bc_storage bc)) = (sabs (bc_storage bc))(k \<mapsto> ?e)"
    using put_law [OF ok(1), of ?e] k' ok(5) assms(3) by (simp add: entry_map_None)
  moreover have "\<exists>i < Suc (bc_fresh bc). e_le x = Some i" if "x \<in> set (bc_ll bc)" for x
    using ok(4) [OF that] less_SucI by blast
  ultimately have new: "cache_ok sinv sabs ?bc"
    using ok(2,3,5) k' by (auto simp: cache_ok_def entry_map_Cons)
  have view: "cache_view ?bc = (k, v) # cache_view bc" by (simp add: cache_view_def)
  show ?thesis
    using assms(2) find k new ok_evict [OF new assms(2)] view
    by (auto simp: baseCache_Put_def spec_put_def Let_def split: option.splits)
next
  case (Some e)
  note find = ok_find [OF assms(1,3), unfolded Some]
  then have e: "e \<in> set (bc_ll bc)" "e_key e = k" using ok_get(1) [OF assms(1,3)] by auto
  then have "k \<in> fst ` set (cache_view bc)" by (force simp: cache_view_def)
  then show ?thesis using find ok_use [OF assms(1) e(1), of cfg] e(2) by (auto simp: baseCache_Put_def spec_put_def)
qed

lemma ok_touch_absent:
  assumes "cache_ok sinv sabs bc" "k \<in> K" "st_get st k (bc_storage bc) = Inr None"
  shows "spec_touch pol k (cache_view bc) = cache_view bc" "spec_del k (cache_view bc) = cache_view bc"
proof -
  have "\<forall>p \<in> set (cache_view bc). fst p \<noteq> k" using ok_get(2) [OF assms(1,2)] assms(3) by auto
  then show "spec_touch pol k (cache_view bc) = cache_view bc" "spec_del k (cache_view bc) = cache_view bc"
    by (auto simp: spec_touch_def spec_del_def filter_True intro!: filter_False)
qed

lemma ok_Get:
  assumes "cache_ok sinv sabs bc" "k \<in> K"
  shows "\<exists>bc'. baseCache_Get st cfg bc k = Inr (map_of (cache_view bc) k, bc') \<and> cache_ok sinv sabs bc' \<and>
    cache_view bc' = spec_touch (ca_Policy cfg) k (cache_view bc)"
proof (cases "entry_map (bc_ll bc) k")
  case None
  note find = ok_find [OF assms, unfolded None]
  show ?thesis using find assms None ok_touch_absent [OF assms find] ok_get(3) [OF assms] by (auto simp: baseCache_Get_def)
next
  case (Some e)
  note find = ok_find [OF assms, unfolded Some]
  then have e: "e \<in> set (bc_ll bc)" "e_key e = k" using ok_get(1) [OF assms] by auto
  then show ?thesis
    using find Some ok_use [OF assms(1) e(1), of cfg] ok_get(3) [OF assms] by (auto simp: baseCache_Get_def)
qed

lemma ok_Del:
  assumes "cache_ok sinv sabs bc" "ca_Policy cfg \<noteq> CacheNone" "k \<in> K"
  shows "\<exists>bc'. baseCache_Del st cfg bc k = Inr bc' \<and> cache_ok sinv sabs bc' \<and> cache_view bc' = spec_del k (cache_view bc)"
proof (cases "entry_map (bc_ll bc) k")
  case None
  note find = ok_find [OF assms(1,3), unfolded None]
  show ?thesis using find assms None ok_touch_absent [OF assms(1,3) find] by (auto simp: baseCache_Del_def)
next
  case (Some e)
  note find = ok_find [OF assms(1,3), unfolded Some]
  then have e: "e \<in> set (bc_ll bc)" "e_key e = k" using ok_get(1) [OF assms(1,3)] by auto
  then show ?thesis using find ok_removeEntry [OF assms(1) e(1) assms(2)] by (simp add: baseCache_Del_def)
qed

end

section \<open>UnorderedCache keeps the contract\<close>

definition uc_ok :: "('k, 'v) hash \<Rightarrow> bool" where
  "uc_ok h \<longleftrightarrow> distinct (keys h)"

lemma uc_clear_loop_empty: "set (keys h) \<subseteq> set ks \<Longrightarrow> uc_clear_loop ks h = []"
proof (induction ks arbitrary: h)
  case (Cons k ks)
  have "set (keys (AList.delete k h)) \<subseteq> set ks" using Cons.prems by (auto simp: keys_delete)
  then show ?case using Cons.IH by simp
qed (simp add: keys_def)

interpretation uc: cache_storage UnorderedCache_storage uc_ok map_of UNIV
proof unfold_locales
  fix h :: "('k, 'v) hash" assume "uc_ok h"
  then show "finite (dom (map_of h)) \<and> st_size UnorderedCache_storage h = card (dom (map_of h))"
    using distinct_card [of "keys h"]
    by (simp add: UnorderedCache_storage_def uc_ok_def dom_map_of_conv_image_fst keys_def finite_dom_map_of)
qed (auto simp: UnorderedCache_storage_def uc_ok_def distinct_keys_update distinct_keys_delete update_conv' delete_conv')

lemma uc_new [simp]: "cache_ok uc_ok map_of NewUnorderedCache" "cache_view NewUnorderedCache = []"
  by (simp_all add: NewUnorderedCache_def uc.ok_new uc_ok_def)

text \<open>A run of operations on a cache, and what the specification says of it.\<close>

datatype ('k, 'v) cache_op = OpPut 'k 'v | OpGet 'k | OpDel 'k

fun cache_do :: "('k, 'v, 's) storage \<Rightarrow> ('k, 'v) Config \<Rightarrow> ('k, 'v, 's) baseCache \<Rightarrow> ('k, 'v) cache_op \<Rightarrow>
    ('v option \<times> ('k, 'v, 's) baseCache) go" where
  "cache_do st cfg bc (OpPut k v) = go_bind (baseCache_Put st cfg bc k v) (\<lambda>bc'. Inr (None, bc'))"
| "cache_do st cfg bc (OpGet k) = baseCache_Get st cfg bc k"
| "cache_do st cfg bc (OpDel k) = go_bind (baseCache_Del st cfg bc k) (\<lambda>bc'. Inr (None, bc'))"

fun cache_run :: "('k, 'v, 's) storage \<Rightarrow> ('k, 'v) Config \<Rightarrow> ('k, 'v) cache_op list \<Rightarrow> ('k, 'v, 's) baseCache \<Rightarrow>
    ('v option list \<times> ('k, 'v, 's) baseCache) go" where
  "cache_run st cfg [] bc = Inr ([], bc)"
| "cache_run st cfg (a # as) bc =
     go_bind (cache_do st cfg bc a) (\<lambda>(r, bc'). go_bind (cache_run st cfg as bc') (\<lambda>(rs, bc''). Inr (r # rs, bc'')))"

fun spec_do :: "('k, 'v) Config \<Rightarrow> ('k, 'v) cache_op \<Rightarrow> ('k \<times> 'v) list \<Rightarrow> 'v option \<times> ('k \<times> 'v) list" where
  "spec_do cfg (OpPut k v) xs = (None, spec_put cfg k v xs)"
| "spec_do cfg (OpGet k) xs = (map_of xs k, spec_touch (ca_Policy cfg) k xs)"
| "spec_do cfg (OpDel k) xs = (None, spec_del k xs)"

fun spec_run :: "('k, 'v) Config \<Rightarrow> ('k, 'v) cache_op list \<Rightarrow> ('k \<times> 'v) list \<Rightarrow> 'v option list \<times> ('k \<times> 'v) list" where
  "spec_run cfg [] xs = ([], xs)"
| "spec_run cfg (a # as) xs = (let (r, xs') = spec_do cfg a xs; (rs, xs'') = spec_run cfg as xs' in (r # rs, xs''))"

fun op_key :: "('k, 'v) cache_op \<Rightarrow> 'k" where
  "op_key (OpPut k v) = k"
| "op_key (OpGet k) = k"
| "op_key (OpDel k) = k"

context cache_storage
begin

lemma ok_do:
  assumes "cache_ok sinv sabs bc" "ca_Policy cfg \<noteq> CacheNone" "op_key a \<in> K"
  shows "\<exists>bc'. cache_do st cfg bc a = Inr (fst (spec_do cfg a (cache_view bc)), bc') \<and> cache_ok sinv sabs bc' \<and>
    cache_view bc' = snd (spec_do cfg a (cache_view bc))"
  using ok_put [OF assms(1,2)] ok_Get [OF assms(1)] ok_Del [OF assms(1,2)] assms(3) by (cases a) fastforce+

lemma ok_run:
  assumes "cache_ok sinv sabs bc" "ca_Policy cfg \<noteq> CacheNone" "\<forall>a \<in> set as. op_key a \<in> K"
  shows "\<exists>bc'. cache_run st cfg as bc = Inr (fst (spec_run cfg as (cache_view bc)), bc') \<and> cache_ok sinv sabs bc' \<and>
    cache_view bc' = snd (spec_run cfg as (cache_view bc))"
  using assms(1,3)
proof (induction as arbitrary: bc)
  case (Cons a as)
  obtain bc1 where bc1: "cache_do st cfg bc a = Inr (fst (spec_do cfg a (cache_view bc)), bc1)"
    "cache_ok sinv sabs bc1" "cache_view bc1 = snd (spec_do cfg a (cache_view bc))"
    using ok_do [OF Cons.prems(1) assms(2)] Cons.prems(2) by auto
  then show ?case using Cons.IH [OF bc1(2)] Cons.prems(2) by (auto simp: split_beta Let_def)
qed simp

end

section \<open>OrderedCache keeps the contract over a search tree\<close>

definition llrb_ok :: "('k, 'v, 't) llrb \<Rightarrow> ('t \<Rightarrow> bool) \<Rightarrow> ('t \<Rightarrow> 'k \<Rightarrow> ('k, 'v) entry option) \<Rightarrow> bool" where
  "llrb_ok T tinv tabs \<longleftrightarrow> tinv (tr_empty T) \<and> tabs (tr_empty T) = Map.empty \<and>
     (\<forall>t. tinv t \<longrightarrow> finite (dom (tabs t)) \<and> tr_Len T t = card (dom (tabs t)) \<and>
       (\<forall>k. tr_Get T k t = tabs t k \<and> tinv (tr_Delete T k t) \<and> tabs (tr_Delete T k t) = (tabs t)(k := None)) \<and>
       (\<forall>e. tabs t (e_key e) = None \<longrightarrow> tinv (tr_Insert T e t) \<and> tabs (tr_Insert T e t) = (tabs t)(e_key e \<mapsto> e)))"

lemma llrb_cache_storage: "llrb_ok T tinv tabs \<Longrightarrow> cache_storage (OrderedCache_storage T) tinv tabs UNIV"
  by unfold_locales (auto simp: llrb_ok_def OrderedCache_storage_def)

text \<open>An instance of the parameter: an association list of entries.\<close>

definition assoc_tree :: "('k, 'v, ('k, 'v) hash) llrb" where
  "assoc_tree = \<lparr>tr_Insert = (\<lambda>e t. AList.update (e_key e) e t), tr_Get = (\<lambda>k t. map_of t k),
     tr_Delete = AList.delete, tr_Len = length, tr_items = map snd, tr_range = (\<lambda>lo hi t. []),
     tr_Floor = (\<lambda>k t. map_of t k), tr_Ceil = (\<lambda>k t. map_of t k), tr_Do = (\<lambda>f t. t), tr_empty = []\<rparr>"

lemma assoc_tree_ok: "llrb_ok assoc_tree uc_ok map_of"
  using uc.size_law
  by (auto simp: llrb_ok_def assoc_tree_def uc_ok_def UnorderedCache_storage_def distinct_keys_update
      distinct_keys_delete update_conv' delete_conv' finite_dom_map_of)

section \<open>The size of a cache with a capacity\<close>

lemma spec_touch_length [simp]: "length (spec_touch pol k xs) = length xs"
  using sum_length_filter_compl [of "\<lambda>p. fst p = k" xs] by (simp add: spec_touch_def)

lemma spec_do_size:
  assumes "ca_ShouldEvict cfg = Some (\<lambda>n k v. c < n)" "length xs \<le> c"
  shows "length (snd (spec_do cfg a xs)) \<le> c"
proof (cases a)
  case (OpPut k v)
  then show ?thesis using assms by (simp add: spec_put_def spec_evict_length)
next
  case (OpDel k)
  then show ?thesis using assms(2) length_filter_le [of "\<lambda>p. fst p \<noteq> k" xs] by (simp add: spec_del_def del: length_filter_le)
qed (use assms in simp)

lemma spec_run_size:
  "ca_ShouldEvict cfg = Some (\<lambda>n k v. c < n) \<Longrightarrow> length xs \<le> c \<Longrightarrow> length (snd (spec_run cfg as xs)) \<le> c"
proof (induction as arbitrary: xs)
  case (Cons a as)
  then show ?case using spec_do_size [of cfg c xs a] by (simp add: split_beta Let_def)
qed simp

section \<open>Properties\<close>

text \<open>C32: An \<open>UnorderedCache\<close> under \<open>CacheLRU\<close> or \<open>CacheFIFO\<close> implements the list of its pairs in the
  order of the policy. Every sequence of \<open>Put\<close>, \<open>Get\<close> and \<open>Del\<close> on a new cache, with any eviction
  callback, runs without a panic, answers every \<open>Get\<close> as the list does, and leaves the list's contents,
  with as many entries in the hash map.\<close>

theorem unordered_cache_refines:
  assumes "ca_Policy cfg \<noteq> CacheNone"
  shows "\<exists>bc. cache_run UnorderedCache_storage cfg as NewUnorderedCache = Inr (fst (spec_run cfg as []), bc) \<and>
    cache_view bc = snd (spec_run cfg as []) \<and>
    baseCache_Size UnorderedCache_storage bc = length (snd (spec_run cfg as []))"
proof -
  obtain bc where bc: "cache_run UnorderedCache_storage cfg as NewUnorderedCache = Inr (fst (spec_run cfg as []), bc)"
    "cache_ok uc_ok map_of bc" "cache_view bc = snd (spec_run cfg as [])"
    using uc.ok_run [OF uc_new(1) assms, of as] by auto
  have "length (bc_ll bc) = length (cache_view bc)" by (simp add: cache_view_def)
  then show ?thesis using bc uc.ok_size [OF bc(2)] by (auto simp: baseCache_Size_def)
qed

theorem unordered_cache_refines_witness:
  "\<exists>bc. cache_run UnorderedCache_storage \<lparr>ca_Policy = CacheLRU, ca_ShouldEvict = Some (\<lambda>n k v. 2 < n), ca_OnEvict = True\<rparr>
     [OpPut 1 10, OpPut 2 20, OpGet 1, OpPut 3 30, OpGet 2, OpGet 1] NewUnorderedCache =
       Inr ([None, None, Some 10, None, None, Some 10], bc) \<and> cache_view bc = [(1 :: nat, 10 :: nat), (3, 30)]"
proof -
  let ?cfg = "\<lparr>ca_Policy = CacheLRU, ca_ShouldEvict = Some (\<lambda>n (k :: nat) (v :: nat). 2 < n), ca_OnEvict = True\<rparr>"
  let ?as = "[OpPut 1 10, OpPut 2 20, OpGet 1, OpPut 3 30, OpGet 2, OpGet (1 :: nat)] :: (nat, nat) cache_op list"
  have "spec_run ?cfg ?as [] = ([None, None, Some 10, None, None, Some 10], [(1, 10), (3, 30)])"
    by code_simp
  then show ?thesis using unordered_cache_refines [of ?cfg ?as] by auto
qed

text \<open>A cache whose callback evicts above \<open>c\<close> entries never holds more than \<open>c\<close> after an
  operation.\<close>

theorem cache_capacity:
  assumes "ca_Policy cfg \<noteq> CacheNone" "ca_ShouldEvict cfg = Some (\<lambda>n k v. c < n)"
    "cache_run UnorderedCache_storage cfg as NewUnorderedCache = Inr (rs, bc)"
  shows "baseCache_Size UnorderedCache_storage bc \<le> c"
proof -
  have bc: "cache_ok uc_ok map_of bc" "cache_view bc = snd (spec_run cfg as [])"
    using uc.ok_run [OF uc_new(1) assms(1), of as] assms(3) by auto
  then have "length (bc_ll bc) \<le> c" using spec_run_size [OF assms(2), of "[]" as] by (simp add: cache_view_def flip: bc(2))
  then show ?thesis using uc.ok_size [OF bc(1)] by (simp add: baseCache_Size_def)
qed

theorem cache_capacity_witness:
  "\<exists>rs bc. cache_run UnorderedCache_storage \<lparr>ca_Policy = CacheFIFO, ca_ShouldEvict = Some (\<lambda>n k v. 1 < n), ca_OnEvict = False\<rparr>
     [OpPut (1 :: nat) (10 :: nat), OpPut 2 20] NewUnorderedCache = Inr (rs, bc) \<and>
     bc_ll bc \<noteq> [] \<and> baseCache_Size UnorderedCache_storage bc \<le> 1"
proof -
  let ?cfg = "\<lparr>ca_Policy = CacheFIFO, ca_ShouldEvict = Some (\<lambda>n (k :: nat) (v :: nat). 1 < n), ca_OnEvict = False\<rparr>"
  have "(case cache_run UnorderedCache_storage ?cfg [OpPut 1 10, OpPut 2 20] NewUnorderedCache of
     Inl _ \<Rightarrow> False | Inr (rs, bc) \<Rightarrow> bc_ll bc \<noteq> [])" by code_simp
  then obtain rs bc where R: "cache_run UnorderedCache_storage ?cfg [OpPut 1 10, OpPut 2 20] NewUnorderedCache = Inr (rs, bc)"
    "bc_ll bc \<noteq> []" by (auto split: sum.splits)
  have "baseCache_Size UnorderedCache_storage bc \<le> 1" by (rule cache_capacity [OF _ _ R(1)]) simp_all
  then show ?thesis using R by blast
qed

text \<open>An \<open>OrderedCache\<close> behaves as the list of its pairs too, for every tree that keeps the
  contract of a search tree: a lookup finds what was inserted and not deleted since, and \<open>Len\<close>
  counts the elements.\<close>

theorem ordered_cache_refines:
  assumes "llrb_ok T tinv tabs" "ca_Policy cfg \<noteq> CacheNone"
  shows "\<exists>bc. cache_run (OrderedCache_storage T) cfg as (NewOrderedCache T) = Inr (fst (spec_run cfg as []), bc) \<and>
    cache_view bc = snd (spec_run cfg as []) \<and>
    baseCache_Size (OrderedCache_storage T) bc = length (snd (spec_run cfg as []))"
proof -
  note S = llrb_cache_storage [OF assms(1)]
  have new: "cache_ok tinv tabs (NewOrderedCache T)" "cache_view (NewOrderedCache T) = []"
    using cache_storage.ok_new [OF S, of "tr_empty T"] assms(1) by (simp_all add: NewOrderedCache_def llrb_ok_def)
  obtain bc where bc: "cache_run (OrderedCache_storage T) cfg as (NewOrderedCache T) = Inr (fst (spec_run cfg as []), bc)"
    "cache_ok tinv tabs bc" "cache_view bc = snd (spec_run cfg as [])"
    using cache_storage.ok_run [OF S new(1) assms(2), of as] new(2) by auto
  have "length (bc_ll bc) = length (cache_view bc)" by (simp add: cache_view_def)
  then show ?thesis using bc cache_storage.ok_size [OF S bc(2)] by (auto simp: baseCache_Size_def)
qed

theorem ordered_cache_refines_witness:
  "\<exists>bc. cache_run (OrderedCache_storage (assoc_tree :: (nat, nat, (nat, nat) hash) llrb))
     \<lparr>ca_Policy = CacheLRU, ca_ShouldEvict = Some (\<lambda>n k v. 2 < n), ca_OnEvict = True\<rparr>
     [OpPut 1 10, OpPut 2 20, OpPut 3 30, OpGet 1] (NewOrderedCache assoc_tree) = Inr ([None, None, None, None], bc)"
proof -
  let ?cfg = "\<lparr>ca_Policy = CacheLRU, ca_ShouldEvict = Some (\<lambda>n (k :: nat) (v :: nat). 2 < n), ca_OnEvict = True\<rparr>"
  let ?as = "[OpPut 1 10, OpPut 2 20, OpPut 3 30, OpGet 1] :: (nat, nat) cache_op list"
  have "spec_run ?cfg ?as [] = ([None, None, None, None], [(3, 30), (2, 20)])" by code_simp
  then show ?thesis using ordered_cache_refines [OF assoc_tree_ok, of ?cfg ?as] by auto
qed

text \<open>\<open>Clear\<close> empties the storage but not the list of entries, so an entry put before a \<open>Clear\<close>
  stays in line for eviction, and evicting it deletes the entry put under its key since. With room
  for two entries, key 1 is put and the cache cleared; then 2, 1 and 3 are put. The cache should
  now hold 3 and 1; it evicts the old 1 and with it the current one, and holds 3 and 2.\<close>

theorem clear_loses_live_entry:
  "(case cache_run UnorderedCache_storage \<lparr>ca_Policy = CacheLRU, ca_ShouldEvict = Some (\<lambda>n k v. 2 < n), ca_OnEvict = True\<rparr>
      [OpPut 1 10] NewUnorderedCache of
      Inl _ \<Rightarrow> False
    | Inr (_, bc) \<Rightarrow>
        (case cache_run UnorderedCache_storage \<lparr>ca_Policy = CacheLRU, ca_ShouldEvict = Some (\<lambda>n k v. 2 < n), ca_OnEvict = True\<rparr>
          [OpPut 2 20, OpPut (1 :: nat) (11 :: nat), OpPut 3 30, OpGet 1, OpGet 2] (baseCache_Clear UnorderedCache_storage bc) of
           Inl _ \<Rightarrow> False
         | Inr (rs, bc') \<Rightarrow> rs = [None, None, None, None, Some 20] \<and> bc_evicted bc' = [(1, 10)]))"
  by code_simp

end
