(* ===== verification/IntervalCache.thy ===== *)
theory IntervalCache
  imports CacheSpec "HOL-Library.Word"
begin

text \<open>
  \<open>IntervalCache\<close> of \<open>src/util/cache/cache.go\<close>: a cache keyed by intervals, over an interval tree.
  The tree of \<open>github.com/biogo/store/interval\<close> is a parameter. It asks a query whether it overlaps
  a range; the dynamic type of that range is a constructor of \<open>range\<close>, because
  \<open>IntervalKey.Overlap\<close> asserts it to be \<open>*IntervalKey\<close> and panics on an \<open>*entry\<close>. Keys are compared
  by their \<open>id\<close>, which \<open>NewKey\<close> takes from a counter of 64 bits.
\<close>

section \<open>Keys\<close>

record 'c IntervalKey =
  ik_id :: "64 word"
  ik_start :: 'c
  ik_end :: 'c

type_synonym ('c, 'v) ientry = "('c IntervalKey, 'v) entry"

datatype ('c, 'v) range = RangeKey "'c IntervalKey" | RangeEntry "('c, 'v) ientry"

definition IntervalKey_Overlap :: "('c :: linorder) IntervalKey \<Rightarrow> ('c, 'v) range \<Rightarrow> bool go" where
  "IntervalKey_Overlap ik r =
     (case r of
        RangeKey k \<Rightarrow> Inr (ik_start ik < ik_end k \<and> ik_start k < ik_end ik)
      | RangeEntry _ \<Rightarrow> Inl TypeAssertion)"

definition IntervalKey_SetStart :: "'c \<Rightarrow> 'c IntervalKey \<Rightarrow> 'c IntervalKey" where
  "IntervalKey_SetStart start ik = ik\<lparr>ik_start := start\<rparr>"

definition IntervalKey_SetEnd :: "'c \<Rightarrow> 'c IntervalKey \<Rightarrow> 'c IntervalKey" where
  "IntervalKey_SetEnd e ik = ik\<lparr>ik_end := e\<rparr>"

definition IntervalCache_NewKey :: "'c \<Rightarrow> 'c \<Rightarrow> 64 word \<Rightarrow> 'c IntervalKey \<times> 64 word" where
  "IntervalCache_NewKey start e alloc =
     (let alloc' = alloc + 1 in (\<lparr>ik_id = alloc', ik_start = start, ik_end = e\<rparr>, alloc'))"

text \<open>The methods an entry gives the tree.\<close>

definition entry_ID :: "('c, 'v) ientry \<Rightarrow> 64 word" where
  "entry_ID e = ik_id (e_key e)"

definition entry_Start :: "('c, 'v) ientry \<Rightarrow> 'c" where
  "entry_Start e = ik_start (e_key e)"

definition entry_End :: "('c, 'v) ientry \<Rightarrow> 'c" where
  "entry_End e = ik_end (e_key e)"

definition entry_NewMutable :: "('c, 'v) ientry \<Rightarrow> 'c IntervalKey" where
  "entry_NewMutable e = (let ik = e_key e in \<lparr>ik_id = ik_id ik, ik_start = ik_start ik, ik_end = ik_end ik\<rparr>)"

definition entry_Overlap :: "('c :: linorder, 'v) ientry \<Rightarrow> ('c, 'v) range \<Rightarrow> bool go" where
  "entry_Overlap e r = IntervalKey_Overlap (e_key e) r"

section \<open>The tree and the storage\<close>

text \<open>The operations of the interval tree, over a state \<open>'t\<close>. \<open>it_Insert\<close> and \<open>it_Delete\<close> return
  whether there was an error; \<open>it_Get\<close> is given the query's \<open>Overlap\<close> method; \<open>it_items\<close> is what
  \<open>Do\<close> visits, in order, and \<open>it_Do\<close> is \<open>Do\<close> with a callback that changes the tree.\<close>

record ('c, 'v, 't) itree =
  it_Insert :: "('c, 'v) ientry \<Rightarrow> 't \<Rightarrow> bool \<times> 't"
  it_Delete :: "'c IntervalKey \<Rightarrow> 't \<Rightarrow> bool \<times> 't"
  it_Get :: "(('c, 'v) range \<Rightarrow> bool go) \<Rightarrow> 't \<Rightarrow> ('c, 'v) ientry list go"
  it_Len :: "'t \<Rightarrow> nat"
  it_items :: "'t \<Rightarrow> ('c, 'v) ientry list"
  it_Do :: "(('c, 'v) ientry \<Rightarrow> 't \<Rightarrow> bool \<times> 't) \<Rightarrow> 't \<Rightarrow> 't"
  it_empty :: 't

definition IntervalCache_put :: "('c, 'v, 't) itree \<Rightarrow> ('c, 'v) ientry \<Rightarrow> 't \<Rightarrow> 't" where
  "IntervalCache_put T e t = (let (err, t') = it_Insert T e t in t')"

definition IntervalCache_get ::
  "('c :: linorder, 'v, 't) itree \<Rightarrow> 'c IntervalKey \<Rightarrow> 't \<Rightarrow> ('c, 'v) ientry option go" where
  "IntervalCache_get T ik t =
     go_bind (it_Get T (IntervalKey_Overlap ik) t) (\<lambda>es. Inr (find (\<lambda>e. entry_ID e = ik_id ik) es))"

definition IntervalCache_del :: "('c, 'v, 't) itree \<Rightarrow> 'c IntervalKey \<Rightarrow> 't \<Rightarrow> 't" where
  "IntervalCache_del T key t = (let (err, t') = it_Delete T key t in t')"

definition IntervalCache_clear :: "('c, 'v, 't) itree \<Rightarrow> 't \<Rightarrow> 't" where
  "IntervalCache_clear T t = it_Do T (\<lambda>e t'. (False, IntervalCache_del T (e_key e) t')) t"

definition IntervalCache_storage :: "('c :: linorder, 'v, 't) itree \<Rightarrow> ('c IntervalKey, 'v, 't) storage" where
  "IntervalCache_storage T =
     \<lparr>st_put = IntervalCache_put T, st_get = IntervalCache_get T, st_del = IntervalCache_del T,
      st_size = it_Len T, st_clear = IntervalCache_clear T\<rparr>"

definition NewIntervalCache :: "('c, 'v, 't) itree \<Rightarrow> ('c IntervalKey, 'v, 't) baseCache" where
  "NewIntervalCache T = newBaseCache (it_empty T)"

text \<open>\<open>GetOverlap\<close> makes a key of the queried interval, and uses and returns what the tree finds.\<close>

fun IntervalCache_use_all ::
  "('c IntervalKey, 'v) Config \<Rightarrow> ('c, 'v) ientry list \<Rightarrow> ('c IntervalKey, 'v, 't) baseCache \<Rightarrow>
   (('c IntervalKey \<times> 'v) list \<times> ('c IntervalKey, 'v, 't) baseCache) go" where
  "IntervalCache_use_all cfg [] bc = Inr ([], bc)"
| "IntervalCache_use_all cfg (e # es) bc =
     go_bind (baseCache_use cfg bc e) (\<lambda>bc'.
       go_bind (IntervalCache_use_all cfg es bc') (\<lambda>(ret, bc''). Inr ((e_key e, e_value e) # ret, bc'')))"

definition IntervalCache_GetOverlap ::
  "('c :: linorder, 'v, 't) itree \<Rightarrow> ('c IntervalKey, 'v) Config \<Rightarrow> 'c \<Rightarrow> 'c \<Rightarrow> 64 word \<Rightarrow>
   ('c IntervalKey, 'v, 't) baseCache \<Rightarrow> (('c IntervalKey \<times> 'v) list \<times> ('c IntervalKey, 'v, 't) baseCache \<times> 64 word) go" where
  "IntervalCache_GetOverlap T cfg start e alloc bc =
     (let (ik, alloc') = IntervalCache_NewKey start e alloc in
      go_bind (it_Get T (IntervalKey_Overlap ik) (bc_storage bc)) (\<lambda>es.
        go_bind (IntervalCache_use_all cfg es bc) (\<lambda>(ret, bc'). Inr (ret, bc', alloc'))))"

definition IntervalCache_Do ::
  "('c, 'v, 't) itree \<Rightarrow> ('c IntervalKey, 'v) Config \<Rightarrow> ('c IntervalKey \<Rightarrow> 'v \<Rightarrow> 'u \<Rightarrow> bool \<times> 'u) \<Rightarrow>
   ('c IntervalKey, 'v, 't) baseCache \<Rightarrow> 'u \<Rightarrow> (('c IntervalKey, 'v, 't) baseCache \<times> 'u) go" where
  "IntervalCache_Do T cfg f bc u = cache_visit cfg f (it_items T (bc_storage bc)) (bc, u)"

section \<open>Keys that are made by NewKey\<close>

text \<open>The keys made by successive calls; as many as there are ids are told apart by them.\<close>

fun new_keys :: "('c \<times> 'c) list \<Rightarrow> 64 word \<Rightarrow> 'c IntervalKey list" where
  "new_keys [] alloc = []"
| "new_keys ((start, e) # ivs) alloc =
     (let (ik, alloc') = IntervalCache_NewKey start e alloc in ik # new_keys ivs alloc')"

lemma new_keys_ids: "map ik_id (new_keys ivs alloc) = map (\<lambda>i. alloc + of_nat i) [1..<Suc (length ivs)]"
proof (induction ivs alloc rule: new_keys.induct)
  case (2 start e ivs alloc)
  have "[1..<Suc (Suc (length ivs))] = 1 # map Suc [1..<Suc (length ivs)]"
    by (simp add: upt_conv_Cons map_Suc_upt del: upt_Suc)
  then show ?case using 2 by (simp add: IntervalCache_NewKey_def Let_def comp_def ac_simps del: upt_Suc)
qed simp

lemma new_keys_interval: "k \<in> set (new_keys ivs alloc) \<Longrightarrow> (ik_start k, ik_end k) \<in> set ivs"
  by (induction ivs alloc rule: new_keys.induct) (auto simp: IntervalCache_NewKey_def Let_def)

lemma new_keys_distinct:
  assumes "length ivs \<le> 2 ^ 64"
  shows "distinct (map ik_id (new_keys ivs alloc))"
proof -
  have "inj_on (of_nat :: nat \<Rightarrow> 64 word) {1..length ivs}"
  proof (rule inj_onI)
    fix i j assume ij: "i \<in> {1..length ivs}" "j \<in> {1..length ivs}" "(of_nat i :: 64 word) = of_nat j"
    then have "i mod 2 ^ 64 = j mod 2 ^ 64" by (simp add: word_of_nat_eq_iff take_bit_eq_mod)
    moreover have "x mod 2 ^ 64 = (if x = 2 ^ 64 then 0 else x)" if "x \<in> {1..length ivs}" for x
      using that assms by auto
    ultimately show "i = j" using ij(1,2) by (auto split: if_splits)
  qed
  then show ?thesis unfolding new_keys_ids by (auto simp: distinct_map inj_on_def simp del: upt_Suc)
qed

text \<open>Among mutable copies, \<open>Overlap\<close> is what its name says: two intervals that are not empty overlap when they have a point in common.\<close>

lemma overlap_common_point:
  assumes "ik_start ik < ik_end ik" "ik_start k < ik_end k"
  shows "IntervalKey_Overlap ik (RangeKey k :: ('c :: linorder, 'v) range) =
    Inr (\<exists>x. ik_start ik \<le> x \<and> x < ik_end ik \<and> ik_start k \<le> x \<and> x < ik_end k)"
proof -
  have "ik_start ik < ik_end k \<and> ik_start k < ik_end ik \<longleftrightarrow>
      (\<exists>x. ik_start ik \<le> x \<and> x < ik_end ik \<and> ik_start k \<le> x \<and> x < ik_end k)"
    using assms by (auto intro: exI [of _ "max (ik_start ik) (ik_start k)"] dest: order.strict_trans1)
  then show ?thesis by (simp add: IntervalKey_Overlap_def)
qed

section \<open>What the tree finds\<close>

text \<open>The documentation of \<open>Tree.Get\<close>: it returns elements of the tree that overlap the query according to the query's \<open>Overlap\<close> method. The elements
  that the cache puts into the tree are entries.\<close>

definition get_documented :: "('c, 'v, 't) itree \<Rightarrow> bool" where
  "get_documented T \<longleftrightarrow> (\<forall>ov t es. it_Get T ov t = Inr es \<longrightarrow> (\<forall>e \<in> set es. ov (RangeEntry e) = Inr True))"

lemma get_finds_nothing:
  assumes "get_documented T" "it_Get T (IntervalKey_Overlap ik) t = Inr es"
  shows "es = []"
proof (rule ccontr)
  assume "es \<noteq> []"
  then obtain e where "e \<in> set es" by (cases es) auto
  then have "IntervalKey_Overlap ik (RangeEntry e) = Inr True" using assms unfolding get_documented_def by blast
  then show False by (simp add: IntervalKey_Overlap_def)
qed

lemma interval_get_None: "get_documented T \<Longrightarrow> st_get (IntervalCache_storage T) k t = Inr r \<Longrightarrow> r = None"
  by (auto simp: IntervalCache_storage_def IntervalCache_get_def dest: get_finds_nothing)

lemma interval_op_None:
  assumes "get_documented T" "cache_do (IntervalCache_storage T) cfg bc a = Inr (r, bc')"
  shows "r = None"
  using assms interval_get_None [OF assms(1)]
  by (cases a) (auto simp: baseCache_Get_def split: option.splits dest!: interval_get_None [OF assms(1)])

text \<open>C33: An \<open>IntervalCache\<close> never gives back what was put into it. Over every tree that returns elements for which the query's
  \<open>Overlap\<close> says so, \<open>Get\<close> answers nothing or panics, after every sequence of operations, and so does \<open>GetOverlap\<close>: the query is an
  \<open>IntervalKey\<close>, the elements are entries, and \<open>Overlap\<close> asserts that its argument is an \<open>IntervalKey\<close>.\<close>

theorem interval_cache_never_finds:
  assumes "get_documented T"
  shows "(cache_run (IntervalCache_storage T) cfg as (NewIntervalCache T) = Inr (rs, bc) \<longrightarrow> set rs \<subseteq> {None}) \<and>
    (IntervalCache_GetOverlap T cfg start e alloc bc = Inr (ret, bc', alloc') \<longrightarrow> ret = [] \<and> bc' = bc)"
proof -
  have run: "cache_run (IntervalCache_storage T) cfg as bc0 = Inr (rs, bc) \<Longrightarrow> set rs \<subseteq> {None}" for bc0
    by (induction as arbitrary: bc0 rs) (fastforce dest: interval_op_None [OF assms])+
  have "ret = [] \<and> bc' = bc" if "IntervalCache_GetOverlap T cfg start e alloc bc = Inr (ret, bc', alloc')"
    using that by (auto simp: IntervalCache_GetOverlap_def IntervalCache_NewKey_def Let_def dest!: get_finds_nothing [OF assms])
  then show ?thesis using run by blast
qed

text \<open>A list of entries, which asks a query about each of its elements.\<close>

fun go_filter :: "('a \<Rightarrow> bool go) \<Rightarrow> 'a list \<Rightarrow> 'a list go" where
  "go_filter p [] = Inr []"
| "go_filter p (x # xs) = go_bind (p x) (\<lambda>b. go_bind (go_filter p xs) (\<lambda>ys. Inr (if b then x # ys else ys)))"

definition same_place :: "'c IntervalKey \<Rightarrow> ('c, 'v) ientry \<Rightarrow> bool" where
  "same_place k e \<longleftrightarrow> entry_ID e = ik_id k \<and> entry_Start e = ik_start k"

definition list_itree :: "('c :: linorder, 'v, ('c, 'v) ientry list) itree" where
  "list_itree =
     \<lparr>it_Insert = (\<lambda>e t. if entry_End e < entry_Start e then (True, t)
        else (False, e # filter (\<lambda>x. \<not> same_place (e_key e) x) t)),
      it_Delete = (\<lambda>k t. if ik_end k < ik_start k then (True, t) else (False, filter (\<lambda>x. \<not> same_place k x) t)),
      it_Get = (\<lambda>ov t. go_filter (\<lambda>e. ov (RangeEntry e)) t),
      it_Len = length, it_items = (\<lambda>t. t), it_Do = (\<lambda>f t. fold (\<lambda>e t'. snd (f e t')) t t), it_empty = []\<rparr>"

lemma go_filter_set: "go_filter p xs = Inr ys \<Longrightarrow> x \<in> set ys \<Longrightarrow> p x = Inr True"
  by (induction xs arbitrary: ys) (auto split: if_splits)

lemma list_itree_documented: "get_documented list_itree"
  using go_filter_set by (fastforce simp: get_documented_def list_itree_def)

text \<open>A pair is put into the cache: reading it back panics, and so does reading any other key. Before, there is nothing to find.\<close>

theorem interval_cache_never_finds_witness:
  "\<exists>bc. cache_run (IntervalCache_storage (list_itree :: (nat, nat, (nat, nat) ientry list) itree))
     \<lparr>ca_Policy = CacheLRU, ca_ShouldEvict = None, ca_OnEvict = False\<rparr>
     [OpGet \<lparr>ik_id = 2, ik_start = 1, ik_end = 3\<rparr>, OpPut \<lparr>ik_id = 2, ik_start = 1, ik_end = 3\<rparr> 10] (NewIntervalCache list_itree) = Inr ([None, None], bc) \<and>
     baseCache_Get (IntervalCache_storage list_itree) \<lparr>ca_Policy = CacheLRU, ca_ShouldEvict = None, ca_OnEvict = False\<rparr> bc
       \<lparr>ik_id = 2, ik_start = 1, ik_end = 3\<rparr> = Inl TypeAssertion"
proof -
  let ?cfg = "\<lparr>ca_Policy = CacheLRU, ca_ShouldEvict = None, ca_OnEvict = False\<rparr> :: (nat IntervalKey, nat) Config"
  let ?k = "\<lparr>ik_id = 2, ik_start = 1, ik_end = 3 :: nat\<rparr>"
  have "(case cache_run (IntervalCache_storage list_itree) ?cfg [OpGet ?k, OpPut ?k 10] (NewIntervalCache list_itree) of
      Inl _ \<Rightarrow> False | Inr (rs, bc) \<Rightarrow> length rs = 2 \<and> baseCache_Get (IntervalCache_storage list_itree) ?cfg bc ?k = Inl TypeAssertion)"
    by code_simp
  then obtain rs bc where R: "cache_run (IntervalCache_storage list_itree) ?cfg [OpGet ?k, OpPut ?k 10] (NewIntervalCache list_itree) = Inr (rs, bc)"
    "length rs = 2" "baseCache_Get (IntervalCache_storage list_itree) ?cfg bc ?k = Inl TypeAssertion"
    by (auto split: sum.splits)
  have "set rs \<subseteq> {None}" using interval_cache_never_finds [OF list_itree_documented] R(1) by blast
  then have "rs = [None, None]" using R(2) by (cases rs; cases "tl rs") auto
  then show ?thesis using R(1,3) by blast
qed

end
