(* ===== verification/Hlc.thy ===== *)
theory Hlc
  imports GlobalPb
begin

text \<open>
  The hybrid logical clock of \<open>src/util/hlc.go\<close>. \<open>Clock\<close> holds the embedded timestamp and the
  maximal offset; the reading of the physical clock is an argument of the operations that take one.
  The mutex makes each operation atomic. \<open>LogicalTime\<close> is an \<open>int32\<close> that wraps around.
\<close>

section \<open>The clock\<close>

record Clock =
  clk_Timestamp :: Timestamp
  clk_maxOffset :: int

definition NewClock :: "int \<Rightarrow> Clock" where
  "NewClock maxOffset = \<lparr>clk_Timestamp = zero_Timestamp, clk_maxOffset = maxOffset\<rparr>"

definition Clock_timestampLocked :: "Clock \<Rightarrow> Timestamp" where
  "Clock_timestampLocked c = clk_Timestamp c"

definition Clock_Now :: "Clock \<Rightarrow> int \<Rightarrow> Timestamp \<times> Clock" where
  "Clock_Now c wallTime =
     (let ts = clk_Timestamp c;
          ts' = (if wallTime > ts_WallTime ts then ts\<lparr>ts_WallTime := wallTime, ts_LogicalTime := 0\<rparr>
                 else ts\<lparr>ts_LogicalTime := wrap_int32 (ts_LogicalTime ts + 1)\<rparr>);
          c' = c\<lparr>clk_Timestamp := ts'\<rparr>
      in (Clock_timestampLocked c', c'))"

text \<open>\<open>Update\<close>; the first component of the result says whether the offset was logged as too large.\<close>

definition Clock_Update :: "Clock \<Rightarrow> int \<Rightarrow> Timestamp \<Rightarrow> bool \<times> Timestamp \<times> Clock" where
  "Clock_Update c wallTime rt =
     (let ts = clk_Timestamp c;
          (logged, ts') =
            (if wallTime > ts_WallTime rt \<and> wallTime > ts_WallTime ts then
               (False, ts\<lparr>ts_WallTime := wallTime, ts_LogicalTime := 0\<rparr>)
             else if ts_WallTime rt > ts_WallTime ts then
               (wrap_int64 (ts_WallTime rt - wallTime) > clk_maxOffset c,
                ts\<lparr>ts_WallTime := ts_WallTime rt, ts_LogicalTime := wrap_int32 (ts_LogicalTime rt + 1)\<rparr>)
             else if ts_WallTime ts > ts_WallTime rt then
               (False, ts\<lparr>ts_LogicalTime := wrap_int32 (ts_LogicalTime ts + 1)\<rparr>)
             else
               let ts1 = (if ts_LogicalTime rt > ts_LogicalTime ts
                          then ts\<lparr>ts_LogicalTime := ts_LogicalTime rt\<rparr> else ts) in
               (False, ts1\<lparr>ts_LogicalTime := wrap_int32 (ts_LogicalTime ts1 + 1)\<rparr>));
          c' = c\<lparr>clk_Timestamp := ts'\<rparr>
      in (logged, Clock_timestampLocked c', c'))"

section \<open>One clock\<close>

lemma Clock_Now_stamp [simp]: "clk_Timestamp (snd (Clock_Now c pt)) = fst (Clock_Now c pt)"
  by (simp add: Clock_Now_def Clock_timestampLocked_def Let_def)

lemma Clock_Update_stamp [simp]:
  "clk_Timestamp (snd (snd (Clock_Update c pt rt))) = fst (snd (Clock_Update c pt rt))"
  by (simp add: Clock_Update_def Clock_timestampLocked_def Let_def split: prod.splits)

definition logical_upto :: "int \<Rightarrow> Timestamp \<Rightarrow> bool" where
  "logical_upto k ts \<longleftrightarrow> 0 \<le> ts_LogicalTime ts \<and> ts_LogicalTime ts \<le> k"

lemma wrap_int32_Suc: "0 \<le> x \<Longrightarrow> x < 2 ^ 31 - 1 \<Longrightarrow> wrap_int32 (x + 1) = x + 1"
  by (simp add: in_int32_def)

lemma Clock_Now_advances:
  assumes "logical_upto k (clk_Timestamp c)" "k < 2 ^ 31 - 1"
  shows "clk_Timestamp c < fst (Clock_Now c pt)" "logical_upto (k + 1) (fst (Clock_Now c pt))"
    "pt \<le> ts_WallTime (fst (Clock_Now c pt))"
    "ts_WallTime (fst (Clock_Now c pt)) \<in> {pt, ts_WallTime (clk_Timestamp c)}"
  using assms wrap_int32_Suc [of "ts_LogicalTime (clk_Timestamp c)"]
  by (auto simp: Clock_Now_def Clock_timestampLocked_def Timestamp_less_iff logical_upto_def Let_def)

lemma Clock_Update_advances:
  assumes "logical_upto k (clk_Timestamp c)" "logical_upto k rt" "k < 2 ^ 31 - 1"
  shows "clk_Timestamp c < fst (snd (Clock_Update c pt rt))" "rt < fst (snd (Clock_Update c pt rt))"
    "logical_upto (k + 1) (fst (snd (Clock_Update c pt rt)))"
    "pt \<le> ts_WallTime (fst (snd (Clock_Update c pt rt)))"
    "ts_WallTime (fst (snd (Clock_Update c pt rt))) \<in> {pt, ts_WallTime (clk_Timestamp c), ts_WallTime rt}"
  using assms wrap_int32_Suc [of "ts_LogicalTime (clk_Timestamp c)"] wrap_int32_Suc [of "ts_LogicalTime rt"]
  by (auto simp: Clock_Update_def Clock_timestampLocked_def Timestamp_less_iff logical_upto_def Let_def)

section \<open>Clocks that exchange timestamps\<close>

text \<open>A history is a list of events: node \<open>n\<close> reads its clock, or node \<open>n\<close> receives the timestamp
  that the \<open>j\<close>th event of the history was given. \<open>hlc_run\<close> gives every event its timestamp.\<close>

datatype hlc_event = Read (ev_node: nat) (ev_phys: int) | Receive (ev_node: nat) (ev_phys: int) (ev_from: nat)

fun hlc_step :: "(nat \<Rightarrow> Clock) \<times> Timestamp list \<Rightarrow> hlc_event \<Rightarrow> (nat \<Rightarrow> Clock) \<times> Timestamp list" where
  "hlc_step (C, ts) (Read n pt) = (let (t, c) = Clock_Now (C n) pt in (C(n := c), ts @ [t]))"
| "hlc_step (C, ts) (Receive n pt j) = (let (_, t, c) = Clock_Update (C n) pt (ts ! j) in (C(n := c), ts @ [t]))"

definition hlc_run :: "int \<Rightarrow> hlc_event list \<Rightarrow> (nat \<Rightarrow> Clock) \<times> Timestamp list" where
  "hlc_run maxOffset evs = foldl hlc_step (\<lambda>_. NewClock maxOffset, []) evs"

definition hlc_stamps :: "int \<Rightarrow> hlc_event list \<Rightarrow> Timestamp list" where
  "hlc_stamps maxOffset evs = snd (hlc_run maxOffset evs)"

fun from_earlier :: "nat \<Rightarrow> hlc_event \<Rightarrow> bool" where
  "from_earlier i (Read n pt) = True"
| "from_earlier i (Receive n pt j) \<longleftrightarrow> j < i"

definition history :: "hlc_event list \<Rightarrow> bool" where
  "history evs \<longleftrightarrow> (\<forall>i < length evs. from_earlier i (evs ! i))"

inductive happens_before :: "hlc_event list \<Rightarrow> nat \<Rightarrow> nat \<Rightarrow> bool" for evs where
  program_order: "i < j \<Longrightarrow> j < length evs \<Longrightarrow> ev_node (evs ! i) = ev_node (evs ! j) \<Longrightarrow> happens_before evs i j"
| message_order: "j < length evs \<Longrightarrow> evs ! j = Receive n pt i \<Longrightarrow> happens_before evs i j"
| transitive: "happens_before evs i j \<Longrightarrow> happens_before evs j k \<Longrightarrow> happens_before evs i k"

text \<open>What the timestamps given so far satisfy.\<close>

definition hlc_ok :: "hlc_event list \<Rightarrow> (nat \<Rightarrow> Clock) \<times> Timestamp list \<Rightarrow> bool" where
  "hlc_ok evs s \<longleftrightarrow> length (snd s) = length evs \<and>
     (\<forall>n. logical_upto (int (length evs)) (clk_Timestamp (fst s n))) \<and>
     (\<forall>i < length evs. logical_upto (int (length evs)) (snd s ! i) \<and>
        snd s ! i \<le> clk_Timestamp (fst s (ev_node (evs ! i)))) \<and>
     (\<forall>i j. i < j \<and> j < length evs \<and> ev_node (evs ! i) = ev_node (evs ! j) \<longrightarrow> snd s ! i < snd s ! j) \<and>
     (\<forall>j n pt i. j < length evs \<and> evs ! j = Receive n pt i \<longrightarrow> i < j \<and> snd s ! i < snd s ! j)"

definition wall_ok :: "hlc_event list \<Rightarrow> (nat \<Rightarrow> Clock) \<times> Timestamp list \<Rightarrow> bool" where
  "wall_ok evs s \<longleftrightarrow>
     (\<forall>n. ts_WallTime (clk_Timestamp (fst s n)) \<in> insert 0 (ev_phys ` set evs)) \<and>
     (\<forall>i < length evs. ev_phys (evs ! i) \<le> ts_WallTime (snd s ! i) \<and>
        ts_WallTime (snd s ! i) \<in> insert 0 (ev_phys ` set (take (Suc i) evs)))"

lemma hlc_run_snoc: "hlc_run m (evs @ [e]) = hlc_step (hlc_run m evs) e"
  by (simp add: hlc_run_def)

lemma hlc_okD:
  assumes "hlc_ok evs (C, ts)"
  shows "length ts = length evs" "logical_upto (int (length evs)) (clk_Timestamp (C n))"
    "i < length evs \<Longrightarrow> logical_upto (int (length evs)) (ts ! i)"
    "i < length evs \<Longrightarrow> ts ! i \<le> clk_Timestamp (C (ev_node (evs ! i)))"
  using assms by (simp_all add: hlc_ok_def)

lemma hlc_step_advances:
  assumes "hlc_ok evs (C, ts)" "from_earlier (length evs) e" "length evs < 2 ^ 31 - 1"
  shows "\<exists>t c. hlc_step (C, ts) e = (C(ev_node e := c), ts @ [t]) \<and> clk_Timestamp c = t \<and>
    clk_Timestamp (C (ev_node e)) < t \<and> logical_upto (int (length evs) + 1) t \<and>
    (\<forall>n pt j. e = Receive n pt j \<longrightarrow> j < length ts \<and> ts ! j < t) \<and> ev_phys e \<le> ts_WallTime t \<and>
    ts_WallTime t \<in> insert (ev_phys e) (insert (ts_WallTime (clk_Timestamp (C (ev_node e)))) (ts_WallTime ` set ts))"
proof -
  note ok = hlc_okD [OF assms(1)]
  have k: "int (length evs) < 2 ^ 31 - 1" using assms(3) by simp
  show ?thesis
  proof (cases e)
    case (Read n pt)
    show ?thesis
      using Clock_Now_advances [OF ok(2) [of n] k, of pt] Read
      by (intro exI [of _ "fst (Clock_Now (C n) pt)"] exI [of _ "snd (Clock_Now (C n) pt)"]) (auto simp: split_beta Let_def)
  next
    case (Receive n pt j)
    then have j: "j < length evs" using assms(2) by simp
    show ?thesis
      using Clock_Update_advances [OF ok(2) [of n] ok(3) [OF j] k, of pt] Receive j ok(1)
      by (intro exI [of _ "fst (snd (Clock_Update (C n) pt (ts ! j)))"] exI [of _ "snd (snd (Clock_Update (C n) pt (ts ! j)))"])
        (auto simp: split_beta Let_def)
  qed
qed

lemma logical_upto_mono: "logical_upto k t \<Longrightarrow> k \<le> k' \<Longrightarrow> logical_upto k' t"
  by (simp add: logical_upto_def)

lemma history_snoc [simp]: "history (evs @ [e]) \<longleftrightarrow> history evs \<and> from_earlier (length evs) e"
  by (auto simp: history_def nth_append less_Suc_eq)

lemma hlc_ok_snoc:
  assumes "hlc_ok evs (C, ts)" "from_earlier (length evs) e" "length evs < 2 ^ 31 - 1"
  shows "hlc_ok (evs @ [e]) (hlc_step (C, ts) e)"
proof -
  let ?k = "int (length evs)"
  note ok = assms(1) [unfolded hlc_ok_def, simplified]
  have len: "length ts = length evs" using ok by simp
  obtain t c where st: "hlc_step (C, ts) e = (C(ev_node e := c), ts @ [t])" "clk_Timestamp c = t"
    "clk_Timestamp (C (ev_node e)) < t" "logical_upto (?k + 1) t"
    "\<And>n pt j. e = Receive n pt j \<Longrightarrow> j < length ts \<and> ts ! j < t"
    using hlc_step_advances [OF assms] by blast
  have below: "ts ! i < t" if "i < length evs" "ev_node (evs ! i) = ev_node e" for i
    using ok that st(3) by (metis order_le_less_trans)
  have earlier: "i < length evs" if "j < length evs" "evs ! j = Receive n pt i" for i j n pt
    using ok that less_trans by blast
  show ?thesis
    using ok st below len earlier
    by (auto simp: hlc_ok_def nth_append less_Suc_eq intro: logical_upto_mono order.strict_implies_order)
qed

lemma hlc_run_ok: "history evs \<Longrightarrow> length evs < 2 ^ 31 \<Longrightarrow> hlc_ok evs (hlc_run m evs)"
proof (induction evs rule: rev_induct)
  case Nil
  then show ?case by (simp add: hlc_ok_def hlc_run_def NewClock_def zero_Timestamp_def logical_upto_def)
next
  case (snoc e evs)
  then show ?case using hlc_ok_snoc [of evs "fst (hlc_run m evs)" "snd (hlc_run m evs)" e] by (simp add: hlc_run_snoc)
qed

lemma wall_ok_snoc:
  assumes "hlc_ok evs (C, ts)" "wall_ok evs (C, ts)" "from_earlier (length evs) e" "length evs < 2 ^ 31 - 1"
  shows "wall_ok (evs @ [e]) (hlc_step (C, ts) e)"
proof -
  let ?k = "int (length evs)"
  note ok = assms(1) [unfolded hlc_ok_def, simplified] and w = assms(2) [unfolded wall_ok_def, simplified]
  have len: "length ts = length evs" using ok by simp
  obtain t c where st: "hlc_step (C, ts) e = (C(ev_node e := c), ts @ [t])" "clk_Timestamp c = t"
    "ev_phys e \<le> ts_WallTime t"
    "ts_WallTime t \<in> insert (ev_phys e) (insert (ts_WallTime (clk_Timestamp (C (ev_node e)))) (ts_WallTime ` set ts))"
    using hlc_step_advances [OF assms(1,3,4)] by blast
  have "ts_WallTime ` set ts \<subseteq> insert 0 (ev_phys ` set evs)"
  proof
    fix x assume "x \<in> ts_WallTime ` set ts"
    then obtain i where "i < length evs" "x = ts_WallTime (ts ! i)" using len by (auto simp: in_set_conv_nth)
    then have "x = 0 \<or> x \<in> ev_phys ` set (take (Suc i) evs)" using w by blast
    then show "x \<in> insert 0 (ev_phys ` set evs)" by (auto dest: in_set_takeD)
  qed
  then have "ts_WallTime t \<in> insert 0 (ev_phys ` set (evs @ [e]))" using st(4) w by auto
  then show ?thesis using st w len by (auto simp: wall_ok_def nth_append less_Suc_eq)
qed

lemma hlc_run_wall: "history evs \<Longrightarrow> length evs < 2 ^ 31 \<Longrightarrow> wall_ok evs (hlc_run m evs)"
proof (induction evs rule: rev_induct)
  case Nil
  then show ?case by (simp add: wall_ok_def hlc_run_def NewClock_def zero_Timestamp_def)
next
  case (snoc e evs)
  then show ?case
    using wall_ok_snoc [of evs "fst (hlc_run m evs)" "snd (hlc_run m evs)" e] hlc_run_ok [of evs m]
    by (simp add: hlc_run_snoc)
qed

section \<open>Properties\<close>

text \<open>C35: The timestamps of the hybrid clocks respect causality: in every history of clock readings
  and received timestamps on any number of nodes, whatever the physical clocks show, an event
  that happens before another has the smaller timestamp (as long as the \<open>int32\<close> logical time
  cannot run over: fewer than \<open>2\<^sup>3\<^sup>1\<close> events).\<close>

theorem hlc_causality:
  assumes "history evs" "length evs < 2 ^ 31" "happens_before evs i j"
  shows "hlc_stamps m evs ! i < hlc_stamps m evs ! j"
proof -
  have ok: "hlc_ok evs (hlc_run m evs)" using hlc_run_ok assms(1,2) .
  from assms(3) show ?thesis
    using ok unfolding hlc_stamps_def hlc_ok_def by (induction rule: happens_before.induct) (auto intro: less_trans)
qed

theorem hlc_causality_witness:
  "hlc_stamps 30 [Read 0 100, Receive 1 7 0, Read 1 8, Receive 0 50 2] ! 0
     < hlc_stamps 30 [Read 0 100, Receive 1 7 0, Read 1 8, Receive 0 50 2] ! 3"
proof (rule hlc_causality)
  let ?evs = "[Read 0 100, Receive 1 7 0, Read 1 8, Receive 0 50 2]"
  show "history ?evs" by (auto simp: history_def less_Suc_eq)
  have "happens_before ?evs 0 1" by (rule message_order [of _ _ 1 7]) simp_all
  moreover have "happens_before ?evs 1 2" by (rule program_order) simp_all
  moreover have "happens_before ?evs 2 3" by (rule message_order [of _ _ 0 50]) simp_all
  ultimately show "happens_before ?evs 0 3" by (rule transitive [OF transitive])
qed simp

text \<open>C36: The wall time of a hybrid timestamp stays close to the physical clocks: it is at least the
  physical reading of its event, and it is a reading of some clock up to that event (or the
  initial 0).\<close>

theorem hlc_wall_time:
  assumes "history evs" "length evs < 2 ^ 31" "i < length evs"
  shows "ev_phys (evs ! i) \<le> ts_WallTime (hlc_stamps m evs ! i) \<and>
    ts_WallTime (hlc_stamps m evs ! i) \<in> insert 0 (ev_phys ` set (take (Suc i) evs))"
  using hlc_run_wall [OF assms(1,2)] assms(3) by (simp add: wall_ok_def hlc_stamps_def)

theorem hlc_wall_time_witness:
  "ts_WallTime (hlc_stamps 30 [Read 0 100, Receive 1 7 0] ! 1) = 100 \<and>
   7 \<le> ts_WallTime (hlc_stamps 30 [Read 0 100, Receive 1 7 0] ! 1)"
proof -
  have "history [Read 0 100, Receive 1 7 0]" by (auto simp: history_def less_Suc_eq)
  from hlc_wall_time [OF this, of 1 30] show ?thesis by (simp add: hlc_stamps_def hlc_run_def Clock_Now_def
    Clock_Update_def NewClock_def zero_Timestamp_def Clock_timestampLocked_def wrap_int32_def Let_def)
qed

text \<open>The logical time is an \<open>int32\<close>: a clock whose physical time does not advance goes backwards
  when the logical time runs over.\<close>

theorem hlc_logical_wraps:
  assumes "ts_LogicalTime (clk_Timestamp c) = 2 ^ 31 - 1" "pt \<le> ts_WallTime (clk_Timestamp c)"
  shows "fst (Clock_Now c pt) < clk_Timestamp c"
  using assms by (simp add: Clock_Now_def Clock_timestampLocked_def Timestamp_less_iff wrap_int32_def Let_def)

theorem hlc_logical_wraps_witness:
  "fst (Clock_Now \<lparr>clk_Timestamp = \<lparr>ts_WallTime = 5, ts_LogicalTime = 2 ^ 31 - 1\<rparr>, clk_maxOffset = 0\<rparr> 5)
     < \<lparr>ts_WallTime = 5, ts_LogicalTime = 2 ^ 31 - 1\<rparr>"
  using hlc_logical_wraps [of "\<lparr>clk_Timestamp = \<lparr>ts_WallTime = 5, ts_LogicalTime = 2 ^ 31 - 1\<rparr>, clk_maxOffset = 0\<rparr>" 5]
  by simp

end
