(* ===== verification/Logger.thy ===== *)
theory Logger
  imports Prelude "HOL-Library.Word"
begin

unbundle bit_operations_syntax

text \<open>
  The default logger of the raft package, \<open>src/rafts/logger.go\<close>. Its output is the list of lines passed to
  \<open>Output\<close> of the standard logger. How \<open>fmt\<close> prints values is a parameter, \<open>sprint\<close> and \<open>sprintf\<close>; a slice that is
  passed as one argument is \<open>ArgSlice\<close>. \<open>ended\<close> says whether a method returned, ended the process or panicked.
\<close>

datatype 'v arg = Arg 'v | ArgSlice "'v arg list"

datatype ended = Returned | Exited int | Panicked string

record DefaultLogger =
  lg_debug :: bool
  lg_flags :: int
  lg_lines :: "string list"

definition Ldate :: int where "Ldate = 1"

definition Ltime :: int where "Ltime = 2"

definition LstdFlags :: int where "LstdFlags = Ldate OR Ltime"

definition defaultLogger :: DefaultLogger where
  "defaultLogger = \<lparr>lg_debug = True, lg_flags = LstdFlags, lg_lines = []\<rparr>"

definition Output :: "DefaultLogger \<Rightarrow> string \<Rightarrow> DefaultLogger" where
  "Output l s = l\<lparr>lg_lines := lg_lines l @ [s]\<rparr>"

definition logger_header :: "string \<Rightarrow> string \<Rightarrow> string" where
  "logger_header lvl msg = lvl @ '': '' @ msg"

definition EnableTimestamps :: "DefaultLogger \<Rightarrow> DefaultLogger" where
  "EnableTimestamps l = l\<lparr>lg_flags := lg_flags l OR Ldate OR Ltime\<rparr>"

definition EnableDebug :: "DefaultLogger \<Rightarrow> DefaultLogger" where
  "EnableDebug l = l\<lparr>lg_debug := True\<rparr>"

definition logger_Debug :: "('v arg list \<Rightarrow> string) \<Rightarrow> DefaultLogger \<Rightarrow> 'v arg list \<Rightarrow> ended \<times> DefaultLogger" where
  "logger_Debug sprint l v = (Returned, if lg_debug l then Output l (logger_header ''DEBUG'' (sprint v)) else l)"

definition logger_Debugf :: "(string \<Rightarrow> 'v arg list \<Rightarrow> string) \<Rightarrow> DefaultLogger \<Rightarrow> string \<Rightarrow> 'v arg list \<Rightarrow> ended \<times> DefaultLogger" where
  "logger_Debugf sprintf l format v =
     (Returned, if lg_debug l then Output l (logger_header ''DEBUG'' (sprintf format v)) else l)"

definition logger_Info :: "('v arg list \<Rightarrow> string) \<Rightarrow> DefaultLogger \<Rightarrow> 'v arg list \<Rightarrow> ended \<times> DefaultLogger" where
  "logger_Info sprint l v = (Returned, Output l (logger_header ''INFO'' (sprint v)))"

definition logger_Infof :: "(string \<Rightarrow> 'v arg list \<Rightarrow> string) \<Rightarrow> DefaultLogger \<Rightarrow> string \<Rightarrow> 'v arg list \<Rightarrow> ended \<times> DefaultLogger" where
  "logger_Infof sprintf l format v = (Returned, Output l (logger_header ''INFO'' (sprintf format v)))"

definition logger_Error :: "('v arg list \<Rightarrow> string) \<Rightarrow> DefaultLogger \<Rightarrow> 'v arg list \<Rightarrow> ended \<times> DefaultLogger" where
  "logger_Error sprint l v = (Returned, Output l (logger_header ''ERROR'' (sprint v)))"

definition logger_Errorf :: "(string \<Rightarrow> 'v arg list \<Rightarrow> string) \<Rightarrow> DefaultLogger \<Rightarrow> string \<Rightarrow> 'v arg list \<Rightarrow> ended \<times> DefaultLogger" where
  "logger_Errorf sprintf l format v = (Returned, Output l (logger_header ''ERROR'' (sprintf format v)))"

definition logger_Warning :: "('v arg list \<Rightarrow> string) \<Rightarrow> DefaultLogger \<Rightarrow> 'v arg list \<Rightarrow> ended \<times> DefaultLogger" where
  "logger_Warning sprint l v = (Returned, Output l (logger_header ''WARN'' (sprint v)))"

definition logger_Warningf :: "(string \<Rightarrow> 'v arg list \<Rightarrow> string) \<Rightarrow> DefaultLogger \<Rightarrow> string \<Rightarrow> 'v arg list \<Rightarrow> ended \<times> DefaultLogger" where
  "logger_Warningf sprintf l format v = (Returned, Output l (logger_header ''WARN'' (sprintf format v)))"

definition logger_Fatal :: "('v arg list \<Rightarrow> string) \<Rightarrow> DefaultLogger \<Rightarrow> 'v arg list \<Rightarrow> ended \<times> DefaultLogger" where
  "logger_Fatal sprint l v = (Exited 1, Output l (logger_header ''FATAL'' (sprint v)))"

definition logger_Fatalf :: "(string \<Rightarrow> 'v arg list \<Rightarrow> string) \<Rightarrow> DefaultLogger \<Rightarrow> string \<Rightarrow> 'v arg list \<Rightarrow> ended \<times> DefaultLogger" where
  "logger_Fatalf sprintf l format v = (Exited 1, Output l (logger_header ''FATAL'' (sprintf format v)))"

text \<open>\<open>Panic\<close> hands its arguments on as one slice, \<open>Panicf\<close> as arguments; neither writes a level.\<close>

definition logger_Panic :: "('v arg list \<Rightarrow> string) \<Rightarrow> DefaultLogger \<Rightarrow> 'v arg list \<Rightarrow> ended \<times> DefaultLogger" where
  "logger_Panic sprint l v = (let s = sprint [ArgSlice v] in (Panicked s, Output l s))"

definition logger_Panicf :: "(string \<Rightarrow> 'v arg list \<Rightarrow> string) \<Rightarrow> DefaultLogger \<Rightarrow> string \<Rightarrow> 'v arg list \<Rightarrow> ended \<times> DefaultLogger" where
  "logger_Panicf sprintf l format v = (let s = sprintf format v in (Panicked s, Output l s))"

text \<open>The level and the message can be told apart in a line, since no level has a colon.\<close>

lemma header_inj:
  assumes "CHR '':'' \<notin> set lvl" "CHR '':'' \<notin> set lvl'"
  shows "logger_header lvl msg = logger_header lvl' msg' \<longleftrightarrow> lvl = lvl' \<and> msg = msg'"
proof
  assume eq: "logger_header lvl msg = logger_header lvl' msg'"
  have t: "takeWhile (\<lambda>c. c \<noteq> CHR '':'') (logger_header l m) = l" if "CHR '':'' \<notin> set l" for l m
    using that by (auto simp: logger_header_def takeWhile_append)
  have "lvl = lvl'" using t [OF assms(1), of msg] t [OF assms(2), of msg'] eq by simp
  then show "lvl = lvl' \<and> msg = msg'" using eq by (simp add: logger_header_def)
qed simp

lemma default_timestamps: "EnableTimestamps defaultLogger = defaultLogger"
  by (simp add: EnableTimestamps_def defaultLogger_def LstdFlags_def Ldate_def Ltime_def)

end
