(* ===== verification/TestServer.thy ===== *)
theory TestServer
  imports Prelude
begin

text \<open>
  The helper that tests start their gRPC servers with, \<open>src/util/testutils/server.go\<close>. What the network
  reports is an argument: the addresses of the interfaces, and whether the certificate could be loaded and the port be
  listened on. Of the gRPC server only what was registered and whether it serves is kept.
\<close>

datatype address = IPNet bool "string option" string | OtherAddr

text \<open>An \<open>IPNet\<close> says whether it is a loopback address, its \<open>To4\<close>, and its \<open>String\<close>.\<close>

datatype creds = Insecure | TLS

record 'rpc TestServer =
  ts_registered :: "'rpc list"
  ts_serving :: bool
  ts_creds :: creds
  ts_Host :: string
  ts_Port :: string
  ts_security :: bool
  ts_started :: bool

definition DefaultPort :: string where
  "DefaultPort = '':10000''"

definition localHost :: string where
  "localHost = ''127.0.0.1''"

fun getLocalIp_loop :: "address list \<Rightarrow> string" where
  "getLocalIp_loop [] = localHost"
| "getLocalIp_loop (a # as) =
     (case a of
        IPNet loopback to4 str \<Rightarrow> if \<not> loopback \<and> to4 \<noteq> None then str else getLocalIp_loop as
      | OtherAddr \<Rightarrow> getLocalIp_loop as)"

definition getLocalIp :: "address list option \<Rightarrow> string" where
  "getLocalIp addrs = (case addrs of None \<Rightarrow> localHost | Some as \<Rightarrow> getLocalIp_loop as)"

definition NewTestServer :: "address list option \<Rightarrow> bool \<Rightarrow> string \<Rightarrow> string \<Rightarrow> bool \<Rightarrow> 'rpc TestServer go" where
  "NewTestServer addrs certOk host port security =
     (let host' = (if host = [] then getLocalIp addrs else host);
          port' = (if port = [] then DefaultPort else port) in
      if security \<and> \<not> certOk then Inl PanicCall
      else Inr \<lparr>ts_registered = [], ts_serving = False, ts_creds = (if security then TLS else Insecure), ts_Host = host',
                ts_Port = port', ts_security = security, ts_started = False\<rparr>)"

definition GetDialOpts :: "bool \<Rightarrow> 'rpc TestServer \<Rightarrow> creds list go" where
  "GetDialOpts certOk ts =
     (if ts_security ts then (if \<not> certOk then Inl PanicCall else Inr [TLS]) else Inr [Insecure])"

definition RegisterRPC :: "'rpc TestServer \<Rightarrow> 'rpc \<Rightarrow> bool \<times> 'rpc TestServer" where
  "RegisterRPC ts rpc =
     (if ts_started ts then (False, ts) else (True, ts\<lparr>ts_registered := ts_registered ts @ [rpc]\<rparr>))"

definition TestServer_Start :: "bool \<Rightarrow> 'rpc TestServer \<Rightarrow> bool \<times> 'rpc TestServer" where
  "TestServer_Start listens ts = (if \<not> listens then (False, ts) else (True, ts\<lparr>ts_started := True, ts_serving := True\<rparr>))"

definition TestServer_Stop :: "'rpc TestServer \<Rightarrow> 'rpc TestServer" where
  "TestServer_Stop ts = ts\<lparr>ts_serving := False, ts_started := False\<rparr>"

text \<open>The address a server takes by itself is that of the first interface with an IPv4 address that is not a
  loopback, and the local host only when there is none.\<close>

lemma getLocalIp_first:
  "getLocalIp_loop as =
     (case filter (\<lambda>a. case a of IPNet lb to4 s \<Rightarrow> \<not> lb \<and> to4 \<noteq> None | OtherAddr \<Rightarrow> False) as of
        IPNet lb to4 s # _ \<Rightarrow> s | _ \<Rightarrow> localHost)"
  by (induction as) (auto split: address.splits)

text \<open>A client that dials with the options of a server uses the server's kind of transport.\<close>

lemma dial_matches:
  "NewTestServer addrs certOk host port security = Inr ts \<Longrightarrow> GetDialOpts True ts = Inr [ts_creds ts]"
  by (auto simp: NewTestServer_def GetDialOpts_def Let_def split: if_splits)

lemma registered_while_stopped:
  "fst (RegisterRPC (snd (TestServer_Start True ts)) rpc) = False" "fst (RegisterRPC (TestServer_Stop ts) rpc) = True"
  by (simp_all add: RegisterRPC_def TestServer_Start_def TestServer_Stop_def)

end
