(* ===== verification/Spec2Isabelle.thy ===== *)
theory Spec2Isabelle
  imports GroupProps LogProps NodeProps RaftAlias RaftDefects RaftRestart HubGroup RaftContainer SharedLoops IntervalCache Hlc Worker
    Logger TestServer
begin

text \<open>
  A verification development for continuedb: the Go code under \<open>src/\<close> that replicates a log with raft,
  spreads small pieces of information between server nodes by gossip, and supports both with clocks, caches,
  retries and workers.

  \<^bold>\<open>The program.\<close> A server node has one \<open>RaftContainer\<close> (\<open>src/rafts/raft_container.go\<close>) that holds raft
  instances (\<open>raft.go\<close>), each with its log (\<open>raftlog.go\<close>) over a \<open>Storage\<close> (\<open>storage.go\<close>). An instance is one
  goroutine, \<open>mainLoop\<close>, that selects between ticks, proposals, configuration changes, and messages;
  what it sends goes to the channel \<open>outc\<close>, from which the container takes it to the container of the addressee. Beside
  this, every node runs \<open>Shared\<close> (\<open>src/shared\<close>): a store of infos, a server that answers
  \<open>Share\<close> calls with the infos a peer lacks, and clients that call the servers of other nodes.

  \<^bold>\<open>Conventions\<close> (\<open>Prelude\<close>, \<open>RaftPb\<close>, \<open>GlobalPb\<close>). A struct is a record with its fields in order, an enum a datatype,
  \<open>uint64\<close> is \<open>64 word\<close>, \<open>int\<close>, \<open>int64\<close> and \<open>int32\<close> are \<open>int\<close> with the wrap-around written out, a Go map is an
  association list whose order stands for the unspecified order of iteration. A function that can
  panic returns \<open>'a go\<close>, with the kind of panic on the left; a Go \<open>(value, error)\<close> is a sum or has an option. Slices are
  indexed by \<open>slice_get\<close> and \<open>slice_range\<close>, which panic out of range. Pointers that the code
  shares are copied where it never relies on the sharing; so are slices, but in \<open>RaftAlias\<close>. Logging is left out.

  \<^bold>\<open>Raft.\<close>
  \<^item> \<open>RaftUtil\<close>: \<open>util.go\<close>. \<open>RaftStorage\<close>: \<open>InMemStorage\<close>. \<open>LogSpec\<close>: the abstract log, a list of entries without gaps, and
    the locales \<open>indexed_log\<close> and \<open>log_storage\<close> with the laws of a log and a storage; \<open>RaftStorage\<close> and
    \<open>RaftLogRefine\<close> interpret them.
  \<^item> \<open>RaftLog\<close>: \<open>unstable\<close> and \<open>raftLog\<close>. \<open>RaftLogRefine\<close>: \<open>rl_view\<close> maps a \<open>raftLog\<close> to the abstract log it stands
    for, and every operation is shown to do on it what it should, under the invariant \<open>raftLog_wf\<close>. \<open>RaftAlias\<close>: what \<open>slice\<close> writes
    into the array of the storage: nothing that is seen without a size limit, stored entries with one.
  \<^item> \<open>RaftProgress\<close> and \<open>Raft\<close>: \<open>raft.go\<close>; \<open>mainLoop_step\<close> is one turn of the main loop on one event, \<open>r_outc\<close> lists all
    messages an instance has ever sent.
  \<^item> \<open>ElectionSpec\<close>: leader election as an abstract protocol, with the locale \<open>quorum_system\<close> interpreted on
    majorities. \<open>RaftQuiet\<close>, \<open>RaftElection\<close>, \<open>RaftCluster\<close>: a group of instances over a network that loses,
    duplicates and reorders refines it.
  \<^item> \<open>RaftNode\<close>, \<open>RaftTotal\<close>: no handler panics on a message fit for it. \<open>RaftEntries\<close>, \<open>RaftReplication\<close>, \<open>RaftSafety\<close>: in a
    group of freshly started members every message is fit, entries are identified by index and
    term, leaders only append. \<open>RaftStart\<close>: \<open>NewRaft\<close> and \<open>Start\<close> make such a group; a scheduler that runs
    one. \<open>RaftStable\<close>: terms, votes and committed entries do not go back.
  \<^item> \<open>GroupProps\<close>, \<open>LogProps\<close>, \<open>NodeProps\<close>: the properties of a group, of a log and of an instance. \<open>RaftDefects\<close>: a run of a group
    whose members commit different entries at one index. \<open>RaftRestart\<close>: an instance that restarts on its storage
    resumes what was saved there, and votes twice where nothing was.
  \<^item> \<open>Hub\<close>: the simulated network of \<open>simulation/hub.go\<close>, its loop and its goroutines as steps, and what it does with messages.
    \<open>HubGroup\<close>: members connected by a hub, which refine a group over an arbitrary network, and so have its properties.
  \<^item> \<open>Logger\<close>: the default logger of \<open>logger.go\<close>.
  \<^item> \<open>RaftContainer\<close>: the container; the locale \<open>router\<close> is the \<open>Router\<close> interface, interpreted on the
    \<open>testRouter\<close> of \<open>raft_container_test.go\<close>. A message is delivered exactly once, over every network that does
    what gRPC documents (\<open>grpc_unary\<close>); the goroutines of \<open>redirect\<close> and the senders, as many as \<open>Start\<close> and \<open>Add\<close> make and with every receive and
    send a step of its own, lose and make up nothing, and keep the order where an instance has one of them.

  \<^bold>\<open>Gossip.\<close>
  \<^item> \<open>Gossip\<close>: \<open>info.go\<close>, \<open>keys.go\<close>, \<open>node_set.go\<close>, \<open>store.go\<close>. \<open>GossipSpec\<close>: the invariant of a store, what a
    delta contains and what combining one does.
  \<^item> \<open>GossipServer\<close>: \<open>server.go\<close>. \<open>Share\<close> is modelled up to its answer or the wait in its loop; \<open>server_reply\<close> is the loop's body
    after a wake-up.
  \<^item> \<open>SharedNode\<close>: \<open>client.go\<close> and \<open>shared.go\<close>. A remote call is split into the request and what is done with the response,
    so that other steps can come between.
  \<^item> \<open>GossipExchange\<close>: a round in which a client pulls from another node's server, composed of the operations of both; what it
    transfers, and when an info of a third node never settles.
  \<^item> \<open>SharedLoops\<close>: \<open>Start\<close> and the goroutines of a node as the step relation \<open>gossip_step\<close>, with the bounded channel
    \<open>disconnect\<close> from the clients to the manage loop; the invariant of the reachable
    states, by rule induction.

  \<^bold>\<open>Utilities.\<close> \<open>Hlc\<close>: \<open>util/hlc.go\<close>, with histories of several clocks. \<open>Cache\<close>, \<open>CacheSpec\<close>: \<open>util/cache/cache.go\<close>; the locale
  \<open>cache_storage\<close> is the interface \<open>storage\<close>, interpreted on the hash map of \<open>UnorderedCache\<close>, and on \<open>OrderedCache\<close> for every
  tree that keeps its contract; \<open>IntervalCache\<close> is the third cache, which does not implement the interface: over every tree that does what it documents
  its lookups find nothing or panic. \<open>Worker\<close>: \<open>util/worker.go\<close> as a step relation between goroutines. \<open>Retry\<close>: \<open>util/retry.go\<close>.
  \<open>TestServer\<close>: \<open>util/testutils/server.go\<close>.

  \<^bold>\<open>Bounds.\<close> Nothing runs on fuel: the loops are over lists, except the one of \<open>limitSize\<close> and the search for the hint of a
  rejection, which count up to a bound. The properties of a group assume that terms and log indices are not within two of \<open>2\<^sup>6\<^sup>4\<close>
  (\<open>term_room\<close>, \<open>log_room\<close>): one event raises the term by at most two (a lone member campaigns and wins) and the
  last index by one. The hybrid clock is assumed to see fewer than \<open>2\<^sup>3\<^sup>1\<close> events, as its logical time is an \<open>int32\<close>.
  Witnesses for groups run the three members of \<open>trio\<close> in \<open>RaftStart\<close>.

  \<^bold>\<open>Parameters.\<close> Code outside \<open>src/\<close> is an argument: \<open>sz\<close> (\<open>Entry.Size\<close>) and \<open>marshal\<close> (\<open>ConfChange.Marshal\<close>) of the
  generated protobuf code, \<open>re\<close> (matching of a pattern), \<open>rpc\<close> (a gRPC call), the operations of the llrb tree and of the interval tree,
  \<open>sprint\<close> and \<open>sprintf\<close> (the formatting of \<open>fmt\<close>). So are readings of clocks,
  random numbers and the choices of a \<open>select\<close>.

  \<^bold>\<open>Limits of the raft properties.\<close> The group has fixed members with empty storages and no limit on the size of a message. The limit matters:
  with one, the model of \<open>slice\<close> gives the value that the code returns and not what it does to the storage, and \<open>RaftAlias\<close> shows that it destroys
  committed entries. A message holds its own copy of its entries, as one does that has been sent over the network; that entries of a message still in a
  channel of the same process share an array with the storage is not modelled.
  Members do not agree on committed entries, as \<open>RaftDefects\<close> shows: \<open>maybeCommit\<close> commits entries of earlier terms without a
  comparison of terms, and the entry at the committed index can be overwritten.

  \<^bold>\<open>Not modelled.\<close> \<open>storage/base/localdb.go\<close> (an empty interface); the default tick channel of \<open>util.go\<close>; the receiving and sending ends of
  \<open>GetCommitted\<close>, \<open>AppliedTo\<close> and \<open>ApplyConfChange\<close> of \<open>raft.go\<close>, which are the events of the main loop; log output; the time a loop
  sleeps; the in-place change of a cached \<open>IntervalKey\<close> through \<open>SetStart\<close> and \<open>SetEnd\<close>.

  \<^bold>\<open>Plan.\<close> Next: groups whose members restart or apply configuration changes while the others run; a network of more than two
  gossiping nodes; the containers of two nodes that carry the messages of a group.
\<close>

end
